(* ===== verification/Prelude.thy ===== *)
theory Prelude
  imports Main "HOL-Library.Multiset" "HOL-Library.Word"
begin

text \<open>
  The shared ground of the development: the result type of C code that can reach undefined
  behaviour or leave the process, bounds-checked access to C arrays (every array of the sources
  is a list whose length is the number of slots it has), the \<open>string.h\<close> functions the sources
  call, and generic list lemmas.
\<close>

section \<open>Results of C code\<close>

text \<open>
  \<open>Undefined\<close> is an access outside an array, through a null or freed pointer, or any other
  undefined behaviour of the C standard. \<open>Exit_failure\<close> is a call of \<open>exit(EXIT_FAILURE)\<close>.
\<close>

datatype c_abort = Undefined | Exit_failure

type_synonym 'a c_result = "c_abort + 'a"

definition bindc :: "'a c_result \<Rightarrow> ('a \<Rightarrow> 'b c_result) \<Rightarrow> 'b c_result" where
  "bindc r f = (case r of Inl e \<Rightarrow> Inl e | Inr x \<Rightarrow> f x)"

lemma bindc_simps [simp]:
  "bindc (Inl e) f = Inl e"
  "bindc (Inr x) f = f x"
  by (simp_all add: bindc_def)

lemma bindc_cong [fundef_cong]:
  assumes "r = r'" and "\<And>x. r' = Inr x \<Longrightarrow> f x = g x"
  shows "bindc r f = bindc r' g"
  using assms by (cases r') simp_all

lemma bindc_eq_Inr [simp]:
  "bindc r f = Inr y \<longleftrightarrow> (\<exists>x. r = Inr x \<and> f x = Inr y)"
  by (cases r) simp_all

lemma bindc_assoc:
  "bindc (bindc r f) g = bindc r (\<lambda>x. bindc (f x) g)"
  by (cases r) simp_all

text \<open>
  \<open>safe r Q\<close>: the code has no undefined behaviour, and if it does not leave the process its
  result satisfies \<open>Q\<close>. The rule for \<open>bindc\<close> makes it a weakest-precondition calculus.
\<close>

definition safe :: "'a c_result \<Rightarrow> ('a \<Rightarrow> bool) \<Rightarrow> bool" where
  "safe r Q \<longleftrightarrow> (case r of Inl e \<Rightarrow> e = Exit_failure | Inr x \<Rightarrow> Q x)"

lemma safe_simps [simp]:
  "safe (Inr x) Q = Q x"
  "safe (Inl e) Q = (e = Exit_failure)"
  by (simp_all add: safe_def)

lemma safe_bindc [simp]: "safe (bindc r f) Q = safe r (\<lambda>x. safe (f x) Q)"
  by (cases r) simp_all

lemma safe_mono: "safe r Q \<Longrightarrow> (\<And>x. r = Inr x \<Longrightarrow> Q x \<Longrightarrow> R x) \<Longrightarrow> safe r R"
  by (cases r) simp_all

lemma safe_Inr_D: "safe r Q \<Longrightarrow> r = Inr x \<Longrightarrow> Q x"
  by simp

lemma safe_defined: "safe r Q \<Longrightarrow> r \<noteq> Inl Undefined"
  by auto

section \<open>Conversions\<close>

text \<open>An \<open>ssize_t\<close> or pointer difference passed where a \<open>size_t\<close> of 64 bits is expected.\<close>

definition size_t :: "int \<Rightarrow> nat" where
  "size_t x = nat (x mod 2 ^ 64)"

lemma size_t_nonneg [simp]: "0 \<le> x \<Longrightarrow> x < 2 ^ 64 \<Longrightarrow> size_t x = nat x"
  by (simp add: size_t_def)

text \<open>The conversion of a wider integer to an \<open>int\<close> of 32 bits, and a result of type \<open>long\<close>.\<close>

definition to_int32 :: "int \<Rightarrow> int" where
  "to_int32 x = (x + 2 ^ 31) mod 2 ^ 32 - 2 ^ 31"

lemma to_int32_id [simp]: "- (2 ^ 31) \<le> x \<Longrightarrow> x < 2 ^ 31 \<Longrightarrow> to_int32 x = x"
  by (simp add: to_int32_def)

definition long_ok :: "int \<Rightarrow> bool" where
  "long_ok x \<longleftrightarrow> - (2 ^ 63) \<le> x \<and> x < 2 ^ 63"

definition to_long :: "int \<Rightarrow> int c_result" where
  "to_long x = (if long_ok x then Inr x else Inl Undefined)"

lemma to_long_in [simp]: "long_ok x \<Longrightarrow> to_long x = Inr x"
  by (simp add: to_long_def)

text \<open>The address of a heap-allocated object.\<close>

type_synonym addr = nat

section \<open>Bounds-checked arrays\<close>

definition arr_get :: "'a list \<Rightarrow> nat \<Rightarrow> 'a c_result" where
  "arr_get xs i = (if i < length xs then Inr (xs ! i) else Inl Undefined)"

definition arr_set :: "'a list \<Rightarrow> nat \<Rightarrow> 'a \<Rightarrow> 'a list c_result" where
  "arr_set xs i v = (if i < length xs then Inr (xs[i := v]) else Inl Undefined)"

lemma arr_get_in [simp]: "i < length xs \<Longrightarrow> arr_get xs i = Inr (xs ! i)"
  by (simp add: arr_get_def)

lemma arr_set_in [simp]: "i < length xs \<Longrightarrow> arr_set xs i v = Inr (xs[i := v])"
  by (simp add: arr_set_def)

lemma arr_get_eq_Inr: "arr_get xs i = Inr v \<longleftrightarrow> i < length xs \<and> v = xs ! i"
  by (auto simp: arr_get_def)

lemma arr_set_eq_Inr: "arr_set xs i v = Inr ys \<longleftrightarrow> i < length xs \<and> ys = xs[i := v]"
  by (auto simp: arr_set_def)

text \<open>The \<open>n\<close> slots from offset \<open>i\<close> on, as \<open>memcpy\<close>, \<open>memcmp\<close> and \<open>send\<close> read them.\<close>

definition subarray :: "'a list \<Rightarrow> nat \<Rightarrow> nat \<Rightarrow> 'a list" where
  "subarray xs i n = take n (drop i xs)"

definition mem_read :: "'a list \<Rightarrow> nat \<Rightarrow> nat \<Rightarrow> 'a list c_result" where
  "mem_read xs i n = (if i + n \<le> length xs then Inr (subarray xs i n) else Inl Undefined)"

text \<open>\<open>memcpy (dst + i, src, length src)\<close>.\<close>

definition blit :: "'a list \<Rightarrow> nat \<Rightarrow> 'a list \<Rightarrow> 'a list" where
  "blit dst i src = take i dst @ src @ drop (i + length src) dst"

definition memcpy :: "'a list \<Rightarrow> nat \<Rightarrow> 'a list \<Rightarrow> 'a list c_result" where
  "memcpy dst i src =
     (if i + length src \<le> length dst then Inr (blit dst i src) else Inl Undefined)"

text \<open>
  \<open>memchr (xs + i, c, n)\<close>: the offset in \<open>xs\<close> of the first \<open>c\<close> among the \<open>n\<close> slots from
  \<open>i\<close> on, \<open>None\<close> for the null pointer.
\<close>

fun find_from :: "'a list \<Rightarrow> 'a \<Rightarrow> nat \<Rightarrow> nat option" where
  "find_from [] c i = None"
| "find_from (x # xs) c i = (if x = c then Some i else find_from xs c (Suc i))"

definition memchr :: "'a list \<Rightarrow> nat \<Rightarrow> 'a \<Rightarrow> nat \<Rightarrow> nat option c_result" where
  "memchr xs i c n =
     (if i + n \<le> length xs then Inr (find_from (subarray xs i n) c i) else Inl Undefined)"

lemma length_subarray [simp]: "i + n \<le> length xs \<Longrightarrow> length (subarray xs i n) = n"
  by (simp add: subarray_def)

lemma subarray_0 [simp]: "subarray xs i 0 = []"
  by (simp add: subarray_def)

lemma subarray_from_0: "subarray xs 0 n = take n xs"
  by (simp add: subarray_def)

lemma nth_subarray [simp]: "i + n \<le> length xs \<Longrightarrow> j < n \<Longrightarrow> subarray xs i n ! j = xs ! (i + j)"
  by (simp add: subarray_def)

lemma mem_read_in [simp]: "i + n \<le> length xs \<Longrightarrow> mem_read xs i n = Inr (subarray xs i n)"
  by (simp add: mem_read_def)

lemma mem_read_eq_Inr: "mem_read xs i n = Inr d \<longleftrightarrow> i + n \<le> length xs \<and> d = subarray xs i n"
  by (auto simp: mem_read_def)

lemma memcpy_in [simp]: "i + length src \<le> length dst \<Longrightarrow> memcpy dst i src = Inr (blit dst i src)"
  by (simp add: memcpy_def)

lemma memchr_in [simp]:
  "i + n \<le> length xs \<Longrightarrow> memchr xs i c n = Inr (find_from (subarray xs i n) c i)"
  by (simp add: memchr_def)

lemma length_blit [simp]: "i + length src \<le> length dst \<Longrightarrow> length (blit dst i src) = length dst"
  by (simp add: blit_def)

lemma take_blit: "i + length src \<le> length dst \<Longrightarrow> take (i + length src) (blit dst i src) = take i dst @ src"
  by (simp add: blit_def)

lemma take_blit_0 [simp]: "take (length src) (blit dst 0 src) = src"
  by (simp add: blit_def)

lemma nth_blit:
  assumes "i + length src \<le> length dst" and "j < length dst"
  shows "blit dst i src ! j =
           (if j < i then dst ! j else if j < i + length src then src ! (j - i) else dst ! j)"
  using assms by (auto simp: blit_def nth_append)

lemma find_from_None: "find_from xs c i = None \<longleftrightarrow> c \<notin> set xs"
  by (induction xs arbitrary: i) auto

lemma find_from_SomeD:
  "find_from xs c i = Some j \<Longrightarrow>
     i \<le> j \<and> j < i + length xs \<and> xs ! (j - i) = c \<and> c \<notin> set (take (j - i) xs)"
proof (induction xs arbitrary: i)
  case Nil
  then show ?case by simp
next
  case (Cons x xs)
  show ?case
  proof (cases "x = c")
    case True
    with Cons.prems show ?thesis by simp
  next
    case False
    with Cons.prems have "find_from xs c (Suc i) = Some j" by simp
    from Cons.IH [OF this] have
      *: "Suc i \<le> j" "j < Suc i + length xs" "xs ! (j - Suc i) = c" "c \<notin> set (take (j - Suc i) xs)"
      by auto
    then have "j - i = Suc (j - Suc i)" by simp
    with * False show ?thesis by simp
  qed
qed

lemma find_from_append_notin:
  "c \<notin> set xs \<Longrightarrow> find_from (xs @ ys) c i = find_from ys c (i + length xs)"
  by (induction xs arbitrary: i) auto

lemma find_from_line:
  "c \<notin> set xs \<Longrightarrow> find_from (xs @ c # ys) c i = Some (i + length xs)"
  by (simp add: find_from_append_notin)

end
