(* ===== verification/Binary_Heap.thy ===== *)
theory Binary_Heap
  imports Prelude
begin

text \<open>
  The binary heap of \<open>unix_socket_api/binary_heap\<close>: the operations of \<open>binary_heap.c\<close>, one
  definition each. The heap stores elements of a type \<open>'e\<close> (pointers, in both users of the
  library) and reaches what they point to only through its two callbacks, which read and write
  a memory of a type \<open>'m\<close>; so every operation takes and returns that memory. \<open>arr\<close> is the list
  of the allocated slots, of which the first \<open>heap_size\<close> are in use.
\<close>

section \<open>State and callbacks\<close>

text \<open>
  \<open>compare_func\<close> is given the contents of the two slots its pointers designate;
  \<open>swap_func\<close> returns the new contents of both.
\<close>

type_synonym ('e, 'm) compare_func = "'m \<Rightarrow> 'e \<Rightarrow> 'e \<Rightarrow> bool c_result"
type_synonym ('e, 'm) swap_func = "'m \<Rightarrow> 'e \<Rightarrow> 'e \<Rightarrow> ('m \<times> 'e \<times> 'e) c_result"

record ('e, 'm) binary_heap =
  arr :: "'e list"
  capacity :: nat
  heap_size :: nat
  elem_size :: nat
  cmp_fn :: "('e, 'm) compare_func"
  swap_fn :: "('e, 'm) swap_func"

definition PARENT :: "nat \<Rightarrow> nat" where
  "PARENT ix = (ix - 1) div 2"

definition LEFT_CHILD :: "nat \<Rightarrow> nat" where
  "LEFT_CHILD ix = 2 * ix + 1"

section \<open>Operations\<close>

definition heap_compare ::
  "('e, 'm) binary_heap \<Rightarrow> 'm \<Rightarrow> nat \<Rightarrow> nat \<Rightarrow> bool c_result" where
  "heap_compare h m ix_a ix_b =
     bindc (arr_get (arr h) ix_a) (\<lambda>x.
     bindc (arr_get (arr h) ix_b) (\<lambda>y. cmp_fn h m x y))"

definition heap_swap ::
  "('e, 'm) binary_heap \<Rightarrow> 'm \<Rightarrow> nat \<Rightarrow> nat \<Rightarrow> (('e, 'm) binary_heap \<times> 'm) c_result" where
  "heap_swap h m ix_a ix_b =
     bindc (arr_get (arr h) ix_a) (\<lambda>x.
     bindc (arr_get (arr h) ix_b) (\<lambda>y.
     bindc (swap_fn h m x y) (\<lambda>(m', x', y').
     bindc (arr_set (arr h) ix_a x') (\<lambda>arr1.
     bindc (arr_set arr1 ix_b y') (\<lambda>arr2.
     Inr (h\<lparr>arr := arr2\<rparr>, m'))))))"

lemma PARENT_less [simp]: "0 < ix \<Longrightarrow> PARENT ix < ix"
  by (auto simp: PARENT_def)

function heapify_up ::
  "('e, 'm) binary_heap \<Rightarrow> 'm \<Rightarrow> nat \<Rightarrow> (('e, 'm) binary_heap \<times> 'm) c_result" where
  "heapify_up h m ix =
     (if 0 < ix then
        bindc (heap_compare h m ix (PARENT ix)) (\<lambda>c.
          if \<not> c then
            bindc (heap_swap h m ix (PARENT ix)) (\<lambda>(h', m'). heapify_up h' m' (PARENT ix))
          else Inr (h, m))
      else Inr (h, m))"
  by pat_completeness auto
termination
  by (relation "measure (\<lambda>(h, m, ix). ix)") auto

declare heapify_up.simps [simp del]

text \<open>The choice of the smaller child in the bodies of \<open>heapify_down\<close> and \<open>binary_heap_validate\<close>.\<close>

definition select_child :: "('e, 'm) binary_heap \<Rightarrow> 'm \<Rightarrow> nat \<Rightarrow> nat c_result" where
  "select_child h m ix =
     (let child_ix = LEFT_CHILD ix in
      if child_ix + 1 < heap_size h then
        bindc (heap_compare h m (child_ix + 1) child_ix) (\<lambda>c.
          Inr (if \<not> c then child_ix + 1 else child_ix))
      else Inr child_ix)"

lemma select_child_gt: "select_child h m ix = Inr c \<Longrightarrow> ix < c"
  by (auto simp: select_child_def LEFT_CHILD_def Let_def split: if_splits)

function heapify_down_loop ::
  "('e, 'm) binary_heap \<Rightarrow> 'm \<Rightarrow> nat \<Rightarrow> nat \<Rightarrow> (('e, 'm) binary_heap \<times> 'm) c_result" where
  "heapify_down_loop h m last_root_ix ix =
     (if ix \<le> last_root_ix then
        bindc (select_child h m ix) (\<lambda>child_ix.
        bindc (heap_compare h m child_ix ix) (\<lambda>c.
          if c then Inr (h, m)
          else bindc (heap_swap h m ix child_ix) (\<lambda>(h', m').
                 heapify_down_loop h' m' last_root_ix child_ix)))
      else Inr (h, m))"
  by pat_completeness auto
termination
  by (relation "measure (\<lambda>(h, m, l, ix). Suc l - ix)")
     (auto dest: select_child_gt intro: diff_less_mono2)

declare heapify_down_loop.simps [simp del]

definition heapify_down ::
  "('e, 'm) binary_heap \<Rightarrow> 'm \<Rightarrow> nat \<Rightarrow> (('e, 'm) binary_heap \<times> 'm) c_result" where
  "heapify_down h m ix =
     (if heap_size h < 2 then Inr (h, m)
      else heapify_down_loop h m (PARENT (heap_size h - 1)) ix)"

text \<open>
  \<open>malloc\<close> is given the number of bytes asked for; it returns \<open>None\<close> for the null pointer,
  otherwise the (indeterminate) contents of the slots of the block. The number of bytes is a
  \<open>size_t\<close>, so the product wraps.
\<close>

definition heap_bytes :: "nat \<Rightarrow> nat \<Rightarrow> nat" where
  "heap_bytes cap esize = (cap * esize) mod 2 ^ 64"

definition binary_heap_allocate ::
  "(nat \<Rightarrow> 'e list option) \<Rightarrow> nat \<Rightarrow> nat \<Rightarrow> ('e, 'm) compare_func \<Rightarrow> ('e, 'm) swap_func \<Rightarrow>
     int \<times> ('e, 'm) binary_heap option" where
  "binary_heap_allocate malloc cap esize cmp swp =
     (case malloc (heap_bytes cap esize) of
        None \<Rightarrow> (-1, None)
      | Some slots \<Rightarrow>
          (0, Some \<lparr>arr = slots, capacity = cap, heap_size = 0, elem_size = esize,
                    cmp_fn = cmp, swap_fn = swp\<rparr>))"

text \<open>The array goes back to the allocator; no slot of it may be used any more.\<close>

definition binary_heap_free :: "('e, 'm) binary_heap \<Rightarrow> ('e, 'm) binary_heap" where
  "binary_heap_free h = h\<lparr>arr := []\<rparr>"

text \<open>The slot \<open>*pp_elem\<close> points to on success.\<close>

definition binary_heap_top :: "('e, 'm) binary_heap \<Rightarrow> int \<times> nat option" where
  "binary_heap_top h = (if heap_size h = 0 then (-1, None) else (0, Some 0))"

definition binary_heap_push ::
  "('e, 'm) binary_heap \<Rightarrow> 'm \<Rightarrow> 'e \<Rightarrow> (int \<times> ('e, 'm) binary_heap \<times> 'm) c_result" where
  "binary_heap_push h m e =
     (if heap_size h \<ge> capacity h then Inr (-1, h, m)
      else
        bindc (arr_set (arr h) (heap_size h) e) (\<lambda>arr'.
        bindc (heapify_up (h\<lparr>arr := arr', heap_size := heap_size h + 1\<rparr>) m
                 (heap_size h + 1 - 1)) (\<lambda>(h', m').
        Inr (0, h', m'))))"

text \<open>\<open>binary_heap_pop\<close> and \<open>binary_heap_remove\<close> also return what they copy to \<open>p_elem\<close>.\<close>

definition binary_heap_pop ::
  "('e, 'm) binary_heap \<Rightarrow> 'm \<Rightarrow> (int \<times> 'e option \<times> ('e, 'm) binary_heap \<times> 'm) c_result" where
  "binary_heap_pop h m =
     (if heap_size h = 0 then Inr (-1, None, h, m)
      else
        bindc (arr_get (arr h) 0) (\<lambda>e.
        bindc (heap_swap (h\<lparr>heap_size := heap_size h - 1\<rparr>) m 0 (heap_size h - 1)) (\<lambda>(h1, m1).
        bindc (heapify_down h1 m1 0) (\<lambda>(h2, m2).
        Inr (0, Some e, h2, m2)))))"

definition binary_heap_update ::
  "('e, 'm) binary_heap \<Rightarrow> 'm \<Rightarrow> nat \<Rightarrow> (('e, 'm) binary_heap \<times> 'm) c_result" where
  "binary_heap_update h m ix =
     (if 0 < ix then
        bindc (heap_compare h m ix (PARENT ix)) (\<lambda>c.
          if \<not> c then heapify_up h m ix else heapify_down h m ix)
      else heapify_down h m ix)"

definition binary_heap_remove ::
  "('e, 'm) binary_heap \<Rightarrow> 'm \<Rightarrow> nat \<Rightarrow>
     (int \<times> 'e option \<times> ('e, 'm) binary_heap \<times> 'm) c_result" where
  "binary_heap_remove h m ix =
     (if ix \<ge> heap_size h then Inr (-1, None, h, m)
      else
        bindc (arr_get (arr h) ix) (\<lambda>e.
        let h0 = h\<lparr>heap_size := heap_size h - 1\<rparr> in
        if ix \<noteq> heap_size h0 then
          bindc (heap_swap h0 m ix (heap_size h0)) (\<lambda>(h1, m1).
          bindc (binary_heap_update h1 m1 ix) (\<lambda>(h2, m2).
          Inr (0, Some e, h2, m2)))
        else Inr (0, Some e, h0, m)))"

function validate_loop :: "('e, 'm) binary_heap \<Rightarrow> 'm \<Rightarrow> nat \<Rightarrow> nat \<Rightarrow> int c_result" where
  "validate_loop h m last_root_ix ix =
     (if ix \<le> last_root_ix then
        bindc (select_child h m ix) (\<lambda>child_ix.
        bindc (heap_compare h m child_ix ix) (\<lambda>c.
          if \<not> c then Inr (-1) else validate_loop h m last_root_ix (ix + 1)))
      else Inr 0)"
  by pat_completeness auto
termination
  by (relation "measure (\<lambda>(h, m, l, ix). Suc l - ix)") auto

declare validate_loop.simps [simp del]

definition binary_heap_validate :: "('e, 'm) binary_heap \<Rightarrow> 'm \<Rightarrow> int c_result" where
  "binary_heap_validate h m =
     (if heap_size h < 2 then Inr 0 else validate_loop h m (PARENT (heap_size h - 1)) 0)"

end
