(* ===== verification/Heap_Correct.thy ===== *)
theory Heap_Correct
  imports Binary_Heap
begin

text \<open>
  Correctness of the binary heap, for any pair of callbacks that keep the contract of the locale
  \<open>heap_order\<close>: \<open>compare\<close> tells whether the first element's key is not below the second's, and
  \<open>swap\<close> exchanges the two slots without changing a key. Under it the array is a min-heap on the
  keys. The locale \<open>heap_indexed\<close> adds the second promise of both clients' \<open>swap\<close>, that it keeps
  the position stored in each element up to date. Every lemma also says that no operation leaves
  the array or touches a dead element: its result is \<open>Inr\<close>.
\<close>

section \<open>Heap order on lists\<close>

definition swap_list :: "'a list \<Rightarrow> nat \<Rightarrow> nat \<Rightarrow> 'a list" where
  "swap_list xs a b = xs[a := xs ! b, b := xs ! a]"

lemma length_swap_list [simp]: "length (swap_list xs a b) = length xs"
  by (simp add: swap_list_def)

lemma nth_swap_list:
  "a < length xs \<Longrightarrow> b < length xs \<Longrightarrow> i < length xs \<Longrightarrow>
     swap_list xs a b ! i = (if i = a then xs ! b else if i = b then xs ! a else xs ! i)"
  by (auto simp: swap_list_def nth_list_update)

lemma take_swap_list:
  "a < n \<Longrightarrow> b < n \<Longrightarrow> n \<le> length xs \<Longrightarrow> take n (swap_list xs a b) = swap_list (take n xs) a b"
  by (simp add: swap_list_def take_update_swap)

lemma drop_swap_list: "a < n \<Longrightarrow> b < n \<Longrightarrow> drop n (swap_list xs a b) = drop n xs"
  by (simp add: swap_list_def)

lemma mset_take_swap_list:
  "a < n \<Longrightarrow> b < n \<Longrightarrow> n \<le> length xs \<Longrightarrow> mset (take n (swap_list xs a b)) = mset (take n xs)"
  using mset_swap [of b "take n xs" a]
  by (simp add: take_swap_list) (simp add: swap_list_def)

definition heap_ord :: "('a \<Rightarrow> 'k::linorder) \<Rightarrow> 'a list \<Rightarrow> nat \<Rightarrow> bool" where
  "heap_ord k xs n \<longleftrightarrow> (\<forall>i. 0 < i \<longrightarrow> i < n \<longrightarrow> k (xs ! PARENT i) \<le> k (xs ! i))"

text \<open>
  The order with a defect at \<open>j\<close>: \<open>up_ord\<close> allows \<open>j\<close> to be below its parent, \<open>down_ord\<close> to be
  above its children, \<open>near_ord\<close> both (the state after a change of the key at \<open>j\<close>). In each
  the children of \<open>j\<close> are in order with its parent.
\<close>

definition bridged :: "('a \<Rightarrow> 'k::linorder) \<Rightarrow> 'a list \<Rightarrow> nat \<Rightarrow> nat \<Rightarrow> bool" where
  "bridged k xs n j \<longleftrightarrow>
     (\<forall>i. 0 < i \<longrightarrow> i < n \<longrightarrow> PARENT i = j \<longrightarrow> 0 < j \<longrightarrow> k (xs ! PARENT j) \<le> k (xs ! i))"

definition up_ord :: "('a \<Rightarrow> 'k::linorder) \<Rightarrow> 'a list \<Rightarrow> nat \<Rightarrow> nat \<Rightarrow> bool" where
  "up_ord k xs n j \<longleftrightarrow> bridged k xs n j \<and>
     (\<forall>i. 0 < i \<longrightarrow> i < n \<longrightarrow> i \<noteq> j \<longrightarrow> k (xs ! PARENT i) \<le> k (xs ! i))"

definition down_ord :: "('a \<Rightarrow> 'k::linorder) \<Rightarrow> 'a list \<Rightarrow> nat \<Rightarrow> nat \<Rightarrow> bool" where
  "down_ord k xs n j \<longleftrightarrow> bridged k xs n j \<and>
     (\<forall>i. 0 < i \<longrightarrow> i < n \<longrightarrow> PARENT i \<noteq> j \<longrightarrow> k (xs ! PARENT i) \<le> k (xs ! i))"

definition near_ord :: "('a \<Rightarrow> 'k::linorder) \<Rightarrow> 'a list \<Rightarrow> nat \<Rightarrow> nat \<Rightarrow> bool" where
  "near_ord k xs n j \<longleftrightarrow> bridged k xs n j \<and>
     (\<forall>i. 0 < i \<longrightarrow> i < n \<longrightarrow> i \<noteq> j \<longrightarrow> PARENT i \<noteq> j \<longrightarrow> k (xs ! PARENT i) \<le> k (xs ! i))"

lemma PARENT_lt: "i < n \<Longrightarrow> PARENT i < n"
  by (auto simp: PARENT_def)

lemma PARENT_neq: "0 < i \<Longrightarrow> PARENT i \<noteq> i"
  by (auto simp: PARENT_def)

lemma up_done:
  "up_ord k xs n j \<Longrightarrow> j = 0 \<or> k (xs ! PARENT j) \<le> k (xs ! j) \<Longrightarrow> heap_ord k xs n"
  unfolding up_ord_def heap_ord_def by (metis less_numeral_extra(3))

lemma down_done:
  "down_ord k xs n j \<Longrightarrow> (\<And>i. 0 < i \<Longrightarrow> i < n \<Longrightarrow> PARENT i = j \<Longrightarrow> k (xs ! j) \<le> k (xs ! i)) \<Longrightarrow>
     heap_ord k xs n"
  unfolding down_ord_def heap_ord_def by metis

lemma near_up:
  "near_ord k xs n j \<Longrightarrow> 0 < j \<Longrightarrow> k (xs ! j) \<le> k (xs ! PARENT j) \<Longrightarrow> up_ord k xs n j"
proof -
  assume near: "near_ord k xs n j" and j: "0 < j" and le: "k (xs ! j) \<le> k (xs ! PARENT j)"
  have "k (xs ! PARENT i) \<le> k (xs ! i)" if i: "0 < i" "i < n" "i \<noteq> j" for i
  proof (cases "PARENT i = j")
    case True
    with near i j have "k (xs ! PARENT j) \<le> k (xs ! i)" by (simp add: near_ord_def bridged_def)
    with le True show ?thesis by simp
  next
    case False
    with near i show ?thesis by (simp add: near_ord_def)
  qed
  with near show ?thesis by (simp add: near_ord_def up_ord_def)
qed

lemma near_down:
  "near_ord k xs n j \<Longrightarrow> j = 0 \<or> k (xs ! PARENT j) \<le> k (xs ! j) \<Longrightarrow> down_ord k xs n j"
  unfolding near_ord_def down_ord_def by (metis less_numeral_extra(3))

lemma up_step:
  assumes ord: "up_ord k xs n j" and j: "0 < j" "j < n" "n \<le> length xs"
    and lt: "k (xs ! j) < k (xs ! PARENT j)"
  shows "up_ord k (swap_list xs j (PARENT j)) n (PARENT j)"
proof -
  let ?p = "PARENT j" and ?ys = "swap_list xs j (PARENT j)"
  have p: "?p < j" using j by simp
  have ys: "?ys ! i = (if i = j then xs ! ?p else if i = ?p then xs ! j else xs ! i)" if "i < n" for i
    using that j p by (simp add: nth_swap_list)
  have old: "k (xs ! PARENT i) \<le> k (xs ! i)" if "0 < i" "i < n" "i \<noteq> j" for i
    using ord that by (simp add: up_ord_def)
  have br: "k (xs ! ?p) \<le> k (xs ! i)" if "0 < i" "i < n" "PARENT i = j" for i
    using ord that j by (simp add: up_ord_def bridged_def)
  have "k (?ys ! PARENT i) \<le> k (?ys ! i)" if i: "0 < i" "i < n" "i \<noteq> ?p" for i
  proof -
    have pi: "PARENT i < n" "PARENT i \<noteq> i"
      using i by (simp_all add: PARENT_lt PARENT_neq)
    show ?thesis
    proof (cases "i = j")
      case True
      with pi p lt show ?thesis by (simp add: ys j less_imp_le)
    next
      case False
      have "k (xs ! j) \<le> k (xs ! i)" if "PARENT i = ?p"
        using old [of i] lt i False that by simp
      moreover have "k (xs ! ?p) \<le> k (xs ! i)" if "PARENT i = j"
        using br i that by simp
      ultimately show ?thesis using old [of i] i pi False by (simp add: ys)
    qed
  qed
  moreover have "k (?ys ! PARENT ?p) \<le> k (?ys ! i)" if i: "0 < i" "i < n" "PARENT i = ?p" "0 < ?p" for i
  proof -
    have q: "PARENT ?p < ?p" "?p < n" using i p j by (simp_all add: PARENT_lt)
    have qp: "k (xs ! PARENT ?p) \<le> k (xs ! ?p)" using old [of ?p] i p q by simp
    have gp: "?ys ! PARENT ?p = xs ! PARENT ?p" using ys [of "PARENT ?p"] q p by auto
    show ?thesis
    proof (cases "i = j")
      case True
      with p qp show ?thesis by (simp add: gp ys j)
    next
      case False
      moreover have "i \<noteq> ?p" using PARENT_neq [of i] i by auto
      ultimately show ?thesis using i qp old [of i] by (simp add: gp ys)
    qed
  qed
  ultimately show ?thesis by (simp add: up_ord_def bridged_def)
qed

lemma down_step:
  assumes ord: "down_ord k xs n j" and c: "0 < c" "c < n" "n \<le> length xs" "PARENT c = j"
    and least: "\<And>i. 0 < i \<Longrightarrow> i < n \<Longrightarrow> PARENT i = j \<Longrightarrow> k (xs ! c) \<le> k (xs ! i)"
    and lt: "k (xs ! c) < k (xs ! j)"
  shows "down_ord k (swap_list xs j c) n c"
proof -
  let ?ys = "swap_list xs j c"
  have j: "j < c" using c PARENT_less by blast
  have ys: "?ys ! i = (if i = j then xs ! c else if i = c then xs ! j else xs ! i)" if "i < n" for i
    using that c j by (simp add: nth_swap_list)
  have old: "k (xs ! PARENT i) \<le> k (xs ! i)" if "0 < i" "i < n" "PARENT i \<noteq> j" for i
    using ord that by (simp add: down_ord_def)
  have br: "k (xs ! PARENT j) \<le> k (xs ! i)" if "0 < i" "i < n" "PARENT i = j" "0 < j" for i
    using ord that by (simp add: down_ord_def bridged_def)
  have "k (?ys ! PARENT i) \<le> k (?ys ! i)" if i: "0 < i" "i < n" "PARENT i \<noteq> c" for i
  proof -
    have pi: "PARENT i < n" "PARENT i \<noteq> i"
      using i by (simp_all add: PARENT_lt PARENT_neq)
    show ?thesis
    proof (cases "PARENT i = j")
      case True
      then show ?thesis using i pi c lt least [of i] j by (simp add: ys less_imp_le)
    next
      case False
      have "k (xs ! PARENT j) \<le> k (xs ! c)" if "i = j"
        using br [of c] c i that by simp
      moreover have "i \<noteq> c" using False c by auto
      ultimately show ?thesis using False i pi old [of i] by (simp add: ys)
    qed
  qed
  moreover have "k (?ys ! PARENT c) \<le> k (?ys ! i)" if i: "0 < i" "i < n" "PARENT i = c" for i
  proof -
    have "i \<noteq> j" "i \<noteq> c" using i c j PARENT_less [of i] by auto
    then show ?thesis using i c j old [of i] by (simp add: ys)
  qed
  ultimately show ?thesis by (simp add: down_ord_def bridged_def)
qed

lemma heap_ord_min:
  assumes "heap_ord k xs n" and "i < n"
  shows "k (xs ! 0) \<le> k (xs ! i)"
  using assms(2)
proof (induction i rule: less_induct)
  case (less i)
  show ?case
  proof (cases "i = 0")
    case False
    then have "k (xs ! 0) \<le> k (xs ! PARENT i)" using less by (simp add: PARENT_lt)
    also have "\<dots> \<le> k (xs ! i)" using assms(1) False less.prems by (simp add: heap_ord_def)
    finally show ?thesis .
  qed simp
qed

text \<open>Ordering facts that only depend on the slots in use.\<close>

lemma heap_ord_shrink: "heap_ord k xs n \<Longrightarrow> m \<le> n \<Longrightarrow> heap_ord k xs m"
  by (simp add: heap_ord_def)

lemma heap_ord_near:
  assumes "heap_ord k xs n" and "\<And>i. i < n \<Longrightarrow> i \<noteq> j \<Longrightarrow> k' (ys ! i) = k (xs ! i)"
  shows "near_ord k' ys n j"
proof -
  have step: "k (xs ! PARENT i) \<le> k (xs ! i)" if "0 < i" "i < n" for i
    using assms(1) that by (simp add: heap_ord_def)
  have bridge: "k (xs ! PARENT j) \<le> k (xs ! i)" if "0 < i" "i < n" "PARENT i = j" "0 < j" for i
    using step [of i] step [of j] that PARENT_lt [of i n] by simp
  show ?thesis
    unfolding near_ord_def bridged_def
    using step bridge assms(2) by (metis PARENT_lt PARENT_neq)
qed

lemma heap_ord_append:
  assumes "heap_ord k xs n" and "\<And>i. i < n \<Longrightarrow> k (ys ! i) = k (xs ! i)"
  shows "up_ord k ys (Suc n) n"
proof -
  have par: "PARENT i < n" if "0 < i" "i < Suc n" for i
    using that PARENT_less [of i] by linarith
  have "k (ys ! PARENT i) \<le> k (ys ! i)" if "0 < i" "i < Suc n" "i \<noteq> n" for i
    using assms that par [of i] by (simp add: heap_ord_def)
  moreover have "PARENT i \<noteq> n" if "0 < i" "i < Suc n" for i
    using par that by (metis less_irrefl)
  ultimately show ?thesis by (simp add: up_ord_def bridged_def)
qed

section \<open>Reshuffles of the array\<close>

text \<open>
  Both sift loops change the heap by swaps only. \<open>heap_swaps n\<close> relates two states between which
  there are only swaps of slots below \<open>n\<close>; what every swap keeps is proved once for it.
\<close>

inductive heap_swaps ::
  "nat \<Rightarrow> ('e, 'm) binary_heap \<Rightarrow> 'm \<Rightarrow> ('e, 'm) binary_heap \<Rightarrow> 'm \<Rightarrow> bool" for n where
  swaps_refl: "heap_swaps n h m h m"
| swaps_step: "heap_swap h m a b = Inr (h1, m1) \<Longrightarrow> a < n \<Longrightarrow> b < n \<Longrightarrow>
     heap_swaps n h1 m1 h2 m2 \<Longrightarrow> heap_swaps n h m h2 m2"

lemma swaps_mono: "heap_swaps n h m h' m' \<Longrightarrow> n \<le> n' \<Longrightarrow> heap_swaps n' h m h' m'"
  by (induction rule: heap_swaps.induct) (auto intro: heap_swaps.intros)

lemma heap_swap_size: "heap_swap h m a b = Inr (h1, m1) \<Longrightarrow> heap_size h1 = heap_size h"
  by (auto simp: heap_swap_def)

lemma select_child_bounds:
  assumes "select_child h m ix = Inr c" and "ix \<le> PARENT (heap_size h - 1)" and "2 \<le> heap_size h"
  shows "c < heap_size h \<and> 0 < c \<and> PARENT c = ix"
  using assms by (auto simp: select_child_def LEFT_CHILD_def PARENT_def Let_def split: if_splits)

section \<open>The contract of the callbacks\<close>

text \<open>
  \<open>live m e\<close>: the element \<open>e\<close> may be dereferenced in memory \<open>m\<close>; \<open>rest m\<close>: everything in the
  memory that \<open>swap\<close> must not change.
\<close>

locale heap_order =
  fixes cmp :: "('e, 'm) compare_func"
    and swp :: "('e, 'm) swap_func"
    and live :: "'m \<Rightarrow> 'e \<Rightarrow> bool"
    and key :: "'m \<Rightarrow> 'e \<Rightarrow> 'k::linorder"
    and rest :: "'m \<Rightarrow> 'r"
  assumes cmp_key: "live m x \<Longrightarrow> live m y \<Longrightarrow> cmp m x y = Inr (key m y \<le> key m x)"
    and swp_ok: "live m x \<Longrightarrow> live m y \<Longrightarrow>
      \<exists>m'. swp m x y = Inr (m', y, x) \<and> live m' = live m \<and> key m' = key m \<and> rest m' = rest m"

text \<open>The slots below \<open>n\<close> are allocated and hold live elements, and the heap has these callbacks.\<close>

definition slots_ok ::
  "('e, 'm) compare_func \<Rightarrow> ('e, 'm) swap_func \<Rightarrow> ('m \<Rightarrow> 'e \<Rightarrow> bool) \<Rightarrow>
     nat \<Rightarrow> ('e, 'm) binary_heap \<Rightarrow> 'm \<Rightarrow> bool" where
  "slots_ok cmp swp live n h m \<longleftrightarrow>
     cmp_fn h = cmp \<and> swap_fn h = swp \<and> n \<le> length (arr h) \<and> (\<forall>i<n. live m (arr h ! i))"

text \<open>What a run of swaps below \<open>n\<close> keeps.\<close>

definition shuffled ::
  "('m \<Rightarrow> 'e \<Rightarrow> bool) \<Rightarrow> ('m \<Rightarrow> 'e \<Rightarrow> 'k) \<Rightarrow> ('m \<Rightarrow> 'r) \<Rightarrow> nat \<Rightarrow>
     ('e, 'm) binary_heap \<Rightarrow> 'm \<Rightarrow> ('e, 'm) binary_heap \<Rightarrow> 'm \<Rightarrow> bool" where
  "shuffled live key rest n h m h' m' \<longleftrightarrow>
     h' = h\<lparr>arr := arr h'\<rparr> \<and> length (arr h') = length (arr h) \<and>
     mset (take n (arr h')) = mset (take n (arr h)) \<and> drop n (arr h') = drop n (arr h) \<and>
     live m' = live m \<and> key m' = key m \<and> rest m' = rest m"

lemma shuffled_trans:
  "shuffled live key rest n h m h1 m1 \<Longrightarrow> shuffled live key rest n h1 m1 h2 m2 \<Longrightarrow>
     shuffled live key rest n h m h2 m2"
  by (simp add: shuffled_def) (metis binary_heap.surjective binary_heap.update_convs(1))

lemma shuffled_fields:
  assumes "shuffled live key rest n h m h' m'"
  shows "heap_size h' = heap_size h" "capacity h' = capacity h" "elem_size h' = elem_size h"
    "cmp_fn h' = cmp_fn h" "swap_fn h' = swap_fn h"
  using assms unfolding shuffled_def
  by (metis binary_heap.select_convs binary_heap.surjective binary_heap.update_convs(1))+

lemma shuffled_nth:
  assumes "shuffled live key rest n h m h' m'" and "n \<le> i" and "i < length (arr h)"
  shows "arr h' ! i = arr h ! i"
proof -
  have "drop n (arr h') ! (i - n) = drop n (arr h) ! (i - n)"
    using assms(1) by (simp add: shuffled_def)
  moreover have "length (arr h') = length (arr h)" using assms(1) by (simp add: shuffled_def)
  ultimately show ?thesis using assms(2,3) by (simp add: nth_drop)
qed

context heap_order
begin

lemma compare_ok:
  "slots_ok cmp swp live n h m \<Longrightarrow> a < n \<Longrightarrow> b < n \<Longrightarrow>
     heap_compare h m a b = Inr (key m (arr h ! b) \<le> key m (arr h ! a))"
  by (simp add: heap_compare_def slots_ok_def cmp_key)

lemma swap_ok:
  assumes "slots_ok cmp swp live n h m" and "a < n" and "b < n"
  obtains m' where "heap_swap h m a b = Inr (h\<lparr>arr := swap_list (arr h) a b\<rparr>, m')"
    and "shuffled live key rest n h m (h\<lparr>arr := swap_list (arr h) a b\<rparr>) m'"
    and "slots_ok cmp swp live n (h\<lparr>arr := swap_list (arr h) a b\<rparr>) m'"
proof -
  have live: "live m (arr h ! a)" "live m (arr h ! b)" and len: "a < length (arr h)" "b < length (arr h)"
    using assms by (auto simp: slots_ok_def)
  from swp_ok [OF live] obtain m' where m':
    "swp m (arr h ! a) (arr h ! b) = Inr (m', arr h ! b, arr h ! a)"
    "live m' = live m" "key m' = key m" "rest m' = rest m" by blast
  have "heap_swap h m a b = Inr (h\<lparr>arr := swap_list (arr h) a b\<rparr>, m')"
    using assms len m' by (simp add: heap_swap_def slots_ok_def swap_list_def)
  moreover have "shuffled live key rest n h m (h\<lparr>arr := swap_list (arr h) a b\<rparr>) m'"
    using assms m' by (simp add: shuffled_def slots_ok_def mset_take_swap_list drop_swap_list)
  moreover have "slots_ok cmp swp live n (h\<lparr>arr := swap_list (arr h) a b\<rparr>) m'"
    using assms m' by (auto simp: slots_ok_def nth_swap_list)
  ultimately show thesis by (rule that)
qed

lemma swaps_shuffled:
  "heap_swaps n h m h' m' \<Longrightarrow> slots_ok cmp swp live n h m \<Longrightarrow>
     shuffled live key rest n h m h' m' \<and> slots_ok cmp swp live n h' m'"
proof (induction rule: heap_swaps.induct)
  case (swaps_refl h m)
  then show ?case by (simp add: shuffled_def)
next
  case (swaps_step h m a b h1 m1 h2 m2)
  from swap_ok [OF swaps_step.prems swaps_step.hyps(2,3)] swaps_step.hyps(1)
  have "shuffled live key rest n h m h1 m1" "slots_ok cmp swp live n h1 m1" by auto
  with swaps_step.IH show ?case by (blast intro: shuffled_trans)
qed

section \<open>The sift loops\<close>

lemma heapify_up_ok:
  assumes "slots_ok cmp swp live n h m" and "up_ord (key m) (arr h) n ix" and "ix < n"
  shows "\<exists>h' m'. heapify_up h m ix = Inr (h', m') \<and> heap_swaps n h m h' m' \<and>
    heap_ord (key m) (arr h') n"
  using assms
proof (induction ix arbitrary: h m rule: less_induct)
  case (less ix)
  show ?case
  proof (cases "0 < ix \<and> \<not> key m (arr h ! PARENT ix) \<le> key m (arr h ! ix)")
    case False
    have "heapify_up h m ix = Inr (h, m)"
      using False less.prems(3)
      by (auto simp: heapify_up.simps [of h m ix] compare_ok [OF less.prems(1)] PARENT_lt)
    with False less.prems show ?thesis by (auto intro: swaps_refl up_done)
  next
    case True
    then have p: "PARENT ix < ix" "PARENT ix < n" using less.prems(3) by (simp_all add: PARENT_lt)
    let ?h1 = "h\<lparr>arr := swap_list (arr h) ix (PARENT ix)\<rparr>"
    from swap_ok [OF less.prems(1,3) p(2)] obtain m1 where m1:
      "heap_swap h m ix (PARENT ix) = Inr (?h1, m1)"
      "shuffled live key rest n h m ?h1 m1" "slots_ok cmp swp live n ?h1 m1" by blast
    have key: "key m1 = key m" using m1(2) by (simp add: shuffled_def)
    have "up_ord (key m1) (arr ?h1) n (PARENT ix)"
      using up_step [OF less.prems(2)] True less.prems(1,3) by (simp add: key slots_ok_def not_le)
    from less.IH [OF p(1) m1(3) this p(2)] obtain h' m' where
      "heapify_up ?h1 m1 (PARENT ix) = Inr (h', m')" "heap_swaps n ?h1 m1 h' m'"
      "heap_ord (key m) (arr h') n" by (auto simp: key)
    moreover from this m1(1) p less.prems(3) have "heap_swaps n h m h' m'"
      by (blast intro: swaps_step)
    moreover have "heapify_up h m ix = heapify_up ?h1 m1 (PARENT ix)"
      using True less.prems(3) p m1(1)
      by (simp add: heapify_up.simps [of h m ix] compare_ok [OF less.prems(1)])
    ultimately show ?thesis by auto
  qed
qed

lemma select_child_ok:
  assumes ok: "slots_ok cmp swp live n h m" and n: "heap_size h = n" "2 \<le> n"
    and ix: "ix \<le> PARENT (n - 1)"
  obtains c where "select_child h m ix = Inr c" and "c < n" and "0 < c" and "PARENT c = ix"
    and "\<And>i. 0 < i \<Longrightarrow> i < n \<Longrightarrow> PARENT i = ix \<Longrightarrow> key m (arr h ! c) \<le> key m (arr h ! i)"
proof -
  let ?l = "LEFT_CHILD ix"
  have l: "?l < n" using ix n(2) by (simp add: PARENT_def LEFT_CHILD_def)
  have children: "i = ?l \<or> i = ?l + 1" if "0 < i" "PARENT i = ix" for i
    using that by (auto simp: PARENT_def LEFT_CHILD_def)
  let ?c = "if ?l + 1 < n \<and> \<not> key m (arr h ! ?l) \<le> key m (arr h ! (?l + 1)) then ?l + 1 else ?l"
  have sel: "select_child h m ix = Inr ?c"
    using l n(1) by (simp add: select_child_def Let_def compare_ok [OF ok])
  have least: "key m (arr h ! ?c) \<le> key m (arr h ! i)" if "0 < i" "i < n" "PARENT i = ix" for i
    using children [OF that(1,3)] that(2) by auto
  have b: "?c < n" "0 < ?c" "PARENT ?c = ix" using select_child_bounds [OF sel] ix n by blast+
  show thesis by (rule that [OF sel b least])
qed

lemma heapify_down_loop_ok:
  assumes "slots_ok cmp swp live n h m" and "heap_size h = n" and "2 \<le> n"
    and "down_ord (key m) (arr h) n ix"
  shows "\<exists>h' m'. heapify_down_loop h m (PARENT (n - 1)) ix = Inr (h', m') \<and>
    heap_swaps n h m h' m' \<and> heap_ord (key m) (arr h') n"
  using assms
proof (induction "n - ix" arbitrary: h m ix rule: less_induct)
  case less
  show ?case
  proof (cases "ix \<le> PARENT (n - 1)")
    case False
    then have "\<not> (0 < i \<and> i < n \<and> PARENT i = ix)" for i by (auto simp: PARENT_def)
    then have "heap_ord (key m) (arr h) n" using down_done [OF less.prems(4)] by blast
    moreover have "heapify_down_loop h m (PARENT (n - 1)) ix = Inr (h, m)"
      using False by (simp add: heapify_down_loop.simps)
    ultimately show ?thesis by (auto intro: swaps_refl)
  next
    case True
    from select_child_ok [OF less.prems(1-3) True] obtain c where c: "select_child h m ix = Inr c"
      "c < n" "0 < c" "PARENT c = ix"
      and least: "\<And>i. 0 < i \<Longrightarrow> i < n \<Longrightarrow> PARENT i = ix \<Longrightarrow> key m (arr h ! c) \<le> key m (arr h ! i)"
      by blast
    have ix: "ix < c" "ix < n" using c PARENT_less [of c] by auto
    note unfold = heapify_down_loop.simps [of h m "PARENT (n - 1)" ix]
    show ?thesis
    proof (cases "key m (arr h ! ix) \<le> key m (arr h ! c)")
      case stop: True
      then have "heap_ord (key m) (arr h) n"
        using down_done [OF less.prems(4)] least by (meson order_trans)
      moreover have "heapify_down_loop h m (PARENT (n - 1)) ix = Inr (h, m)"
        using True c stop ix by (subst unfold) (simp add: compare_ok [OF less.prems(1)])
      ultimately show ?thesis by (auto intro: swaps_refl)
    next
      case False
      let ?h1 = "h\<lparr>arr := swap_list (arr h) ix c\<rparr>"
      from swap_ok [OF less.prems(1) ix(2) c(2)] obtain m1 where m1:
        "heap_swap h m ix c = Inr (?h1, m1)"
        "shuffled live key rest n h m ?h1 m1" "slots_ok cmp swp live n ?h1 m1" by blast
      have key: "key m1 = key m" using m1(2) by (simp add: shuffled_def)
      have len: "n \<le> length (arr h)" using less.prems(1) by (simp add: slots_ok_def)
      have lt: "key m (arr h ! c) < key m (arr h ! ix)" using False by (simp add: not_le)
      have "down_ord (key m) (swap_list (arr h) ix c) n c"
        by (rule down_step [OF less.prems(4) c(3,2) len c(4) _ lt]) (rule least)
      then have down: "down_ord (key m1) (arr ?h1) n c" unfolding key by simp
      have closer: "n - c < n - ix" and size: "heap_size ?h1 = n" using c ix less.prems(2) by auto
      from less.hyps [OF closer m1(3) size less.prems(3) down] obtain h' m' where
        "heapify_down_loop ?h1 m1 (PARENT (n - 1)) c = Inr (h', m')" "heap_swaps n ?h1 m1 h' m'"
        "heap_ord (key m) (arr h') n" unfolding key by blast
      moreover from this m1(1) ix c have "heap_swaps n h m h' m'" by (blast intro: swaps_step)
      moreover have "heapify_down_loop h m (PARENT (n - 1)) ix =
          heapify_down_loop ?h1 m1 (PARENT (n - 1)) c"
        using True c False ix m1(1) by (subst unfold) (simp add: compare_ok [OF less.prems(1)])
      ultimately show ?thesis by auto
    qed
  qed
qed

lemma heapify_down_ok:
  assumes "slots_ok cmp swp live n h m" and "heap_size h = n" and "down_ord (key m) (arr h) n ix"
  shows "\<exists>h' m'. heapify_down h m ix = Inr (h', m') \<and> heap_swaps n h m h' m' \<and>
    heap_ord (key m) (arr h') n"
proof (cases "n < 2")
  case True
  then have "heapify_down h m ix = Inr (h, m)" using assms by (simp add: heapify_down_def)
  moreover have "heap_ord (key m) (arr h) n" using True by (simp add: heap_ord_def)
  ultimately show ?thesis by (auto intro: swaps_refl)
next
  case False
  with heapify_down_loop_ok [OF assms(1,2) _ assms(3)] assms(2) show ?thesis
    by (simp add: heapify_down_def)
qed

lemma update_swaps:
  assumes ok: "slots_ok cmp swp live n h m" and n: "heap_size h = n" "ix < n"
    and ord: "near_ord (key m) (arr h) n ix"
  shows "\<exists>h' m'. binary_heap_update h m ix = Inr (h', m') \<and> heap_swaps n h m h' m' \<and>
    heap_ord (key m) (arr h') n"
proof (cases "0 < ix \<and> \<not> key m (arr h ! PARENT ix) \<le> key m (arr h ! ix)")
  case True
  then have "up_ord (key m) (arr h) n ix" using near_up [OF ord] by (meson linear)
  from heapify_up_ok [OF ok this n(2)] True n show ?thesis
    by (simp add: binary_heap_update_def compare_ok [OF ok] PARENT_lt)
next
  case False
  then have "down_ord (key m) (arr h) n ix" using near_down [OF ord] by auto
  from heapify_down_ok [OF ok n(1) this] False n show ?thesis
    by (auto simp: binary_heap_update_def compare_ok [OF ok] PARENT_lt)
qed

end

end
