(* ===== verification/Heap_Contract.thy ===== *)
theory Heap_Contract
  imports Heap_Correct
begin

text \<open>
  The contract of the six operations of the heap, derived from the sift loops: each returns
  without undefined behaviour, keeps the heap invariant, and adds, removes or reorders exactly
  the elements it should. The second part proves, for callbacks that track positions, that every
  element in the heap knows its slot.
\<close>

section \<open>The invariant\<close>

definition elems :: "('e, 'm) binary_heap \<Rightarrow> 'e list" where
  "elems h = take (heap_size h) (arr h)"

definition heap_inv ::
  "('e, 'm) compare_func \<Rightarrow> ('e, 'm) swap_func \<Rightarrow> ('m \<Rightarrow> 'e \<Rightarrow> bool) \<Rightarrow>
     ('m \<Rightarrow> 'e \<Rightarrow> 'k::linorder) \<Rightarrow> ('e, 'm) binary_heap \<Rightarrow> 'm \<Rightarrow> bool" where
  "heap_inv cmp swp live key h m \<longleftrightarrow>
     slots_ok cmp swp live (heap_size h) h m \<and> length (arr h) = capacity h \<and>
     heap_ord (key m) (arr h) (heap_size h)"

lemma length_elems: "heap_inv cmp swp live key h m \<Longrightarrow> length (elems h) = heap_size h"
  by (simp add: heap_inv_def slots_ok_def elems_def)

lemma heap_inv_size: "heap_inv cmp swp live key h m \<Longrightarrow> heap_size h \<le> capacity h"
  by (simp add: heap_inv_def slots_ok_def)

lemma nth_elems: "i < heap_size h \<Longrightarrow> elems h ! i = arr h ! i"
  by (simp add: elems_def)

lemma heap_inv_live: "heap_inv cmp swp live key h m \<Longrightarrow> e \<in> set (elems h) \<Longrightarrow> live m e"
  by (auto simp: heap_inv_def slots_ok_def elems_def in_set_conv_nth)

lemma mset_take_swap_last:
  assumes "a < n" and "n \<le> length xs"
  shows "add_mset (xs ! a) (mset (take (n - 1) (swap_list xs a (n - 1)))) = mset (take n xs)"
proof -
  let ?ys = "swap_list xs a (n - 1)"
  have "take n ?ys = take (n - 1) ?ys @ [?ys ! (n - 1)]"
    using assms take_Suc_conv_app_nth [of "n - 1" ?ys] by simp
  moreover have "?ys ! (n - 1) = xs ! a" using assms by (simp add: nth_swap_list)
  moreover have "mset (take n ?ys) = mset (take n xs)" using assms by (simp add: mset_take_swap_list)
  ultimately show ?thesis by simp
qed

lemma slots_ok_mono: "slots_ok cmp swp live n h m \<Longrightarrow> k \<le> n \<Longrightarrow> slots_ok cmp swp live k h m"
  by (simp add: slots_ok_def)

lemma slots_ok_resize:
  "slots_ok cmp swp live n (h\<lparr>heap_size := k\<rparr>) m = slots_ok cmp swp live n h m"
  by (simp add: slots_ok_def)

section \<open>The operations\<close>

text \<open>What an operation leaves alone: the callbacks' view of the memory, and the capacity.\<close>

definition same_view ::
  "('m \<Rightarrow> 'e \<Rightarrow> bool) \<Rightarrow> ('m \<Rightarrow> 'e \<Rightarrow> 'k) \<Rightarrow> ('m \<Rightarrow> 'r) \<Rightarrow>
     ('e, 'm) binary_heap \<Rightarrow> 'm \<Rightarrow> ('e, 'm) binary_heap \<Rightarrow> 'm \<Rightarrow> bool" where
  "same_view live key rest h m h' m' \<longleftrightarrow>
     capacity h' = capacity h \<and> elem_size h' = elem_size h \<and>
     live m' = live m \<and> key m' = key m \<and> rest m' = rest m"

context heap_order
begin

lemma settled:
  assumes "slots_ok cmp swp live n h m" and "heap_size h = n" and "length (arr h) = capacity h"
    and "heap_swaps n h m h' m'" and "heap_ord (key m) (arr h') n"
  shows "heap_inv cmp swp live key h' m' \<and> heap_size h' = n \<and>
    mset (elems h') = mset (elems h) \<and> same_view live key rest h m h' m'"
proof -
  from swaps_shuffled [OF assms(4,1)]
  have sh: "shuffled live key rest n h m h' m'" and ok: "slots_ok cmp swp live n h' m'" by auto
  from sh have "key m' = key m" "mset (take n (arr h')) = mset (take n (arr h))"
    "length (arr h') = length (arr h)" "live m' = live m" "rest m' = rest m"
    by (simp_all add: shuffled_def)
  with ok shuffled_fields [OF sh] assms show ?thesis
    by (simp add: heap_inv_def elems_def same_view_def)
qed

lemma push_full: "capacity h \<le> heap_size h \<Longrightarrow> binary_heap_push h m e = Inr (-1, h, m)"
  by (simp add: binary_heap_push_def)

text \<open>The state in which \<open>binary_heap_push\<close> calls \<open>heapify_up\<close>.\<close>

lemma push_swaps:
  assumes inv: "heap_inv cmp swp live key h m" and room: "heap_size h < capacity h" and e: "live m e"
  defines "h0 \<equiv> h\<lparr>arr := (arr h)[heap_size h := e], heap_size := Suc (heap_size h)\<rparr>"
  shows "\<exists>h' m'. binary_heap_push h m e = Inr (0, h', m') \<and>
    heap_swaps (Suc (heap_size h)) h0 m h' m' \<and>
    heap_inv cmp swp live key h' m' \<and> heap_size h' = Suc (heap_size h) \<and>
    mset (elems h') = add_mset e (mset (elems h)) \<and> same_view live key rest h m h' m'"
proof -
  let ?n = "heap_size h"
  have len: "?n < length (arr h)" using inv room by (simp add: heap_inv_def)
  have ok: "slots_ok cmp swp live (Suc ?n) h0 m"
    using inv len e by (auto simp: h0_def heap_inv_def slots_ok_def nth_list_update less_Suc_eq)
  have ord: "up_ord (key m) (arr h0) (Suc ?n) ?n"
    by (rule heap_ord_append [where xs = "arr h"]) (use inv in \<open>simp_all add: heap_inv_def h0_def\<close>)
  from heapify_up_ok [OF ok ord] obtain h' m' where h':
    "heapify_up h0 m ?n = Inr (h', m')" "heap_swaps (Suc ?n) h0 m h' m'"
    "heap_ord (key m) (arr h') (Suc ?n)" by auto
  have "heap_size h0 = Suc ?n" "length (arr h0) = capacity h0"
    using inv by (simp_all add: h0_def heap_inv_def)
  from settled [OF ok this h'(2,3)] have s:
    "heap_inv cmp swp live key h' m'" "heap_size h' = Suc ?n"
    "mset (elems h') = mset (elems h0)" "same_view live key rest h0 m h' m'" by auto
  have "mset (elems h0) = add_mset e (mset (elems h))"
    using len by (simp add: h0_def elems_def take_Suc_conv_app_nth)
  moreover have "same_view live key rest h m h' m'" using s(4) by (simp add: same_view_def h0_def)
  moreover have "binary_heap_push h m e = Inr (0, h', m')"
    using h'(1) room len by (simp add: binary_heap_push_def h0_def)
  ultimately show ?thesis using h'(2) s by auto
qed

lemma top_empty: "heap_size h = 0 \<Longrightarrow> binary_heap_top h = (-1, None)"
  by (simp add: binary_heap_top_def)

lemma top_least:
  assumes "heap_inv cmp swp live key h m" and "0 < heap_size h"
  shows "binary_heap_top h = (0, Some 0)" and "arr h ! 0 \<in> set (elems h)"
    and "\<And>e. e \<in> set (elems h) \<Longrightarrow> key m (arr h ! 0) \<le> key m e"
proof -
  show "binary_heap_top h = (0, Some 0)" using assms(2) by (simp add: binary_heap_top_def)
  show "arr h ! 0 \<in> set (elems h)"
    using assms length_elems [OF assms(1)] nth_elems [of 0 h] by (metis nth_mem)
  fix e assume "e \<in> set (elems h)"
  then obtain i where "i < heap_size h" "e = arr h ! i"
    using length_elems [OF assms(1)] by (auto simp: in_set_conv_nth nth_elems)
  with heap_ord_min [of "key m" "arr h" "heap_size h" i] assms(1)
  show "key m (arr h ! 0) \<le> key m e" by (simp add: heap_inv_def)
qed

text \<open>
  Taking out slot \<open>ix\<close>: the common part of \<open>binary_heap_pop\<close> and \<open>binary_heap_remove\<close>, up to
  the call of the sift.
\<close>

lemma detach:
  assumes inv: "heap_inv cmp swp live key h m" and ix: "ix < heap_size h"
  defines "n \<equiv> heap_size h - 1"
  defines "h1 \<equiv> h\<lparr>heap_size := n, arr := swap_list (arr h) ix n\<rparr>"
  obtains m1 where "heap_swap (h\<lparr>heap_size := n\<rparr>) m ix n = Inr (h1, m1)"
    and "slots_ok cmp swp live n h1 m1" and "near_ord (key m1) (arr h1) n ix"
    and "length (arr h1) = capacity h1" and "same_view live key rest h m h1 m1"
    and "add_mset (arr h ! ix) (mset (elems h1)) = mset (elems h)"
proof -
  let ?h0 = "h\<lparr>heap_size := n\<rparr>"
  have n: "n < Suc n" "ix < Suc n" "heap_size h = Suc n" using ix by (simp_all add: n_def)
  have ok: "slots_ok cmp swp live (Suc n) ?h0 m"
    using inv n by (simp add: heap_inv_def slots_ok_resize)
  have h1: "?h0\<lparr>arr := swap_list (arr ?h0) ix n\<rparr> = h1" by (simp add: h1_def)
  from swap_ok [OF ok n(2,1), unfolded h1] obtain m1 where
    m1: "heap_swap ?h0 m ix n = Inr (h1, m1)" and sh: "shuffled live key rest (Suc n) ?h0 m h1 m1"
    and ok1: "slots_ok cmp swp live (Suc n) h1 m1" by blast
  have view: "same_view live key rest h m h1 m1"
    using sh by (simp add: shuffled_def same_view_def h1_def)
  have "heap_ord (key m) (arr h) n" using inv n(3) by (auto simp: heap_inv_def intro: heap_ord_shrink)
  then have near: "near_ord (key m1) (arr h1) n ix"
    by (rule heap_ord_near)
       (use ok view n in \<open>simp add: h1_def nth_swap_list slots_ok_def same_view_def\<close>)
  have "add_mset (arr h ! ix) (mset (elems h1)) = mset (elems h)"
    using mset_take_swap_last [of ix "Suc n" "arr h"] n ok by (simp add: elems_def h1_def slots_ok_def)
  moreover have "length (arr h1) = capacity h1" using inv by (simp add: h1_def heap_inv_def)
  ultimately show thesis
    using that [OF m1 slots_ok_mono [OF ok1] near] view by simp
qed

lemma pop_empty: "heap_size h = 0 \<Longrightarrow> binary_heap_pop h m = Inr (-1, None, h, m)"
  by (simp add: binary_heap_pop_def)

lemma pop_ok:
  assumes inv: "heap_inv cmp swp live key h m" and ne: "0 < heap_size h"
  shows "\<exists>h' m'. binary_heap_pop h m = Inr (0, Some (arr h ! 0), h', m') \<and>
    heap_inv cmp swp live key h' m' \<and> Suc (heap_size h') = heap_size h \<and>
    add_mset (arr h ! 0) (mset (elems h')) = mset (elems h) \<and> same_view live key rest h m h' m' \<and>
    (\<exists>h1 m1. heap_swap (h\<lparr>heap_size := heap_size h - 1\<rparr>) m 0 (heap_size h - 1) = Inr (h1, m1) \<and>
             heap_swaps (heap_size h - 1) h1 m1 h' m')"
proof -
  let ?n = "heap_size h - 1"
  let ?h1 = "h\<lparr>heap_size := ?n, arr := swap_list (arr h) 0 ?n\<rparr>"
  from detach [OF inv ne] obtain m1 where
    m1: "heap_swap (h\<lparr>heap_size := ?n\<rparr>) m 0 ?n = Inr (?h1, m1)"
    and ok: "slots_ok cmp swp live ?n ?h1 m1" and near: "near_ord (key m1) (arr ?h1) ?n 0"
    and len: "length (arr ?h1) = capacity ?h1" and view: "same_view live key rest h m ?h1 m1"
    and out: "add_mset (arr h ! 0) (mset (elems ?h1)) = mset (elems h)" by blast
  have size: "heap_size ?h1 = ?n" by simp
  from heapify_down_ok [OF ok size near_down [OF near]] obtain h' m' where
    h': "heapify_down ?h1 m1 0 = Inr (h', m')" and sw: "heap_swaps ?n ?h1 m1 h' m'"
    and ord: "heap_ord (key m1) (arr h') ?n" by auto
  from settled [OF ok size len sw ord] have s: "heap_inv cmp swp live key h' m'" "heap_size h' = ?n"
    "mset (elems h') = mset (elems ?h1)" "same_view live key rest ?h1 m1 h' m'" by auto
  have "0 < length (arr h)" using inv ne by (simp add: heap_inv_def slots_ok_def)
  then have "binary_heap_pop h m = Inr (0, Some (arr h ! 0), h', m')"
    using ne m1 h' by (simp add: binary_heap_pop_def)
  moreover have "add_mset (arr h ! 0) (mset (elems h')) = mset (elems h)" using s(3) out by simp
  moreover have "same_view live key rest h m h' m'" using s(4) view by (simp add: same_view_def)
  ultimately show ?thesis using s(1,2) ne m1 sw by (intro exI [of _ h'] exI [of _ m']) auto
qed

lemma update_ok:
  assumes ok: "slots_ok cmp swp live (heap_size h) h m" and len: "length (arr h) = capacity h"
    and near: "near_ord (key m) (arr h) (heap_size h) ix" and ix: "ix < heap_size h"
  shows "\<exists>h' m'. binary_heap_update h m ix = Inr (h', m') \<and> heap_swaps (heap_size h) h m h' m' \<and>
    heap_inv cmp swp live key h' m' \<and> heap_size h' = heap_size h \<and>
    mset (elems h') = mset (elems h) \<and> same_view live key rest h m h' m'"
  using update_swaps [OF ok refl ix near] settled [OF ok refl len] by blast

lemma remove_out: "heap_size h \<le> ix \<Longrightarrow> binary_heap_remove h m ix = Inr (-1, None, h, m)"
  by (simp add: binary_heap_remove_def)

text \<open>
  \<open>binary_heap_remove\<close>; the last conjunct names the state after its swap, from which the rest
  of the work is swaps below the new size.
\<close>

lemma remove_ok:
  assumes inv: "heap_inv cmp swp live key h m" and ix: "ix < heap_size h"
  shows "\<exists>h' m'. binary_heap_remove h m ix = Inr (0, Some (arr h ! ix), h', m') \<and>
    heap_inv cmp swp live key h' m' \<and> Suc (heap_size h') = heap_size h \<and>
    add_mset (arr h ! ix) (mset (elems h')) = mset (elems h) \<and> same_view live key rest h m h' m' \<and>
    (\<exists>h1 m1. (ix = heap_size h - 1 \<and> h1 = h\<lparr>heap_size := heap_size h - 1\<rparr> \<and> m1 = m \<or>
              heap_swap (h\<lparr>heap_size := heap_size h - 1\<rparr>) m ix (heap_size h - 1) = Inr (h1, m1)) \<and>
             heap_swaps (heap_size h - 1) h1 m1 h' m')"
proof (cases "ix = heap_size h - 1")
  case True
  let ?h' = "h\<lparr>heap_size := ix\<rparr>"
  have n: "heap_size h = Suc ix" using True ix by simp
  have ok: "slots_ok cmp swp live (Suc ix) h m" using inv n by (simp add: heap_inv_def)
  then have len: "ix < length (arr h)" by (simp add: slots_ok_def)
  have "binary_heap_remove h m ix = Inr (0, Some (arr h ! ix), ?h', m)"
    using n len by (simp add: binary_heap_remove_def)
  moreover have "heap_inv cmp swp live key ?h' m"
    using inv n ok by (auto simp: heap_inv_def slots_ok_resize intro: slots_ok_mono heap_ord_shrink)
  moreover have "add_mset (arr h ! ix) (mset (elems ?h')) = mset (elems h)"
    using n len by (simp add: elems_def take_Suc_conv_app_nth)
  ultimately show ?thesis using n by (auto simp: same_view_def intro: swaps_refl)
next
  case False
  let ?n = "heap_size h - 1"
  let ?h1 = "h\<lparr>heap_size := ?n, arr := swap_list (arr h) ix ?n\<rparr>"
  from detach [OF inv ix] obtain m1 where
    m1: "heap_swap (h\<lparr>heap_size := ?n\<rparr>) m ix ?n = Inr (?h1, m1)"
    and ok: "slots_ok cmp swp live ?n ?h1 m1" and near: "near_ord (key m1) (arr ?h1) ?n ix"
    and len: "length (arr ?h1) = capacity ?h1" and view: "same_view live key rest h m ?h1 m1"
    and out: "add_mset (arr h ! ix) (mset (elems ?h1)) = mset (elems h)" by blast
  have ok': "slots_ok cmp swp live (heap_size ?h1) ?h1 m1"
    and near': "near_ord (key m1) (arr ?h1) (heap_size ?h1) ix" and ix': "ix < heap_size ?h1"
    using ok near ix False by simp_all
  from update_ok [OF ok' len near' ix'] obtain h' m' where
    h': "binary_heap_update ?h1 m1 ix = Inr (h', m')" and sw: "heap_swaps ?n ?h1 m1 h' m'"
    and s: "heap_inv cmp swp live key h' m'" "heap_size h' = ?n"
      "mset (elems h') = mset (elems ?h1)" "same_view live key rest ?h1 m1 h' m'" by auto
  have "ix < length (arr h)" using inv ix by (simp add: heap_inv_def slots_ok_def)
  then have "binary_heap_remove h m ix = Inr (0, Some (arr h ! ix), h', m')"
    using ix False m1 h' by (simp add: binary_heap_remove_def Let_def)
  with s out view ix sw m1 show ?thesis by (auto simp: same_view_def)
qed

text \<open>\<open>binary_heap_validate\<close> accepts exactly the ordered heaps.\<close>

lemma validate_loop_iff:
  assumes "slots_ok cmp swp live n h m" and "heap_size h = n" and "2 \<le> n"
  shows "validate_loop h m (PARENT (n - 1)) ix =
    Inr (if \<forall>i. 0 < i \<longrightarrow> i < n \<longrightarrow> ix \<le> PARENT i \<longrightarrow> key m (arr h ! PARENT i) \<le> key m (arr h ! i)
         then 0 else -1)"
proof (induction "n - ix" arbitrary: ix rule: less_induct)
  case less
  note unfold = validate_loop.simps [of h m "PARENT (n - 1)" ix]
  show ?case
  proof (cases "ix \<le> PARENT (n - 1)")
    case False
    then have "\<not> (0 < i \<and> i < n \<and> ix \<le> PARENT i)" for i by (auto simp: PARENT_def)
    with False show ?thesis by (subst unfold) auto
  next
    case True
    from select_child_ok [OF assms True] obtain c where
      c: "select_child h m ix = Inr c" "c < n" "0 < c" "PARENT c = ix"
      and least: "\<And>i. 0 < i \<Longrightarrow> i < n \<Longrightarrow> PARENT i = ix \<Longrightarrow> key m (arr h ! c) \<le> key m (arr h ! i)"
      by blast
    have ix: "ix < n" using c PARENT_less [of c] by simp
    let ?P = "\<lambda>i. key m (arr h ! PARENT i) \<le> key m (arr h ! i)"
    have here: "(\<forall>i. 0 < i \<longrightarrow> i < n \<longrightarrow> PARENT i = ix \<longrightarrow> ?P i)
        \<longleftrightarrow> key m (arr h ! ix) \<le> key m (arr h ! c)"
      using least c(2,3) unfolding c(4) [symmetric] by (auto intro: order_trans)
    have "ix \<le> p \<longleftrightarrow> p = ix \<or> ix + 1 \<le> p" for p by auto
    then have parts: "(\<forall>i. 0 < i \<longrightarrow> i < n \<longrightarrow> ix \<le> PARENT i \<longrightarrow> ?P i)
        \<longleftrightarrow> key m (arr h ! ix) \<le> key m (arr h ! c) \<and>
          (\<forall>i. 0 < i \<longrightarrow> i < n \<longrightarrow> ix + 1 \<le> PARENT i \<longrightarrow> ?P i)"
      unfolding here [symmetric] by blast
    have "n - (ix + 1) < n - ix" using ix by simp
    note IH = less.hyps [OF this, simplified]
    show ?thesis
      using True c ix by (subst unfold) (simp add: compare_ok [OF assms(1)] IH parts)
  qed
qed

lemma validate_iff:
  assumes "slots_ok cmp swp live (heap_size h) h m"
  shows "binary_heap_validate h m = Inr (if heap_ord (key m) (arr h) (heap_size h) then 0 else -1)"
proof (cases "heap_size h < 2")
  case True
  then show ?thesis by (simp add: binary_heap_validate_def heap_ord_def)
next
  case False
  with validate_loop_iff [OF assms refl, of 0] show ?thesis
    by (simp add: binary_heap_validate_def heap_ord_def)
qed

end

end
