(* ===== verification/Heap_Index.thy ===== *)
theory Heap_Index
  imports Heap_Contract
begin

text \<open>
  Positions: both clients of the heap store in each element the index of its slot, and their
  \<open>swap\<close> callbacks exchange these indices with the elements. Then an element can be updated or
  removed through its own index, which the server does for every event.
\<close>

definition indexed :: "('m \<Rightarrow> 'e \<Rightarrow> nat) \<Rightarrow> nat \<Rightarrow> ('e, 'm) binary_heap \<Rightarrow> 'm \<Rightarrow> bool" where
  "indexed ix_of n h m \<longleftrightarrow> (\<forall>i<n. ix_of m (arr h ! i) = i)"

lemma indexed_distinct:
  "indexed ix_of n h m \<Longrightarrow> n \<le> length (arr h) \<Longrightarrow> distinct (take n (arr h))"
  unfolding indexed_def distinct_conv_nth by (metis length_take min.absorb2 nth_take)

lemma indexed_resize: "indexed ix_of n (h\<lparr>heap_size := k\<rparr>) m = indexed ix_of n h m"
  by (simp add: indexed_def)

lemma indexed_mono: "indexed ix_of n h m \<Longrightarrow> k \<le> n \<Longrightarrow> indexed ix_of k h m"
  by (simp add: indexed_def)

lemma elems_slot: "e \<in> set (elems h) \<Longrightarrow> \<exists>i<heap_size h. e = arr h ! i"
  by (auto simp: elems_def in_set_conv_nth)

lemma indexed_slot:
  "indexed ix_of (heap_size h) h m \<Longrightarrow> e \<in> set (elems h) \<Longrightarrow>
     ix_of m e < heap_size h \<and> arr h ! ix_of m e = e"
  using elems_slot [of e h] by (auto simp: indexed_def)

locale heap_indexed = heap_order cmp swp live key rest
  for cmp :: "('e, 'm) compare_func"
    and swp :: "('e, 'm) swap_func"
    and live :: "'m \<Rightarrow> 'e \<Rightarrow> bool"
    and key :: "'m \<Rightarrow> 'e \<Rightarrow> 'k::linorder"
    and rest :: "'m \<Rightarrow> 'r" +
  fixes ix_of :: "'m \<Rightarrow> 'e \<Rightarrow> nat"
  assumes swp_ix: "live m x \<Longrightarrow> live m y \<Longrightarrow> swp m x y = Inr (m', a, b) \<Longrightarrow>
    ix_of m' = (ix_of m)(x := ix_of m y, y := ix_of m x)"
begin

lemma swap_indexed:
  assumes ok: "slots_ok cmp swp live n h m" and ab: "a < n" "b < n" and ix: "indexed ix_of n h m"
    and sw: "heap_swap h m a b = Inr (h1, m1)"
  shows "indexed ix_of n h1 m1 \<and> (\<forall>z. z \<notin> set (take n (arr h)) \<longrightarrow> ix_of m1 z = ix_of m z)"
proof -
  let ?x = "arr h ! a" and ?y = "arr h ! b"
  have len: "n \<le> length (arr h)" and lv: "live m ?x" "live m ?y"
    using ok ab by (auto simp: slots_ok_def)
  from swap_ok [OF ok ab] sw have h1: "h1 = h\<lparr>arr := swap_list (arr h) a b\<rparr>" by auto
  have "\<exists>m' p q. swp m ?x ?y = Inr (m', p, q) \<and> m1 = m'"
    using sw ok by (auto simp: heap_swap_def slots_ok_def arr_get_eq_Inr)
  then have m1: "ix_of m1 = (ix_of m)(?x := b, ?y := a)"
    using swp_ix [OF lv] ix ab by (auto simp: indexed_def)
  have "ix_of m1 (arr h1 ! i) = i" if i: "i < n" for i
  proof -
    have "ix_of m (arr h ! i) = i" "ix_of m ?x = a" "ix_of m ?y = b"
      using ix i ab by (simp_all add: indexed_def)
    then show ?thesis using i ab len by (auto simp: m1 h1 nth_swap_list)
  qed
  moreover have "?x \<in> set (take n (arr h))" "?y \<in> set (take n (arr h))"
    using ab len by (auto simp: in_set_conv_nth)
  ultimately show ?thesis by (auto simp: indexed_def m1)
qed

lemma swaps_indexed:
  "heap_swaps n h m h' m' \<Longrightarrow> slots_ok cmp swp live n h m \<Longrightarrow> indexed ix_of n h m \<Longrightarrow>
     indexed ix_of n h' m' \<and> (\<forall>z. z \<notin> set (take n (arr h)) \<longrightarrow> ix_of m' z = ix_of m z)"
proof (induction rule: heap_swaps.induct)
  case (swaps_refl h m)
  then show ?case by simp
next
  case (swaps_step h m a b h1 m1 h2 m2)
  have one: "heap_swaps n h m h1 m1"
    using swaps_step.hyps(1-3) by (blast intro: heap_swaps.intros)
  from swaps_shuffled [OF one swaps_step.prems(1)]
  have ok: "slots_ok cmp swp live n h1 m1" and
    "mset (take n (arr h1)) = mset (take n (arr h))" by (simp_all add: shuffled_def)
  then have set: "set (take n (arr h1)) = set (take n (arr h))" by (metis set_mset_mset)
  from swap_indexed [OF swaps_step.prems(1) swaps_step.hyps(2,3) swaps_step.prems(2) swaps_step.hyps(1)]
  have "indexed ix_of n h1 m1" "\<forall>z. z \<notin> set (take n (arr h)) \<longrightarrow> ix_of m1 z = ix_of m z" by auto
  with swaps_step.IH [OF ok] show ?case by (simp add: set)
qed

lemma push_indexed:
  assumes inv: "heap_inv cmp swp live key h m" and room: "heap_size h < capacity h" and e: "live m e"
    and ix: "indexed ix_of (heap_size h) h m" "ix_of m e = heap_size h"
    and push: "binary_heap_push h m e = Inr (r, h', m')"
  shows "indexed ix_of (heap_size h') h' m' \<and>
    (\<forall>z. z \<noteq> e \<longrightarrow> z \<notin> set (elems h) \<longrightarrow> ix_of m' z = ix_of m z)"
proof -
  let ?n = "heap_size h"
  let ?h0 = "h\<lparr>arr := (arr h)[?n := e], heap_size := Suc ?n\<rparr>"
  from push_swaps [OF inv room e] push
  have sw: "heap_swaps (Suc ?n) ?h0 m h' m'" and size: "heap_size h' = Suc ?n" by auto
  have len: "?n < length (arr h)" using inv room by (simp add: heap_inv_def)
  have ok: "slots_ok cmp swp live (Suc ?n) ?h0 m"
    using inv len e by (auto simp: heap_inv_def slots_ok_def nth_list_update less_Suc_eq)
  have ix0: "indexed ix_of (Suc ?n) ?h0 m"
    using ix len by (auto simp: indexed_def nth_list_update less_Suc_eq)
  have "set (take (Suc ?n) (arr ?h0)) = insert e (set (elems h))"
    using len by (simp add: elems_def take_Suc_conv_app_nth)
  with swaps_indexed [OF sw ok ix0] size show ?thesis by auto
qed

lemma update_indexed:
  assumes "slots_ok cmp swp live (heap_size h) h m" and "length (arr h) = capacity h"
    and "near_ord (key m) (arr h) (heap_size h) ix" and "ix < heap_size h"
    and "indexed ix_of (heap_size h) h m" and "binary_heap_update h m ix = Inr (h', m')"
  shows "indexed ix_of (heap_size h') h' m' \<and>
    (\<forall>z. z \<notin> set (elems h) \<longrightarrow> ix_of m' z = ix_of m z)"
  using update_ok [OF assms(1-4)] swaps_indexed [OF _ assms(1,5)] assms(6)
  by (auto simp: elems_def)

text \<open>Both removals: a swap with the last slot in use, then swaps below it.\<close>

lemma detach_indexed:
  assumes inv: "heap_inv cmp swp live key h m" and i: "i < heap_size h"
    and ix: "indexed ix_of (heap_size h) h m"
  defines "n \<equiv> heap_size h - 1"
  defines "h0 \<equiv> h\<lparr>heap_size := n\<rparr>"
  assumes first: "i = n \<and> h1 = h0 \<and> m1 = m \<or> heap_swap h0 m i n = Inr (h1, m1)"
    and sw: "heap_swaps n h1 m1 h' m'" and size: "heap_size h' = n"
  shows "indexed ix_of (heap_size h') h' m' \<and>
    (\<forall>z. z \<notin> set (elems h) \<longrightarrow> ix_of m' z = ix_of m z)"
proof -
  have n: "n < heap_size h" using i by (simp add: n_def)
  have ok0: "slots_ok cmp swp live (heap_size h) h0 m" "indexed ix_of (heap_size h) h0 m"
    using inv ix by (simp_all add: heap_inv_def slots_ok_resize indexed_resize h0_def)
  have one: "heap_swaps (heap_size h) h0 m h1 m1"
    using first i n by (auto intro: heap_swaps.intros)
  have arr0: "arr h0 = arr h" by (simp add: h0_def)
  from swaps_shuffled [OF one ok0(1)] swaps_indexed [OF one ok0]
  have ok1: "slots_ok cmp swp live (heap_size h) h1 m1" and
    ix1: "indexed ix_of (heap_size h) h1 m1" and
    same1: "\<forall>z. z \<notin> set (elems h) \<longrightarrow> ix_of m1 z = ix_of m z" and
    mset: "mset (take (heap_size h) (arr h1)) = mset (elems h)"
    by (simp_all add: shuffled_def elems_def arr0)
  have "set (take n (arr h1)) \<subseteq> set (take (heap_size h) (arr h1))"
    using n by (simp add: set_take_subset_set_take)
  then have sub: "set (take n (arr h1)) \<subseteq> set (elems h)" using mset by (metis set_mset_mset)
  from swaps_indexed [OF sw slots_ok_mono [OF ok1] indexed_mono [OF ix1]] size sub same1 n
  show ?thesis by auto
qed

lemma remove_indexed:
  assumes inv: "heap_inv cmp swp live key h m" and i: "i < heap_size h"
    and ix: "indexed ix_of (heap_size h) h m"
    and rem: "binary_heap_remove h m i = Inr (r, e, h', m')"
  shows "indexed ix_of (heap_size h') h' m' \<and>
    (\<forall>z. z \<notin> set (elems h) \<longrightarrow> ix_of m' z = ix_of m z)"
proof -
  from remove_ok [OF inv i] rem obtain h1 m1 where size: "heap_size h' = heap_size h - 1"
    and first: "i = heap_size h - 1 \<and> h1 = h\<lparr>heap_size := heap_size h - 1\<rparr> \<and> m1 = m \<or>
      heap_swap (h\<lparr>heap_size := heap_size h - 1\<rparr>) m i (heap_size h - 1) = Inr (h1, m1)"
    and sw: "heap_swaps (heap_size h - 1) h1 m1 h' m'" by force
  show ?thesis by (rule detach_indexed [OF inv i ix first sw size])
qed

lemma pop_indexed:
  assumes inv: "heap_inv cmp swp live key h m" and ne: "0 < heap_size h"
    and ix: "indexed ix_of (heap_size h) h m"
    and pop: "binary_heap_pop h m = Inr (r, e, h', m')"
  shows "indexed ix_of (heap_size h') h' m' \<and>
    (\<forall>z. z \<notin> set (elems h) \<longrightarrow> ix_of m' z = ix_of m z)"
proof -
  from pop_ok [OF inv ne] pop obtain h1 m1 where size: "heap_size h' = heap_size h - 1"
    and first: "heap_swap (h\<lparr>heap_size := heap_size h - 1\<rparr>) m 0 (heap_size h - 1) = Inr (h1, m1)"
    and sw: "heap_swaps (heap_size h - 1) h1 m1 h' m'" by force
  show ?thesis by (rule detach_indexed [OF inv ne ix disjI2 [OF first] sw size])
qed

end

end
