(* ===== verification/Sockets.thy ===== *)
theory Sockets
  imports Prelude
begin

text \<open>
  Connected TCP sockets, as far as the sources use them: \<open>recv\<close> and \<open>send\<close> with flags 0. What
  the peer and the network do is a script: \<open>rx\<close> says what the successive \<open>recv\<close> calls find (the
  bytes that have arrived by then, in whatever segmentation the network chose, or an error such
  as \<open>EAGAIN\<close> or a reset); when it is used up the peer has closed its side and \<open>recv\<close> returns 0.
  \<open>tx\<close> says how many bytes the successive \<open>send\<close> calls accept; when it is used up they accept
  everything. \<open>sent\<close> collects the bytes accepted. A theorem that holds for every socket holds
  for every such behaviour of the network.
\<close>

datatype recv_event = Chunk string | Recv_error

datatype send_event = Accepts nat | Send_error

record sock =
  rx :: "recv_event list"
  tx :: "send_event list"
  sent :: string

fun recv_script :: "recv_event list \<Rightarrow> nat \<Rightarrow> int \<times> string \<times> recv_event list" where
  "recv_script [] n = (0, [], [])"
| "recv_script (Recv_error # es) n = (-1, [], es)"
| "recv_script (Chunk d # es) n =
     (int (length (take n d)), take n d, if n < length d then Chunk (drop n d) # es else es)"

text \<open>The return value of \<open>recv\<close>, the bytes it stored, and the socket after it.\<close>

definition sock_recv :: "sock \<Rightarrow> nat \<Rightarrow> int \<times> string \<times> sock" where
  "sock_recv s n = (case recv_script (rx s) n of (r, d, es) \<Rightarrow> (r, d, s\<lparr>rx := es\<rparr>))"

definition sock_send :: "sock \<Rightarrow> string \<Rightarrow> int \<times> sock" where
  "sock_send s d =
     (case tx s of
        [] \<Rightarrow> (int (length d), s\<lparr>sent := sent s @ d\<rparr>)
      | Send_error # es \<Rightarrow> (-1, s\<lparr>tx := es\<rparr>)
      | Accepts k # es \<Rightarrow>
          (int (length (take k d)), s\<lparr>tx := es, sent := sent s @ take k d\<rparr>))"

text \<open>\<open>accept\<close> and \<open>accept4\<close>: the descriptor of the new connection and its peer's script.\<close>

datatype accept_result = Accept_error | Accepted int sock

text \<open>The open sockets of a process. A call on a descriptor that is not open fails.\<close>

type_synonym fds = "int \<Rightarrow> sock option"

definition sock_at :: "fds \<Rightarrow> int \<Rightarrow> sock" where
  "sock_at ss fd = (case ss fd of Some s \<Rightarrow> s | None \<Rightarrow> \<lparr>rx = [Recv_error], tx = [Send_error], sent = []\<rparr>)"

definition put_at :: "fds \<Rightarrow> int \<Rightarrow> sock \<Rightarrow> fds" where
  "put_at ss fd s = ss(fd := map_option (\<lambda>_. s) (ss fd))"

text \<open>The bytes a reader can still obtain before the next error or the end of the stream.\<close>

fun stream :: "recv_event list \<Rightarrow> string" where
  "stream [] = []"
| "stream (Recv_error # es) = []"
| "stream (Chunk d # es) = (if d = [] then [] else d @ stream es)"

text \<open>A measure that every \<open>recv\<close> with a positive result decreases.\<close>

fun rx_weight :: "recv_event list \<Rightarrow> nat" where
  "rx_weight [] = 0"
| "rx_weight (Recv_error # es) = Suc (rx_weight es)"
| "rx_weight (Chunk d # es) = Suc (length d) + rx_weight es"

lemma sock_recv_frame:
  "sock_recv s n = (r, d, s') \<Longrightarrow> tx s' = tx s \<and> sent s' = sent s"
  by (auto simp: sock_recv_def split: prod.splits)

lemma recv_script_result:
  "recv_script es n = (r, d, es') \<Longrightarrow>
     length d \<le> n \<and> (r < 0 \<longrightarrow> r = -1 \<and> d = []) \<and> (0 \<le> r \<longrightarrow> r = int (length d))"
  by (cases "(es, n)" rule: recv_script.cases) auto

lemma sock_recv_result:
  "sock_recv s n = (r, d, s') \<Longrightarrow>
     length d \<le> n \<and> (r < 0 \<longrightarrow> r = -1 \<and> d = []) \<and> (0 \<le> r \<longrightarrow> r = int (length d))"
  by (auto simp: sock_recv_def dest: recv_script_result split: prod.splits)

lemma recv_script_stream:
  "recv_script es n = (r, d, es') \<Longrightarrow> 0 < r \<Longrightarrow> stream es = d @ stream es'"
  by (cases "(es, n)" rule: recv_script.cases) (auto split: if_splits)

lemma sock_recv_stream:
  "sock_recv s n = (r, d, s') \<Longrightarrow> 0 < r \<Longrightarrow> stream (rx s) = d @ stream (rx s')"
  by (auto simp: sock_recv_def dest: recv_script_stream split: prod.splits)

lemma recv_script_end:
  "recv_script es n = (r, d, es') \<Longrightarrow> r \<le> 0 \<Longrightarrow> 0 < n \<Longrightarrow> stream es = []"
  by (cases "(es, n)" rule: recv_script.cases) (auto split: if_splits)

lemma sock_recv_end:
  "sock_recv s n = (r, d, s') \<Longrightarrow> r \<le> 0 \<Longrightarrow> 0 < n \<Longrightarrow> stream (rx s) = []"
  by (auto simp: sock_recv_def dest: recv_script_end split: prod.splits)

lemma sock_recv_weight:
  "sock_recv s n = (r, d, s') \<Longrightarrow> 0 < r \<Longrightarrow> rx_weight (rx s') < rx_weight (rx s)"
  by (cases "(rx s, n)" rule: recv_script.cases) (auto simp: sock_recv_def split: if_splits)

lemma sock_send_frame:
  "sock_send s d = (r, s') \<Longrightarrow> rx s' = rx s"
  by (auto simp: sock_send_def split: list.splits send_event.splits)

lemma sock_send_result:
  "sock_send s d = (r, s') \<Longrightarrow>
     (r < 0 \<longrightarrow> r = -1 \<and> sent s' = sent s) \<and>
     (0 \<le> r \<longrightarrow> nat r \<le> length d \<and> sent s' = sent s @ take (nat r) d)"
  by (auto simp: sock_send_def min_def split: list.splits send_event.splits)

lemma sock_send_progress:
  "sock_send s d = (r, s') \<Longrightarrow> length (tx s') < length (tx s) \<or> tx s = [] \<and> tx s' = [] \<and> r = int (length d)"
  by (auto simp: sock_send_def split: list.splits send_event.splits)

end
