(* ===== verification/Generic.thy ===== *)
theory Generic
  imports Sockets "HOL-Library.Sublist"
begin

text \<open>
  \<open>unix_socket_api/generic\<close>: the constants and data of the protocol, the zodiac table, blocking
  I/O over whole messages (\<open>send_all\<close>, \<open>recv_line\<close>) and the buffered reader of the server.
\<close>

section \<open>Constants\<close>

named_theorems c_consts \<open>the protocol's constants\<close>

definition DELIMITER :: char where [c_consts]: "DELIMITER = CHR 0x0A"
definition NUL :: char where [c_consts]: "NUL = CHR 0x00"
definition ASTROLOG_BUF_LEN :: nat where [c_consts]: "ASTROLOG_BUF_LEN = 80"
definition STAR_REQUEST_TYPE :: string where [c_consts]: "STAR_REQUEST_TYPE = ''STARS SAY ''"
definition CLIENT_REQUEST_TYPE :: string where [c_consts]: "CLIENT_REQUEST_TYPE = ''HOROSCOPE ''"
definition STAR_REPLY_SUCCESS :: string where
  [c_consts]: "STAR_REPLY_SUCCESS = ''THANKS!'' @ [DELIMITER]"
definition STAR_REPLY_FAILURE :: string where
  [c_consts]: "STAR_REPLY_FAILURE = ''DENIED!'' @ [DELIMITER]"
definition CLIENT_REPLY_FAILURE :: string where
  [c_consts]: "CLIENT_REPLY_FAILURE = ''YOU ARE OUT OF LUCK!'' @ [DELIMITER]"
definition SEC_NS_FACTOR :: int where [c_consts]: "SEC_NS_FACTOR = 1000000000"
definition SEC_US_FACTOR :: int where [c_consts]: "SEC_US_FACTOR = 1000000"
definition ZODIAC_NUM :: nat where [c_consts]: "ZODIAC_NUM = 3"
definition ZODIAC_UNKOWN :: nat where [c_consts]: "ZODIAC_UNKOWN = 2 ^ 64 - 1"

definition zodiac_names :: "string list" where
  "zodiac_names = [''Aries'', ''Taurus'', ''Gemini'']"

text \<open>The read of a \<open>%s\<close> argument of \<open>LOG\<close>: there must be a terminating byte in the array.\<close>

definition log_str :: "string \<Rightarrow> nat \<Rightarrow> unit c_result" where
  "log_str xs off = (if NUL \<in> set (drop off xs) then Inr () else Inl Undefined)"

record timespec =
  tv_sec :: int
  tv_nsec :: int

definition ACCUM_TIME_NS :: "timespec \<Rightarrow> int" where
  "ACCUM_TIME_NS ts = tv_sec ts * SEC_NS_FACTOR + tv_nsec ts"

section \<open>The zodiac table\<close>

text \<open>\<open>zodiac\<close> is the memory from the pointer on; each \<open>memcmp\<close> reads the length of a name.\<close>

fun find_zodiac_loop :: "string list \<Rightarrow> nat \<Rightarrow> string \<Rightarrow> nat \<Rightarrow> int c_result" where
  "find_zodiac_loop [] i zodiac n = Inr (-1)"
| "find_zodiac_loop (zodiac_name # names) i zodiac n =
     (let len = length zodiac_name in
      if n \<ge> len then
        bindc (mem_read zodiac 0 len) (\<lambda>bytes.
          if bytes = zodiac_name then Inr (int i) else find_zodiac_loop names (i + 1) zodiac n)
      else find_zodiac_loop names (i + 1) zodiac n)"

definition find_zodiac :: "string \<Rightarrow> nat \<Rightarrow> int c_result" where
  "find_zodiac zodiac n = find_zodiac_loop zodiac_names 0 zodiac n"

definition get_zodiac :: "nat \<Rightarrow> string option" where
  "get_zodiac ix = (if ix < ZODIAC_NUM then Some (zodiac_names ! ix) else None)"

section \<open>Child processes\<close>

text \<open>
  \<open>kill pid\<close> is \<open>None\<close> when \<open>kill (pid, SIGTERM)\<close> succeeds, otherwise the \<open>errno\<close>. The result
  lists the processes signalled and those for which \<open>perror\<close> reports.
\<close>

definition ESRCH :: int where "ESRCH = 3"

fun kill_children_procs :: "(int \<Rightarrow> int option) \<Rightarrow> int list \<Rightarrow> nat \<Rightarrow> (int list \<times> int list) c_result" where
  "kill_children_procs kill children 0 = Inr ([], [])"
| "kill_children_procs kill [] (Suc n) = Inl Undefined"
| "kill_children_procs kill (pid # children) (Suc n) =
     bindc (kill_children_procs kill children n) (\<lambda>(signalled, reported).
       Inr (pid # signalled,
            case kill pid of
              Some e \<Rightarrow> if e \<noteq> ESRCH then pid # reported else reported
            | None \<Rightarrow> reported))"

section \<open>Whole messages\<close>

function send_all_loop :: "sock \<Rightarrow> string \<Rightarrow> nat \<Rightarrow> nat \<Rightarrow> (int \<times> sock) c_result" where
  "send_all_loop s buf pos n =
     (if pos < n then
        bindc (mem_read buf pos (n - pos)) (\<lambda>d.
          case sock_send s d of (bytes, s') \<Rightarrow>
            if bytes < 0 then Inr (-1, s') else send_all_loop s' buf (pos + nat bytes) n)
      else Inr (0, s))"
  by pat_completeness auto

termination
proof (relation "measures [\<lambda>(s, buf, pos, n). length (tx s), \<lambda>(s, buf, pos, n). n - pos]",
    goal_cases)
  case 1
  show ?case by simp
next
  case (2 s buf pos n d bytes s')
  then have send: "sock_send s d = (bytes, s')" and d: "length d = n - pos"
    by (auto simp: mem_read_eq_Inr)
  from sock_send_progress [OF send] 2(1) d show ?case by auto
qed

declare send_all_loop.simps [simp del]

definition send_all :: "sock \<Rightarrow> string \<Rightarrow> nat \<Rightarrow> (int \<times> sock) c_result" where
  "send_all s buf n = send_all_loop s buf 0 n"

text \<open>
  \<open>recv_line\<close> fills \<open>buf\<close> from its start and returns the length of the line, 0 at the end of the
  stream and -1 otherwise; the new contents of \<open>buf\<close> are returned too. \<open>memchr\<close> gives an offset
  into \<open>buf\<close>.
\<close>

function recv_line_loop :: "sock \<Rightarrow> string \<Rightarrow> nat \<Rightarrow> nat \<Rightarrow> (int \<times> string \<times> sock) c_result" where
  "recv_line_loop s buf pos n =
     (case sock_recv s (n - pos) of (bytes, d, s') \<Rightarrow>
      if bytes < 0 then Inr (-1, buf, s')
      else if bytes = 0 then Inr (0, buf, s')
      else
        bindc (memcpy buf pos d) (\<lambda>buf'.
        bindc (memchr buf' pos DELIMITER (nat bytes)) (\<lambda>del_ptr.
          case del_ptr of
            Some del \<Rightarrow>
              if del \<noteq> pos + nat bytes - 1 then Inr (-1, buf', s')
              else Inr (int (pos + nat bytes), buf', s')
          | None \<Rightarrow>
              if pos + nat bytes = n then Inr (-1, buf', s')
              else recv_line_loop s' buf' (pos + nat bytes) n)))"
  by pat_completeness auto
termination
  by (relation "measure (\<lambda>(s, buf, pos, n). rx_weight (rx s))")
     (auto dest!: sym [of "(_, _)" "sock_recv _ _"] sock_recv_weight)

declare recv_line_loop.simps [simp del]

definition recv_line :: "sock \<Rightarrow> string \<Rightarrow> nat \<Rightarrow> (int \<times> string \<times> sock) c_result" where
  "recv_line s buf n = recv_line_loop s buf 0 n"

section \<open>The buffered reader\<close>

record buffer =
  buf_fd :: int
  buf_data :: string
  buf_pos :: nat
  buf_len :: nat

text \<open>
  The head of both reading functions: an exhausted buffer is refilled from the socket of its
  descriptor. \<open>Some r\<close> is the early \<open>return received\<close>.
\<close>

definition buffer_refill :: "sock \<Rightarrow> buffer \<Rightarrow> (int option \<times> buffer \<times> sock) c_result" where
  "buffer_refill s b =
     (if buf_pos b = buf_len b then
        (let b0 = b\<lparr>buf_pos := 0, buf_len := 0\<rparr> in
         case sock_recv s ASTROLOG_BUF_LEN of (received, d, s') \<Rightarrow>
           bindc (memcpy (buf_data b0) 0 d) (\<lambda>data'.
             let b1 = b0\<lparr>buf_data := data'\<rparr> in
             if received \<le> 0 then Inr (Some received, b1, s')
             else Inr (None, b1\<lparr>buf_len := nat received\<rparr>, s')))
      else Inr (None, b, s))"

text \<open>\<open>dst\<close> and \<open>off\<close>: the array and the offset the destination pointer designates.\<close>

definition buffered_recv ::
  "sock \<Rightarrow> buffer \<Rightarrow> string \<Rightarrow> nat \<Rightarrow> nat \<Rightarrow> (int \<times> buffer \<times> sock \<times> string) c_result" where
  "buffered_recv s b dst off n =
     bindc (buffer_refill s b) (\<lambda>(early, b', s').
       case early of
         Some received \<Rightarrow> Inr (received, b', s', dst)
       | None \<Rightarrow>
           let avail = buf_len b' - buf_pos b';
               size = (if n < avail then n else avail) in
           bindc (mem_read (buf_data b') (buf_pos b') size) (\<lambda>src.
           bindc (memcpy dst off src) (\<lambda>dst'.
           Inr (int size, b'\<lparr>buf_pos := buf_pos b' + size\<rparr>, s', dst'))))"

definition buffered_recv_until_delim ::
  "sock \<Rightarrow> buffer \<Rightarrow> string \<Rightarrow> nat \<Rightarrow> nat \<Rightarrow> char \<Rightarrow>
     (int \<times> buffer \<times> sock \<times> string) c_result" where
  "buffered_recv_until_delim s b dst off n delim =
     bindc (buffer_refill s b) (\<lambda>(early, b', s').
       case early of
         Some received \<Rightarrow> Inr (received, b', s', dst)
       | None \<Rightarrow>
           let avail = buf_len b' - buf_pos b';
               limit = (if n < avail then n else avail) in
           bindc (memchr (buf_data b') (buf_pos b') delim limit) (\<lambda>del_ptr.
           let size = (case del_ptr of
                         Some del \<Rightarrow> if del + 1 - buf_pos b' < limit then del + 1 - buf_pos b' else limit
                       | None \<Rightarrow> limit) in
           bindc (mem_read (buf_data b') (buf_pos b') size) (\<lambda>src.
           bindc (memcpy dst off src) (\<lambda>dst'.
           Inr (int size, b'\<lparr>buf_pos := buf_pos b' + size\<rparr>, s', dst')))))"

end
