(* ===== verification/Generic_Correct.thy ===== *)
theory Generic_Correct
  imports Generic
begin

text \<open>
  What the functions of \<open>generic.c\<close> promise: the zodiac lookup is prefix matching on a
  prefix-free table, \<open>send_all\<close> delivers everything or reports failure, \<open>recv_line\<close> returns
  exactly one line however the network segments it, and the buffered reader delivers every byte
  of the stream once, in order, never past a delimiter.
\<close>

section \<open>The zodiac table\<close>

lemma find_zodiac_step:
  assumes "n \<le> length z"
  shows "find_zodiac_loop (name # names) i z n =
    (if prefix name (take n z) then Inr (int i) else find_zodiac_loop names (i + 1) z n)"
proof (cases "length name \<le> n")
  case True
  then have "prefix name (take n z) \<longleftrightarrow> take (length name) z = name"
    by (simp add: prefix_def) (metis append_eq_conv_conj append_take_drop_id min.absorb1 take_take)
  with True assms show ?thesis by (simp add: Let_def subarray_from_0)
next
  case False
  then have "\<not> prefix name (take n z)" using prefix_length_le by fastforce
  with False show ?thesis by (simp add: Let_def)
qed

lemma find_zodiac_cases:
  "n \<le> length z \<Longrightarrow> find_zodiac z n =
     Inr (if prefix ''Aries'' (take n z) then 0
          else if prefix ''Taurus'' (take n z) then 1
          else if prefix ''Gemini'' (take n z) then 2 else -1)"
  by (simp only: find_zodiac_def zodiac_names_def find_zodiac_step) simp

lemma zodiac_prefix_free:
  assumes "i < ZODIAC_NUM" and "j < ZODIAC_NUM"
    and "prefix (zodiac_names ! i) s" and "prefix (zodiac_names ! j) s"
  shows "i = j"
proof -
  have "prefix (zodiac_names ! i) (zodiac_names ! j) \<or> prefix (zodiac_names ! j) (zodiac_names ! i)"
    using prefix_same_cases [OF assms(3,4)] .
  moreover have "i = 0 \<or> i = 1 \<or> i = 2" "j = 0 \<or> j = 1 \<or> j = 2"
    using assms(1,2) by (auto simp: ZODIAC_NUM_def)
  ultimately show ?thesis by (auto simp: zodiac_names_def)
qed

lemma less_ZODIAC_NUM: "i < ZODIAC_NUM \<longleftrightarrow> i = 0 \<or> i = 1 \<or> i = 2"
  by (auto simp: ZODIAC_NUM_def)

text \<open>
  \<open>find_zodiac\<close> never reads past the \<open>n\<close> bytes it is given; it returns the index of a zodiac
  exactly when that name is a prefix of them, and -1 exactly when no name is.
\<close>
lemma find_zodiac_spec:
  assumes "n \<le> length z"
  shows "(\<exists>r. find_zodiac z n = Inr r) \<and>
    (\<forall>i. find_zodiac z n = Inr (int i) \<longleftrightarrow> i < ZODIAC_NUM \<and> prefix (zodiac_names ! i) (take n z)) \<and>
    (find_zodiac z n = Inr (-1) \<longleftrightarrow> (\<forall>i<ZODIAC_NUM. \<not> prefix (zodiac_names ! i) (take n z)))"
proof (intro conjI allI)
  let ?t = "take n z"
  note eq = find_zodiac_cases [OF assms]
  have zn: "zodiac_names ! 0 = ''Aries''" "zodiac_names ! Suc 0 = ''Taurus''"
    "zodiac_names ! 2 = ''Gemini''"
    by (simp_all add: zodiac_names_def)
  show "\<exists>r. find_zodiac z n = Inr r" using eq by simp
  show "find_zodiac z n = Inr (-1) \<longleftrightarrow> (\<forall>i<ZODIAC_NUM. \<not> prefix (zodiac_names ! i) ?t)"
    using zn by (auto simp: eq less_ZODIAC_NUM)
  fix i
  have ex: "j = k" if "j < ZODIAC_NUM" "k < ZODIAC_NUM" "prefix (zodiac_names ! j) ?t"
      "prefix (zodiac_names ! k) ?t" for j k
    using zodiac_prefix_free that by blast
  show "find_zodiac z n = Inr (int i) \<longleftrightarrow> i < ZODIAC_NUM \<and> prefix (zodiac_names ! i) ?t"
    using ex [of 0 1] ex [of 0 2] ex [of 1 2]
    by (cases "i = 0") (auto simp: eq less_ZODIAC_NUM zn)
qed

section \<open>Whole messages\<close>

lemma send_all_loop_spec:
  assumes "pos \<le> n" and "n \<le> length buf"
  shows "\<exists>r s' k. send_all_loop s buf pos n = Inr (r, s') \<and> rx s' = rx s \<and> pos \<le> k \<and> k \<le> n \<and>
    sent s' = sent s @ subarray buf pos (k - pos) \<and> (r = 0 \<and> k = n \<or> r = -1 \<and> k < n)"
  using assms
proof (induction s buf pos n rule: send_all_loop.induct)
  case (1 s buf pos n)
  note unfold = send_all_loop.simps [of s buf pos n]
  show ?case
  proof (cases "pos < n")
    case False
    then have "send_all_loop s buf pos n = Inr (0, s)" by (simp add: unfold)
    with False "1.prems" show ?thesis
      by (intro exI [of _ "0::int"] exI [of _ s] exI [of _ n]) simp
  next
    case True
    let ?d = "subarray buf pos (n - pos)"
    have read: "mem_read buf pos (n - pos) = Inr ?d" using "1.prems" by simp
    obtain bytes s1 where send: "sock_send s ?d = (bytes, s1)" by fastforce
    show ?thesis
    proof (cases "bytes < 0")
      case neg: True
      have "send_all_loop s buf pos n = Inr (-1, s1)" using True read send neg by (simp add: unfold)
      with sock_send_result [OF send] sock_send_frame [OF send] neg True show ?thesis by auto
    next
      case False
      let ?p = "pos + nat bytes"
      from sock_send_result [OF send] False have
        b: "nat bytes \<le> n - pos" "sent s1 = sent s @ take (nat bytes) ?d"
        using "1.prems" by auto
      have p: "?p \<le> n" using b(1) True by simp
      from "1.IH" [OF True read send [symmetric] False p "1.prems"(2)] obtain r s' k where
        k: "send_all_loop s1 buf ?p n = Inr (r, s')" "rx s' = rx s1" "?p \<le> k" "k \<le> n"
          "sent s' = sent s1 @ subarray buf ?p (k - ?p)" "r = 0 \<and> k = n \<or> r = -1 \<and> k < n" by auto
      have "take (nat bytes) ?d @ subarray buf ?p (k - ?p) = subarray buf pos (k - pos)"
        using k(3,4) b(1) take_add [of "nat bytes" "k - ?p" "drop pos buf"]
        by (simp add: subarray_def add.commute min_def)
      moreover have "send_all_loop s buf pos n = Inr (r, s')"
        using True read send False k(1) by (simp add: unfold)
      ultimately show ?thesis using k b sock_send_frame [OF send]
        by (intro exI [of _ r] exI [of _ s'] exI [of _ k]) auto
    qed
  qed
qed

text \<open>
  C40. \<open>send_all\<close> terminates on every socket without leaving the buffer; on success exactly the
  \<open>n\<close> bytes of the buffer have been accepted, in order, and on failure a proper prefix of them.
\<close>
theorem send_all_spec:
  assumes "n \<le> length buf"
  shows "\<exists>r s' k. send_all s buf n = Inr (r, s') \<and> rx s' = rx s \<and> sent s' = sent s @ take k buf \<and>
    (r = 0 \<and> k = n \<or> r = -1 \<and> k < n)"
  using send_all_loop_spec [of 0 n buf s] assms
  by (auto simp: send_all_def subarray_from_0)

theorem send_all_spec_witness:
  "(3::nat) \<le> length ''abc'' \<and>
   (\<exists>r s' k. send_all \<lparr>rx = [], tx = [Accepts 1, Send_error], sent = []\<rparr> ''abc'' 3 = Inr (r, s') \<and>
      rx s' = [] \<and> sent s' = [] @ take k ''abc'' \<and> (r = 0 \<and> k = 3 \<or> r = -1 \<and> k < 3))"
  using send_all_spec [of 3 "''abc''" "\<lparr>rx = [], tx = [Accepts 1, Send_error], sent = []\<rparr>"] by simp

section \<open>Lines\<close>

text \<open>A line: some bytes that are not the delimiter, then the delimiter.\<close>

definition is_line :: "string \<Rightarrow> bool" where
  "is_line l \<longleftrightarrow> l \<noteq> [] \<and> last l = DELIMITER \<and> DELIMITER \<notin> set (butlast l)"

lemma is_line_alt: "is_line l \<longleftrightarrow> (\<exists>w. l = w @ [DELIMITER] \<and> DELIMITER \<notin> set w)"
  by (auto simp: is_line_def) (metis append_butlast_last_id)

lemma blit_append:
  "i + length xs + length ys \<le> length buf \<Longrightarrow>
     blit (blit buf i xs) (i + length xs) ys = blit buf i (xs @ ys)"
  by (simp add: blit_def ac_simps)

text \<open>
  The loop of \<open>recv_line\<close> with \<open>pos\<close> bytes, none of them a delimiter, already in place: whatever
  it returns, it does not leave the buffer, and a positive result is the length of one whole line
  that is the next line of the stream.
\<close>

lemma recv_line_loop_sound:
  assumes "length got = pos" and "pos < n" and "n \<le> length buf" and "DELIMITER \<notin> set got"
    and "buf = blit buf0 0 got"
  shows "\<exists>r buf' s'. recv_line_loop s buf pos n = Inr (r, buf', s') \<and>
    tx s' = tx s \<and> sent s' = sent s \<and> length buf' = length buf \<and> -1 \<le> r \<and>
    (0 < r \<longrightarrow> (\<exists>l. is_line l \<and> length l = nat r \<and> nat r \<le> n \<and> buf' = blit buf0 0 l \<and>
        got @ stream (rx s) = l @ stream (rx s')))"
  using assms
proof (induction s buf pos n arbitrary: got rule: recv_line_loop.induct)
  case (1 s buf pos n)
  note unfold = recv_line_loop.simps [of s buf pos n]
  obtain bytes d s1 where recv: "sock_recv s (n - pos) = (bytes, d, s1)" by (metis prod_cases3)
  note frame = sock_recv_frame [OF recv]
  show ?case
  proof (cases "bytes \<le> 0")
    case True
    with sock_recv_result [OF recv]
    have "recv_line_loop s buf pos n = Inr (if bytes < 0 then -1 else 0, buf, s1)"
      by (auto simp: unfold recv)
    with frame show ?thesis by auto
  next
    case False
    let ?b = "nat bytes"
    from sock_recv_result [OF recv] False have d: "length d = ?b" "?b \<le> n - pos" "0 < ?b" by auto
    let ?buf1 = "blit buf pos d"
    have room: "pos + length d \<le> length buf" using d "1.prems" by simp
    have cpy: "memcpy buf pos d = Inr ?buf1" using room by simp
    have "subarray ?buf1 pos ?b = d" using room d by (simp add: subarray_def blit_def)
    then have chr: "memchr ?buf1 pos DELIMITER ?b = Inr (find_from d DELIMITER pos)"
      using room d by simp
    have buf1: "?buf1 = blit buf0 0 (got @ d)"
    proof -
      have "length buf0 = length buf" "length got + length d \<le> length buf0"
        using "1.prems" room by (simp_all add: blit_def)
      then show ?thesis using blit_append [of 0 got d buf0] "1.prems"(1,5) by simp
    qed
    have len1: "length (blit buf0 0 (got @ d)) = length buf" using room by (simp add: buf1 [symmetric])
    have st: "stream (rx s) = d @ stream (rx s1)" using sock_recv_stream [OF recv] False by simp
    note step = unfold [unfolded recv prod.case cpy bindc_simps chr]
    show ?thesis
    proof (cases "find_from d DELIMITER pos")
      case None
      then have nd: "DELIMITER \<notin> set (got @ d)" using "1.prems"(4) by (simp add: find_from_None)
      show ?thesis
      proof (cases "pos + ?b = n")
        case True
        with step None False frame room show ?thesis by auto
      next
        case more: False
        have "pos + ?b < n" "n \<le> length ?buf1" "length (got @ d) = pos + ?b"
          using more d "1.prems" room by auto
        moreover have "recv_line_loop s buf pos n = recv_line_loop s1 ?buf1 (pos + ?b) n"
          using step None False more by simp
        ultimately show ?thesis
          using "1.IH" [OF recv [symmetric] refl _ _ cpy chr [unfolded None], of "got @ d"]
            False more nd buf1 frame st len1 by auto
      qed
    next
      case (Some del)
      from find_from_SomeD [OF Some] have del: "pos \<le> del" "del < pos + length d"
        "d ! (del - pos) = DELIMITER" "DELIMITER \<notin> set (take (del - pos) d)" by auto
      show ?thesis
      proof (cases "del = pos + ?b - 1")
        case False
        with step Some \<open>\<not> bytes \<le> 0\<close> frame room show ?thesis by auto
      next
        case True
        then have "d = take (del - pos) d @ [DELIMITER]"
          using del d take_Suc_conv_app_nth [of "del - pos" d] by auto
        then have "is_line (got @ d)"
          using del(4) "1.prems"(4) unfolding is_line_alt by (metis Un_iff append.assoc set_append)
        moreover have "recv_line_loop s buf pos n = Inr (int (pos + ?b), ?buf1, s1)"
          using step Some True False by simp
        ultimately show ?thesis
          using False frame len1 d st "1.prems"(1) buf1 by (auto simp: nat_add_distrib)
      qed
    qed
  qed
qed

text \<open>
  C38. \<open>recv_line\<close> with a non-empty buffer terminates without leaving it, and a positive result
  means: the buffer starts with one whole line (its only delimiter is its last byte) of that
  length, at most \<open>n\<close>, which is exactly what was taken from the peer's byte stream.
\<close>
theorem recv_line_sound:
  assumes "0 < n" and "n \<le> length buf"
  shows "\<exists>r buf' s'. recv_line s buf n = Inr (r, buf', s') \<and>
    tx s' = tx s \<and> sent s' = sent s \<and> length buf' = length buf \<and> -1 \<le> r \<and>
    (0 < r \<longrightarrow> (\<exists>l. is_line l \<and> length l = nat r \<and> nat r \<le> n \<and> buf' = blit buf 0 l \<and>
        stream (rx s) = l @ stream (rx s')))"
  using recv_line_loop_sound [of "[]" 0 n buf buf s] assms
  by (simp add: recv_line_def blit_def)

theorem recv_line_sound_witness:
  "0 < (4::nat) \<and> (4::nat) \<le> length ''....'' \<and>
   (\<exists>r buf' s'. recv_line \<lparr>rx = [Chunk ''ab'', Chunk (''c'' @ [DELIMITER])], tx = [], sent = []\<rparr> ''....'' 4 =
      Inr (r, buf', s'))"
  using recv_line_sound [of 4 "''....''" "\<lparr>rx = [Chunk ''ab'', Chunk (''c'' @ [DELIMITER])], tx = [], sent = []\<rparr>"]
  by auto

text \<open>
  The other direction: a line that fits the buffer is delivered however the network cuts it into
  segments, as long as the next line does not arrive together with its end.
\<close>

lemma recv_line_loop_complete:
  assumes "rx s = map Chunk ds @ es" and "[] \<notin> set ds" and "is_line (got @ concat ds)"
    and "length got = pos" and "DELIMITER \<notin> set got" and "length (got @ concat ds) \<le> n"
    and "n \<le> length buf" and "buf = blit buf0 0 got"
  shows "recv_line_loop s buf pos n =
    Inr (int (length (got @ concat ds)), blit buf0 0 (got @ concat ds), s\<lparr>rx := es\<rparr>)"
  using assms
proof (induction ds arbitrary: s buf pos got)
  case Nil
  then have "DELIMITER \<in> set got" using last_in_set [of got] by (simp add: is_line_def)
  with Nil.prems(5) show ?case by simp
next
  case (Cons d ds)
  have d: "0 < length d" "length got + length d \<le> n" using Cons.prems(2,6) by auto
  let ?s1 = "s\<lparr>rx := map Chunk ds @ es\<rparr>"
  have fit: "\<not> n - pos < length d" "length d \<le> n - pos" using d Cons.prems(4) by auto
  have recv: "sock_recv s (n - pos) = (int (length d), d, ?s1)"
    using Cons.prems(1) fit by (simp add: sock_recv_def)
  have room: "pos + length d \<le> length buf" using d Cons.prems(4,7) by simp
  have buf1: "blit buf pos d = blit buf0 0 (got @ d)"
  proof -
    have "length buf = pos + (length buf0 - pos)"
      using Cons.prems(4) by (simp add: Cons.prems(8) blit_def)
    with room d(1) have "0 + length got + length d \<le> length buf0"
      unfolding Cons.prems(4) by linarith
    from blit_append [OF this] show ?thesis
      unfolding Cons.prems(8) Cons.prems(4) [symmetric] by simp
  qed
  have "subarray (blit buf pos d) pos (length d) = d" using room by (simp add: subarray_def blit_def)
  then have chr: "memchr (blit buf pos d) pos DELIMITER (length d) = Inr (find_from d DELIMITER pos)"
    using room by simp
  have unfold: "recv_line_loop s buf pos n =
      (case find_from d DELIMITER pos of
         Some del \<Rightarrow> if del \<noteq> pos + length d - 1 then Inr (-1, blit buf pos d, ?s1)
                     else Inr (int (pos + length d), blit buf pos d, ?s1)
       | None \<Rightarrow> if pos + length d = n then Inr (-1, blit buf pos d, ?s1)
                 else recv_line_loop ?s1 (blit buf pos d) (pos + length d) n)"
    using d(1) room chr by (subst recv_line_loop.simps) (simp add: recv split: option.split)
  show ?case
  proof (cases "concat ds = []")
    case True
    then have "ds = []" using Cons.prems(2) by (cases ds) auto
    with Cons.prems(3) d have line: "is_line (got @ d)" by simp
    then obtain w where w: "got @ d = w @ [DELIMITER]" "DELIMITER \<notin> set w"
      by (auto simp: is_line_alt)
    define v where "v = butlast d"
    have dv: "d = v @ [DELIMITER]" using w(1) d(1) unfolding v_def
      by (metis append_butlast_last_id last_appendR last_snoc length_greater_0_conv)
    have "set v \<subseteq> set w" using w(1) dv by (metis append_assoc append_same_eq set_append sup_ge2)
    then have "DELIMITER \<notin> set v" using w(2) by auto
    then have "find_from d DELIMITER pos = Some (pos + length v)" by (simp add: dv find_from_line)
    moreover have "pos + length v = pos + length d - 1" by (simp add: dv)
    ultimately show ?thesis using True Cons.prems(4) \<open>ds = []\<close> by (simp add: unfold buf1)
  next
    case False
    have "DELIMITER \<notin> set d"
      using Cons.prems(3) False by (auto simp: is_line_def butlast_append split: if_splits)
    then have nd: "DELIMITER \<notin> set (got @ d)" "find_from d DELIMITER pos = None"
      using Cons.prems(5) by (simp_all add: find_from_None)
    have more: "pos + length d \<noteq> n" using Cons.prems(4,6) False by auto
    have len1: "n \<le> length (blit buf pos d)" using room Cons.prems(7) by simp
    have "recv_line_loop ?s1 (blit buf pos d) (pos + length d) n =
      Inr (int (length ((got @ d) @ concat ds)), blit buf0 0 ((got @ d) @ concat ds),
           ?s1\<lparr>rx := es\<rparr>)"
      by (rule Cons.IH) (use Cons.prems(2-4,6) nd buf1 len1 in simp_all)
    then show ?thesis using nd more by (simp add: unfold)
  qed
qed

text \<open>
  C39. A line of at most \<open>n\<close> bytes that arrives in any number of non-empty segments is returned
  whole by \<open>recv_line\<close>, and what the peer does next is left unread.
\<close>
theorem recv_line_complete:
  assumes "is_line l" and "length l \<le> n" and "n \<le> length buf"
    and "concat ds = l" and "[] \<notin> set ds" and "rx s = map Chunk ds @ es"
  shows "recv_line s buf n = Inr (int (length l), blit buf 0 l, s\<lparr>rx := es\<rparr>)"
  using recv_line_loop_complete [of s ds es "[]" 0 n buf buf] assms
  by (simp add: recv_line_def blit_def)

theorem recv_line_complete_witness:
  "recv_line \<lparr>rx = map Chunk [''HORO'', ''SCOPE '', [DELIMITER]] @ [Recv_error], tx = [], sent = []\<rparr>
     (replicate 81 NUL) 80 =
   Inr (11, blit (replicate 81 NUL) 0 (CLIENT_REQUEST_TYPE @ [DELIMITER]),
        \<lparr>rx = [Recv_error], tx = [], sent = []\<rparr>)"
proof -
  let ?s = "\<lparr>rx = map Chunk [''HORO'', ''SCOPE '', [DELIMITER]] @ [Recv_error], tx = [], sent = []\<rparr>"
  have "is_line (CLIENT_REQUEST_TYPE @ [DELIMITER])"
    by (simp add: is_line_def CLIENT_REQUEST_TYPE_def DELIMITER_def)
  from recv_line_complete [OF this, of 80 "replicate 81 NUL" "[''HORO'', ''SCOPE '', [DELIMITER]]" ?s
    "[Recv_error]"] show ?thesis by (simp add: CLIENT_REQUEST_TYPE_def)
qed

end
