(* ===== verification/Buffered_Reader.thy ===== *)
theory Buffered_Reader
  imports Generic_Correct
begin

text \<open>
  The buffered reader of \<open>generic.c\<close> against the byte stream it reads: with the bytes still
  pending in the buffer put in front of the socket's stream, every call takes a prefix off this
  input and copies it to its destination. Nothing is lost, duplicated or reordered, and the
  delimiter variant never takes a byte beyond the first delimiter.
\<close>

section \<open>The invariant of a buffer\<close>

definition buffer_ok :: "buffer \<Rightarrow> bool" where
  "buffer_ok b \<longleftrightarrow> length (buf_data b) = ASTROLOG_BUF_LEN + 1 \<and>
     buf_pos b \<le> buf_len b \<and> buf_len b \<le> ASTROLOG_BUF_LEN"

definition pending :: "buffer \<Rightarrow> string" where
  "pending b = subarray (buf_data b) (buf_pos b) (buf_len b - buf_pos b)"

text \<open>All the bytes a reader of the buffer can still obtain.\<close>

definition input :: "buffer \<Rightarrow> sock \<Rightarrow> string" where
  "input b s = pending b @ stream (rx s)"

lemma length_pending [simp]: "buffer_ok b \<Longrightarrow> length (pending b) = buf_len b - buf_pos b"
  by (simp add: buffer_ok_def pending_def)

lemma pending_empty: "buffer_ok b \<Longrightarrow> pending b = [] \<longleftrightarrow> buf_pos b = buf_len b"
  by (metis buffer_ok_def diff_is_0_eq le_antisym length_0_conv length_pending order_refl)

lemma pending_take:
  assumes "buffer_ok b" and "k \<le> buf_len b - buf_pos b"
  shows "subarray (buf_data b) (buf_pos b) k = take k (pending b)"
    and "buffer_ok (b\<lparr>buf_pos := buf_pos b + k\<rparr>)"
    and "pending (b\<lparr>buf_pos := buf_pos b + k\<rparr>) = drop k (pending b)"
proof -
  show "subarray (buf_data b) (buf_pos b) k = take k (pending b)"
    using assms by (simp add: pending_def subarray_def min_def)
  show "buffer_ok (b\<lparr>buf_pos := buf_pos b + k\<rparr>)"
    using assms by (auto simp: buffer_ok_def)
  show "pending (b\<lparr>buf_pos := buf_pos b + k\<rparr>) = drop k (pending b)"
    using assms by (simp add: pending_def subarray_def drop_take add.commute)
qed

section \<open>Refilling\<close>

text \<open>What a refill leaves: either the early return on an empty input, or pending bytes.\<close>

lemma buffer_refill_spec:
  assumes "buffer_ok b"
  shows "\<exists>early b' s'. buffer_refill s b = Inr (early, b', s') \<and> buffer_ok b' \<and>
    buf_fd b' = buf_fd b \<and> tx s' = tx s \<and> sent s' = sent s \<and>
    (case early of
       Some r \<Rightarrow> (r = 0 \<or> r = -1) \<and> buf_pos b' = buf_len b' \<and> buf_pos b = buf_len b \<and>
         stream (rx s) = []
     | None \<Rightarrow> buf_pos b' < buf_len b' \<and> input b' s' = input b s \<and>
         (buf_pos b < buf_len b \<longrightarrow> b' = b \<and> s' = s))"
proof (cases "buf_pos b = buf_len b")
  case False
  with assms have "buf_pos b < buf_len b" by (simp add: buffer_ok_def)
  with assms False show ?thesis by (simp add: buffer_refill_def)
next
  case True
  obtain received d s1 where recv: "sock_recv s ASTROLOG_BUF_LEN = (received, d, s1)"
    by (metis prod_cases3)
  note frame = sock_recv_frame [OF recv] and res = sock_recv_result [OF recv]
  have fits: "0 + length d \<le> length (buf_data b)" using assms res by (simp add: buffer_ok_def)
  let ?b1 = "b\<lparr>buf_pos := 0, buf_len := 0, buf_data := blit (buf_data b) 0 d\<rparr>"
  show ?thesis
  proof (cases "received \<le> 0")
    case stop: True
    have "buffer_refill s b = Inr (Some received, ?b1, s1)"
      using True stop fits by (simp add: buffer_refill_def recv)
    moreover have "stream (rx s) = []"
      using sock_recv_end [OF recv stop] by (simp add: ASTROLOG_BUF_LEN_def)
    moreover have "received = 0 \<or> received = -1" using stop res by auto
    ultimately show ?thesis
      using assms True frame fits by (auto simp: buffer_ok_def)
  next
    case False
    let ?b2 = "?b1\<lparr>buf_len := nat received\<rparr>"
    have eq: "buffer_refill s b = Inr (None, ?b2, s1)"
      using True False fits by (simp add: buffer_refill_def recv)
    have len: "length d = nat received" "nat received \<le> ASTROLOG_BUF_LEN" "0 < nat received"
      using res False by auto
    have "pending ?b2 = d" by (simp add: pending_def subarray_from_0 flip: len(1))
    moreover have "pending b = []" using True by (simp add: pending_def)
    ultimately have "input ?b2 s1 = input b s"
      using sock_recv_stream [OF recv] False by (simp add: input_def)
    moreover have "buffer_ok ?b2" using assms len fits by (simp add: buffer_ok_def)
    ultimately show ?thesis using eq len frame True by simp
  qed
qed

section \<open>The two readers\<close>

text \<open>How much a reader takes: up to \<open>limit\<close>, and not beyond the first \<open>c\<close>.\<close>

definition upto_delim :: "char \<Rightarrow> string \<Rightarrow> string" where
  "upto_delim c xs =
     (case find_from xs c 0 of None \<Rightarrow> xs | Some i \<Rightarrow> take (Suc i) xs)"

lemma find_from_shift: "find_from xs c (i + j) = map_option (\<lambda>k. k + i) (find_from xs c j)"
  by (induction xs arbitrary: j) (auto simp flip: add_Suc_right)

lemma upto_delim_cases:
  "upto_delim c xs = xs \<and> c \<notin> set xs \<or>
   (\<exists>ys zs. xs = ys @ c # zs \<and> c \<notin> set ys \<and> upto_delim c xs = ys @ [c])"
proof (cases "c \<in> set xs")
  case False
  then show ?thesis using find_from_None [of xs c 0] by (simp add: upto_delim_def)
next
  case True
  then obtain ys zs where xs: "xs = ys @ c # zs" "c \<notin> set ys" by (metis split_list_first)
  then have "upto_delim c xs = ys @ [c]" by (simp add: upto_delim_def find_from_line)
  with xs show ?thesis by blast
qed

lemma upto_delim_line: "c \<notin> set ys \<Longrightarrow> upto_delim c (ys @ c # zs) = ys @ [c]"
  by (simp add: upto_delim_def find_from_line)

lemma upto_delim_idem: "upto_delim c (upto_delim c xs) = upto_delim c xs"
  using upto_delim_cases [of c xs] by (auto simp: upto_delim_line)

lemma length_upto_delim: "length (upto_delim c xs) \<le> length xs"
  using upto_delim_cases [of c xs] by auto

lemma upto_delim_Nil: "upto_delim c xs = [] \<longleftrightarrow> xs = []"
  using upto_delim_cases [of c xs] by auto

lemma upto_delim_take: "take (length (upto_delim c xs)) xs = upto_delim c xs"
  using upto_delim_cases [of c xs] by auto

lemma upto_delim_butlast: "c \<notin> set (butlast (upto_delim c xs))"
  using upto_delim_cases [of c xs] by (auto dest: in_set_butlastD simp: butlast_append)

lemma upto_delim_last:
  "c \<in> set (upto_delim c xs) \<Longrightarrow> last (upto_delim c xs) = c"
  using upto_delim_cases [of c xs] by auto

text \<open>
  The delimiter variant, from a buffer with room for \<open>n > 0\<close> bytes at the destination. The call
  takes \<open>k\<close> bytes; the buffer's own bytes are exhausted unless the delimiter or the limit stopped
  it.
\<close>

lemma buffered_recv_until_delim_eq:
  assumes ok: "buffer_ok b" and n: "0 < n" "off + n \<le> length dst"
  shows "\<exists>r b' s' dst'. buffered_recv_until_delim s b dst off n c = Inr (r, b', s', dst') \<and>
    buffer_ok b' \<and> buf_fd b' = buf_fd b \<and> tx s' = tx s \<and> sent s' = sent s \<and>
    (r \<le> 0 \<longrightarrow> (r = 0 \<or> r = -1) \<and> dst' = dst \<and> input b s = [] \<and> buf_pos b' = buf_len b') \<and>
    (0 < r \<longrightarrow> nat r \<le> n \<and> take (nat r) (input b s) = upto_delim c (take (nat r) (input b s)) \<and>
       dst' = blit dst off (take (nat r) (input b s)) \<and> nat r \<le> length (input b s) \<and>
       input b' s' = drop (nat r) (input b s) \<and>
       (buf_pos b' = buf_len b' \<or> nat r = n \<or> last (take (nat r) (input b s)) = c) \<and>
       (buf_pos b < buf_len b \<longrightarrow> s' = s \<and> buf_len b' = buf_len b \<and> buf_pos b' = buf_pos b + nat r))"
proof -
  from buffer_refill_spec [OF ok, of s] obtain early b1 s1 where
    fill: "buffer_refill s b = Inr (early, b1, s1)" and ok1: "buffer_ok b1"
    and fr: "buf_fd b1 = buf_fd b" "tx s1 = tx s" "sent s1 = sent s"
    and cases: "case early of
       Some r \<Rightarrow> (r = 0 \<or> r = -1) \<and> buf_pos b1 = buf_len b1 \<and> buf_pos b = buf_len b \<and>
         stream (rx s) = []
     | None \<Rightarrow> buf_pos b1 < buf_len b1 \<and> input b1 s1 = input b s \<and>
         (buf_pos b < buf_len b \<longrightarrow> b1 = b \<and> s1 = s)" by blast
  show ?thesis
  proof (cases early)
    case (Some r)
    with cases have r: "r = 0 \<or> r = -1" "buf_pos b1 = buf_len b1" "stream (rx s) = []"
      "pending b = []" using pending_empty [OF ok] by auto
    have "buffered_recv_until_delim s b dst off n c = Inr (r, b1, s1, dst)"
      using Some fill by (simp add: buffered_recv_until_delim_def)
    with r ok1 fr show ?thesis by (auto simp: input_def)
  next
    case None
    with cases have ne: "buf_pos b1 < buf_len b1" and inp: "input b1 s1 = input b s"
      and same: "buf_pos b < buf_len b \<longrightarrow> b1 = b \<and> s1 = s" by auto
    let ?avail = "buf_len b1 - buf_pos b1"
    let ?limit = "if n < ?avail then n else ?avail"
    let ?win = "take ?limit (pending b1)"
    let ?t = "upto_delim c ?win"
    let ?k = "length ?t"
    have win: "subarray (buf_data b1) (buf_pos b1) ?limit = ?win" "length ?win = ?limit"
      using pending_take(1) [OF ok1, of ?limit] ok1 by auto
    have range: "buf_pos b1 + ?limit \<le> length (buf_data b1)" using ok1 by (auto simp: buffer_ok_def)
    have size: "(case find_from ?win c (buf_pos b1) of
        Some del \<Rightarrow> if del + 1 - buf_pos b1 < ?limit then del + 1 - buf_pos b1 else ?limit
      | None \<Rightarrow> ?limit) = ?k"
    proof (cases "find_from ?win c 0")
      case None
      then show ?thesis using find_from_shift [of ?win c "buf_pos b1" 0] win(2)
        by (simp add: upto_delim_def)
    next
      case (Some i)
      with find_from_SomeD [OF this] find_from_shift [of ?win c "buf_pos b1" 0] win(2)
      show ?thesis by (auto simp: upto_delim_def)
    qed
    have k: "?k \<le> ?limit" "0 < ?k"
      using length_upto_delim [of c ?win] win(2) ne n upto_delim_Nil [of c ?win] by (auto split: if_splits)
    have kav: "?k \<le> ?avail" using k(1) by (auto split: if_splits)
    have t: "take ?k (pending b1) = ?t"
      using upto_delim_take [of c ?win] k(1) by (simp add: min_def split: if_splits)
    note taken = pending_take [OF ok1 kav]
    let ?b2 = "b1\<lparr>buf_pos := buf_pos b1 + ?k\<rparr>"
    have eq: "buffered_recv_until_delim s b dst off n c = Inr (int ?k, ?b2, s1, blit dst off ?t)"
    proof -
      have "mem_read (buf_data b1) (buf_pos b1) ?k = Inr ?t"
        using range k(1) taken(1) t by simp
      moreover have "memcpy dst off ?t = Inr (blit dst off ?t)"
        using k(1) n by (simp split: if_splits)
      ultimately show ?thesis
        using range by (simp add: buffered_recv_until_delim_def fill None Let_def win(1) size
            del: mem_read_in)
    qed
    have kin: "take ?k (input b s) = ?t" "?k \<le> length (input b s)"
      unfolding inp [symmetric] using t kav ok1 by (simp_all add: input_def)
    have idem: "upto_delim c ?t = ?t" by (rule upto_delim_idem)
    have stop: "buf_pos ?b2 = buf_len ?b2 \<or> ?k = n \<or> last ?t = c"
      using upto_delim_cases [of c ?win] win(2) ne by (auto split: if_splits)
    have rest: "input ?b2 s1 = drop ?k (input b s)"
      unfolding inp [symmetric] using taken(3) kav ok1 by (simp add: input_def)
    have "?k \<le> n" using k(1) by (simp split: if_splits)
    with eq kin idem stop rest taken(2) fr k(2) same show ?thesis by auto
  qed
qed

end
