(* ===== verification/Server_State.thy ===== *)
theory Server_State
  imports Heap_Index Buffered_Reader
begin

text \<open>
  The server's connections (\<open>astrolog.c\<close>): the state of one connection, the memory that holds
  these states, the two callbacks that make the heap of their addresses a priority queue on the
  deadlines, and the operations that create, refresh and remove a connection.
\<close>

section \<open>Connection states in memory\<close>

datatype server_state_type =
  STATE_RECV_FIRST_LINE | STATE_RECV_H | STATE_SEND_THANKS | STATE_SEND_H | STATE_ERROR | STATE_SUCCESS

datatype fd_operation = OP_READ | OP_WRITE

text \<open>\<open>s_cur_pos\<close> is the offset of the pointer \<open>cur_pos\<close> in the array \<open>buf\<close>.\<close>

record server_state =
  s_interm_buf :: buffer
  s_buf :: string
  s_cur_pos :: nat
  s_rem :: int
  s_zodiac_ix :: nat
  s_state :: server_state_type
  s_op :: fd_operation
  s_ts :: timespec
  s_heap_ix :: nat

type_synonym memory = "addr \<Rightarrow> server_state option"

definition deref :: "memory \<Rightarrow> addr \<Rightarrow> server_state c_result" where
  "deref m a = (case m a of None \<Rightarrow> Inl Undefined | Some s \<Rightarrow> Inr s)"

lemma deref_Some [simp]: "m a = Some s \<Longrightarrow> deref m a = Inr s"
  by (simp add: deref_def)

lemma deref_eq_Inr: "deref m a = Inr s \<longleftrightarrow> m a = Some s"
  by (auto simp: deref_def split: option.splits)

section \<open>The callbacks of the heap\<close>

definition less_ts :: "timespec \<Rightarrow> timespec \<Rightarrow> bool" where
  "less_ts a b \<longleftrightarrow> ACCUM_TIME_NS a \<ge> ACCUM_TIME_NS b"

definition compare_server_state :: "memory \<Rightarrow> addr \<Rightarrow> addr \<Rightarrow> bool c_result" where
  "compare_server_state m lhs rhs =
     bindc (deref m lhs) (\<lambda>a. bindc (deref m rhs) (\<lambda>b. Inr (less_ts (s_ts a) (s_ts b))))"

text \<open>\<open>elem_a\<close> and \<open>elem_b\<close> are the contents of the two slots before the call.\<close>

definition swap_server_state :: "memory \<Rightarrow> addr \<Rightarrow> addr \<Rightarrow> (memory \<times> addr \<times> addr) c_result" where
  "swap_server_state m elem_a elem_b =
     (let tmp = elem_a; new_a = elem_b; new_b = tmp in
      bindc (deref m new_a) (\<lambda>sa.
      let tmp_heap_ix = s_heap_ix sa in
      bindc (deref m new_b) (\<lambda>sb.
      let m1 = m(new_a \<mapsto> sa\<lparr>s_heap_ix := s_heap_ix sb\<rparr>) in
      bindc (deref m1 new_b) (\<lambda>sb1.
      Inr (m1(new_b \<mapsto> sb1\<lparr>s_heap_ix := tmp_heap_ix\<rparr>), new_a, new_b)))))"

definition is_live :: "memory \<Rightarrow> addr \<Rightarrow> bool" where
  "is_live m a \<longleftrightarrow> m a \<noteq> None"

definition deadline :: "memory \<Rightarrow> addr \<Rightarrow> int" where
  "deadline m a = ACCUM_TIME_NS (s_ts (the (m a)))"

definition slot_of :: "memory \<Rightarrow> addr \<Rightarrow> nat" where
  "slot_of m a = s_heap_ix (the (m a))"

text \<open>The memory up to the positions: what the heap must leave alone.\<close>

definition but_slots :: "memory \<Rightarrow> memory" where
  "but_slots m = (\<lambda>a. map_option (\<lambda>s. s\<lparr>s_heap_ix := 0\<rparr>) (m a))"

lemma swap_server_state_eq:
  assumes "m x = Some sx" and "m y = Some sy"
  shows "swap_server_state m x y =
    Inr (m(y \<mapsto> sy\<lparr>s_heap_ix := s_heap_ix sx\<rparr>, x \<mapsto> sx\<lparr>s_heap_ix := s_heap_ix sy\<rparr>), y, x)"
  using assms by (cases "x = y") (simp_all add: swap_server_state_def deref_def)

interpretation server_heap:
  heap_indexed compare_server_state swap_server_state is_live deadline but_slots slot_of
proof (unfold_locales, goal_cases)
  case (1 m x y)
  then show ?case
    by (auto simp: is_live_def compare_server_state_def less_ts_def deadline_def)
next
  case (2 m x y)
  then obtain sx sy where "m x = Some sx" "m y = Some sy" by (auto simp: is_live_def)
  then show ?case
    by (simp add: swap_server_state_eq)
       (auto simp: is_live_def deadline_def but_slots_def fun_eq_iff)
next
  case (3 m x y m' a b)
  then obtain sx sy where s: "m x = Some sx" "m y = Some sy" by (auto simp: is_live_def)
  with 3(3) have "m' = m(y \<mapsto> sy\<lparr>s_heap_ix := s_heap_ix sx\<rparr>, x \<mapsto> sx\<lparr>s_heap_ix := s_heap_ix sy\<rparr>)"
    by (auto simp: swap_server_state_eq)
  with s show ?case by (auto simp: slot_of_def fun_eq_iff)
qed

section \<open>The server process and the operating system\<close>

datatype epoll_events = EPOLLIN | EPOLLOUT | EPOLLNONE

datatype epoll_op = EPOLL_CTL_ADD | EPOLL_CTL_MOD | EPOLL_CTL_DEL

text \<open>
  The process: its memory, the heap, the global table of prognoses, and what the kernel keeps
  for it, the open sockets and the interest list of the \<open>epoll\<close> instance (with the pointer
  registered for each descriptor, \<open>None\<close> for \<open>NULL\<close>). \<open>tick\<close> counts the system calls made.
\<close>

record server =
  mem :: memory
  heap :: "(addr, memory) binary_heap"
  zodiac_prognosises :: "string list"
  socks :: fds
  interest :: "int \<Rightarrow> (epoll_events \<times> addr option) option"
  tick :: nat

text \<open>
  The answers of the operating system to the call number \<open>tick\<close>: the clock (\<open>None\<close> for an
  error), \<open>malloc\<close> (an address and the indeterminate contents of the block, or \<open>None\<close>) and
  whether \<open>epoll_ctl\<close> succeeds where its arguments allow it.
\<close>

record os =
  clock :: "nat \<Rightarrow> timespec option"
  malloc :: "nat \<Rightarrow> memory \<Rightarrow> (addr \<times> server_state) option"
  epoll_ctl_ok :: "nat \<Rightarrow> bool"

text \<open>
  \<open>epoll_ctl\<close> and \<open>close\<close> as documented: adding needs a descriptor that is not in the interest
  list, the other operations one that is; closing a descriptor removes it from the list.
\<close>

definition epoll_ctl ::
  "os \<Rightarrow> server \<Rightarrow> epoll_op \<Rightarrow> int \<Rightarrow> epoll_events \<Rightarrow> addr option \<Rightarrow> bool \<times> server" where
  "epoll_ctl os w eop fd events ptr =
     (let w' = w\<lparr>tick := Suc (tick w)\<rparr>;
          allowed = (case eop of EPOLL_CTL_ADD \<Rightarrow> interest w fd = None
                               | _ \<Rightarrow> interest w fd \<noteq> None) in
      if epoll_ctl_ok os (tick w) \<and> allowed then
        (True, w'\<lparr>interest := (interest w)(fd :=
                   (case eop of EPOLL_CTL_DEL \<Rightarrow> None | _ \<Rightarrow> Some (events, ptr)))\<rparr>)
      else (False, w'))"

definition configure_epoll ::
  "os \<Rightarrow> server \<Rightarrow> epoll_op \<Rightarrow> int \<Rightarrow> epoll_events \<Rightarrow> addr option \<Rightarrow> int \<times> server" where
  "configure_epoll os w eop fd events ptr =
     (case epoll_ctl os w eop fd events ptr of (ok, w') \<Rightarrow> (if ok then 0 else -1, w'))"

definition close_fd :: "server \<Rightarrow> int \<Rightarrow> server" where
  "close_fd w fd = w\<lparr>socks := (socks w)(fd := None), interest := (interest w)(fd := None)\<rparr>"

section \<open>Deadlines\<close>

definition RECV_TIMEOUT_SEC :: int where "RECV_TIMEOUT_SEC = 5 * 60"
definition RECV_TIMEOUT_NSEC :: int where "RECV_TIMEOUT_NSEC = 0"
definition SEND_TIMEOUT_SEC :: int where "SEND_TIMEOUT_SEC = 3 * 60"
definition SEND_TIMEOUT_NSEC :: int where "SEND_TIMEOUT_NSEC = 0"

definition get_cur_time :: "os \<Rightarrow> server \<Rightarrow> (timespec \<times> server) c_result" where
  "get_cur_time os w =
     (case clock os (tick w) of
        None \<Rightarrow> Inl Exit_failure
      | Some t \<Rightarrow> Inr (t, w\<lparr>tick := Suc (tick w)\<rparr>))"

definition get_cur_time_ns :: "os \<Rightarrow> server \<Rightarrow> (int \<times> server) c_result" where
  "get_cur_time_ns os w = bindc (get_cur_time os w) (\<lambda>(t, w'). Inr (ACCUM_TIME_NS t, w'))"

definition update_ts :: "os \<Rightarrow> server \<Rightarrow> fd_operation \<Rightarrow> (timespec \<times> server) c_result" where
  "update_ts os w opn =
     bindc (get_cur_time os w) (\<lambda>(t, w').
       Inr (if opn = OP_READ
            then t\<lparr>tv_sec := tv_sec t + RECV_TIMEOUT_SEC, tv_nsec := tv_nsec t + RECV_TIMEOUT_NSEC\<rparr>
            else t\<lparr>tv_sec := tv_sec t + SEND_TIMEOUT_SEC, tv_nsec := tv_nsec t + SEND_TIMEOUT_NSEC\<rparr>, w'))"

section \<open>Creating, refreshing and removing a connection\<close>

definition put_state :: "server \<Rightarrow> addr \<Rightarrow> server_state \<Rightarrow> server" where
  "put_state w a s = w\<lparr>mem := (mem w)(a \<mapsto> s)\<rparr>"

definition destroy_server_state :: "server \<Rightarrow> addr \<Rightarrow> server c_result" where
  "destroy_server_state w a =
     (if mem w a = None then Inl Undefined else Inr (w\<lparr>mem := (mem w)(a := None)\<rparr>))"

text \<open>The assignments of \<open>create_server_state\<close> to the fields of the new block \<open>s0\<close>.\<close>

definition init_server_state :: "server_state \<Rightarrow> int \<Rightarrow> nat \<Rightarrow> server_state c_result" where
  "init_server_state s0 fd n =
     bindc (arr_set (buf_data (s_interm_buf s0)) ASTROLOG_BUF_LEN NUL) (\<lambda>data'.
     bindc (arr_set (s_buf s0) ASTROLOG_BUF_LEN NUL) (\<lambda>buf'.
     Inr (s0\<lparr>s_interm_buf := \<lparr>buf_fd = fd, buf_data = data', buf_pos = 0, buf_len = 0\<rparr>,
             s_buf := buf', s_cur_pos := 0, s_rem := int ASTROLOG_BUF_LEN,
             s_zodiac_ix := ZODIAC_UNKOWN, s_state := STATE_RECV_FIRST_LINE, s_op := OP_READ,
             s_heap_ix := n\<rparr>)))"

text \<open>\<open>binary_heap_remove (heap, s->heap_ix, &s)\<close> and \<open>destroy_server_state (s)\<close> on a failed path.\<close>

definition remove_and_destroy :: "server \<Rightarrow> addr \<Rightarrow> server c_result" where
  "remove_and_destroy w a =
     bindc (deref (mem w) a) (\<lambda>s.
     bindc (binary_heap_remove (heap w) (mem w) (s_heap_ix s)) (\<lambda>(r, removed, h', m').
     destroy_server_state (w\<lparr>heap := h', mem := m'\<rparr>)
       (case removed of Some e \<Rightarrow> e | None \<Rightarrow> a)))"

definition create_server_state :: "os \<Rightarrow> server \<Rightarrow> int \<Rightarrow> (int \<times> server) c_result" where
  "create_server_state os w fd =
     (case malloc os (tick w) (mem w) of
        None \<Rightarrow> Inr (-1, w\<lparr>tick := Suc (tick w)\<rparr>)
      | Some (a, s0) \<Rightarrow>
          bindc (init_server_state s0 fd (heap_size (heap w))) (\<lambda>s.
          bindc (update_ts os (w\<lparr>tick := Suc (tick w)\<rparr>) (s_op s)) (\<lambda>(ts', w1).
          let w2 = put_state w1 a (s\<lparr>s_ts := ts'\<rparr>) in
          bindc (binary_heap_push (heap w2) (mem w2) a) (\<lambda>(r, h', m').
          let w3 = w2\<lparr>heap := h', mem := m'\<rparr> in
          if r \<noteq> 0 then
            bindc (destroy_server_state w3 a) (\<lambda>w4. Inr (-1, w4))
          else
            (case configure_epoll os w3 EPOLL_CTL_ADD fd EPOLLIN (Some a) of (re, w4) \<Rightarrow>
               if re \<noteq> 0 then bindc (remove_and_destroy w4 a) (\<lambda>w5. Inr (-1, w5))
               else Inr (0, w4))))))"

definition update_server_state_ts :: "os \<Rightarrow> server \<Rightarrow> addr \<Rightarrow> server c_result" where
  "update_server_state_ts os w a =
     bindc (deref (mem w) a) (\<lambda>s.
     bindc (update_ts os w (s_op s)) (\<lambda>(ts', w1).
     let w2 = put_state w1 a (s\<lparr>s_ts := ts'\<rparr>) in
     bindc (binary_heap_update (heap w2) (mem w2) (s_heap_ix s)) (\<lambda>(h', m').
     Inr (w2\<lparr>heap := h', mem := m'\<rparr>))))"

definition remove_server_state :: "os \<Rightarrow> server \<Rightarrow> addr \<Rightarrow> server c_result" where
  "remove_server_state os w a =
     bindc (deref (mem w) a) (\<lambda>s.
     let fd = buf_fd (s_interm_buf s) in
     case configure_epoll os w EPOLL_CTL_DEL fd EPOLLNONE None of (_, w1) \<Rightarrow>
       bindc (remove_and_destroy w1 a) (\<lambda>w2. Inr (close_fd w2 fd)))"

end
