(* ===== verification/Server_Protocol.thy ===== *)
theory Server_Protocol
  imports Server_State
begin

text \<open>
  The connection state machine of \<open>astrolog.c\<close>: parsing a request line, receiving a prognosis,
  sending a reply, and \<open>update_state\<close>, which drives them for one ready connection.
\<close>

section \<open>Reading and writing through a descriptor\<close>

definition fd_sock :: "server \<Rightarrow> int \<Rightarrow> sock" where
  "fd_sock w fd = sock_at (socks w) fd"

definition put_sock :: "server \<Rightarrow> int \<Rightarrow> sock \<Rightarrow> server" where
  "put_sock w fd s = w\<lparr>socks := put_at (socks w) fd s\<rparr>"

text \<open>\<open>buffered_recv_until_delim (&s->interm_buf, s->cur_pos, s->rem, DELIMITER)\<close>.\<close>

definition recv_to_state :: "server \<Rightarrow> addr \<Rightarrow> (int \<times> server) c_result" where
  "recv_to_state w a =
     bindc (deref (mem w) a) (\<lambda>s.
     let fd = buf_fd (s_interm_buf s) in
     bindc (buffered_recv_until_delim (fd_sock w fd) (s_interm_buf s) (s_buf s) (s_cur_pos s)
              (size_t (s_rem s)) DELIMITER) (\<lambda>(received, b', sk', buf').
     Inr (received,
          put_state (put_sock w fd sk') a (s\<lparr>s_interm_buf := b', s_buf := buf'\<rparr>))))"

text \<open>\<open>s->cur_pos[-1]\<close>, read and set to \<open>'\0'\<close>.\<close>

definition last_byte :: "server_state \<Rightarrow> char c_result" where
  "last_byte s = (if s_cur_pos s = 0 then Inl Undefined else arr_get (s_buf s) (s_cur_pos s - 1))"

definition clear_last :: "server_state \<Rightarrow> server_state c_result" where
  "clear_last s =
     (if s_cur_pos s = 0 then Inl Undefined
      else bindc (arr_set (s_buf s) (s_cur_pos s - 1) NUL) (\<lambda>buf'. Inr (s\<lparr>s_buf := buf'\<rparr>)))"

section \<open>The first line\<close>

definition parse_star_first_line :: "os \<Rightarrow> server \<Rightarrow> addr \<Rightarrow> server c_result" where
  "parse_star_first_line os w a =
     bindc (deref (mem w) a) (\<lambda>s.
     let ptr = length STAR_REQUEST_TYPE in
     bindc (memchr (s_buf s) ptr DELIMITER (size_t (int (s_cur_pos s) - int ptr))) (\<lambda>del_ptr.
     case del_ptr of
       None \<Rightarrow> Inl Undefined
     | Some del \<Rightarrow>
         bindc (find_zodiac (drop ptr (s_buf s)) (del - ptr)) (\<lambda>zodiac_ix.
         if zodiac_ix < 0 then
           bindc (arr_set (s_buf s) del NUL) (\<lambda>buf'.
           bindc (log_str buf' ptr) (\<lambda>_.
           Inr (put_state w a (s\<lparr>s_state := STATE_ERROR, s_buf := buf'\<rparr>))))
         else
           (case get_zodiac (nat zodiac_ix) of
              None \<Rightarrow> Inl Undefined
            | Some zodiac \<Rightarrow>
                let ptr1 = ptr + length zodiac in
                bindc (if ptr1 \<noteq> del then
                         bindc (arr_set (s_buf s) del NUL) (\<lambda>buf'.
                         bindc (log_str buf' ptr1) (\<lambda>_. Inr buf'))
                       else Inr (s_buf s)) (\<lambda>buf'.
                update_server_state_ts os
                  (put_state w a (s\<lparr>s_buf := buf', s_cur_pos := 0, s_rem := int ASTROLOG_BUF_LEN,
                                    s_zodiac_ix := nat zodiac_ix, s_state := STATE_RECV_H,
                                    s_op := OP_READ\<rparr>)) a)))))"

text \<open>The stored prognosis, up to and including its delimiter, or the refusal.\<close>

definition client_reply :: "string \<Rightarrow> string c_result" where
  "client_reply prognosis =
     bindc (memchr prognosis 0 DELIMITER ASTROLOG_BUF_LEN) (\<lambda>del_ptr.
       case del_ptr of
         None \<Rightarrow> Inr CLIENT_REPLY_FAILURE
       | Some del \<Rightarrow> mem_read prognosis 0 (del + 1))"

definition parse_client_first_line :: "os \<Rightarrow> server \<Rightarrow> addr \<Rightarrow> server c_result" where
  "parse_client_first_line os w a =
     bindc (deref (mem w) a) (\<lambda>s.
     let ptr = length CLIENT_REQUEST_TYPE in
     bindc (memchr (s_buf s) ptr DELIMITER (size_t (int (s_cur_pos s) - int ptr))) (\<lambda>del_ptr.
     case del_ptr of
       None \<Rightarrow> Inl Undefined
     | Some del \<Rightarrow>
         bindc (find_zodiac (drop ptr (s_buf s)) (del - ptr)) (\<lambda>zodiac_ix.
         if zodiac_ix < 0 then
           bindc (arr_set (s_buf s) del NUL) (\<lambda>buf'.
           bindc (log_str buf' ptr) (\<lambda>_.
           Inr (put_state w a (s\<lparr>s_state := STATE_ERROR, s_buf := buf'\<rparr>))))
         else
           (case get_zodiac (nat zodiac_ix) of
              None \<Rightarrow> Inl Undefined
            | Some zodiac \<Rightarrow>
                let ptr1 = ptr + length zodiac in
                bindc (if ptr1 \<noteq> del then
                         bindc (arr_set (s_buf s) del NUL) (\<lambda>buf'.
                         bindc (log_str buf' ptr1) (\<lambda>_. Inr buf'))
                       else Inr (s_buf s)) (\<lambda>buf'.
                bindc (arr_get (zodiac_prognosises w) (nat zodiac_ix)) (\<lambda>prognosis.
                bindc (client_reply prognosis) (\<lambda>reply.
                bindc (memcpy buf' 0 reply) (\<lambda>buf''.
                update_server_state_ts os
                  (put_state w a (s\<lparr>s_buf := buf'', s_rem := int (length reply), s_cur_pos := 0,
                                    s_state := STATE_SEND_H, s_op := OP_WRITE\<rparr>)) a))))))))"

definition handle_first_line :: "os \<Rightarrow> server \<Rightarrow> addr \<Rightarrow> server c_result" where
  "handle_first_line os w a =
     bindc (recv_to_state w a) (\<lambda>(received, w1).
     bindc (deref (mem w1) a) (\<lambda>s.
     if received < 0 then Inr (put_state w1 a (s\<lparr>s_state := STATE_ERROR\<rparr>))
     else if received = 0 then
       Inr (put_state w1 a (s\<lparr>s_state := (if s_cur_pos s = 0 then STATE_SUCCESS else STATE_ERROR)\<rparr>))
     else
       let s1 = s\<lparr>s_cur_pos := s_cur_pos s + nat received, s_rem := s_rem s - received\<rparr>;
           len = size_t (int ASTROLOG_BUF_LEN - s_rem s1);
           w2 = put_state w1 a s1 in
       bindc (last_byte s1) (\<lambda>c.
       if c = DELIMITER then
         bindc (mem_read (s_buf s1) 0 (length STAR_REQUEST_TYPE)) (\<lambda>head.
         if len > length STAR_REQUEST_TYPE \<and> head = STAR_REQUEST_TYPE then
           parse_star_first_line os w2 a
         else
           bindc (mem_read (s_buf s1) 0 (length CLIENT_REQUEST_TYPE)) (\<lambda>head.
           if len > length CLIENT_REQUEST_TYPE \<and> head = CLIENT_REQUEST_TYPE then
             parse_client_first_line os w2 a
           else
             bindc (clear_last s1) (\<lambda>s2.
             bindc (log_str (s_buf s2) 0) (\<lambda>_.
             Inr (put_state w2 a (s2\<lparr>s_state := STATE_ERROR\<rparr>))))))
       else if s_rem s1 = 0 then
         bindc (log_str (s_buf s1) 0) (\<lambda>_.
         Inr (put_state w2 a (s1\<lparr>s_state := STATE_ERROR\<rparr>)))
       else Inr w2)))"

section \<open>The prognosis and the reply\<close>

definition handle_recv_h :: "os \<Rightarrow> server \<Rightarrow> addr \<Rightarrow> server c_result" where
  "handle_recv_h os w a =
     bindc (recv_to_state w a) (\<lambda>(received, w1).
     bindc (deref (mem w1) a) (\<lambda>s.
     if received < 0 then Inr (put_state w1 a (s\<lparr>s_state := STATE_ERROR\<rparr>))
     else if received = 0 then Inr (put_state w1 a (s\<lparr>s_state := STATE_ERROR\<rparr>))
     else
       let s1 = s\<lparr>s_cur_pos := s_cur_pos s + nat received, s_rem := s_rem s - received\<rparr>;
           w2 = put_state w1 a s1 in
       bindc (last_byte s1) (\<lambda>c.
       if c = DELIMITER then
         bindc (arr_get (zodiac_prognosises w2) (s_zodiac_ix s1)) (\<lambda>row.
         bindc (mem_read (s_buf s1) 0 (size_t (int ASTROLOG_BUF_LEN - s_rem s1))) (\<lambda>prognosis.
         bindc (memcpy row 0 prognosis) (\<lambda>row'.
         bindc (arr_set (zodiac_prognosises w2) (s_zodiac_ix s1) row') (\<lambda>prognosises'.
         bindc (clear_last s1) (\<lambda>s2.
         bindc (log_str (s_buf s2) 0) (\<lambda>_.
         bindc (memcpy (s_buf s2) 0 STAR_REPLY_SUCCESS) (\<lambda>buf'.
         update_server_state_ts os
           (put_state (w2\<lparr>zodiac_prognosises := prognosises'\<rparr>) a
              (s2\<lparr>s_rem := int (length STAR_REPLY_SUCCESS), s_buf := buf', s_cur_pos := 0,
                  s_zodiac_ix := ZODIAC_UNKOWN, s_state := STATE_SEND_THANKS,
                  s_op := OP_WRITE\<rparr>)) a)))))))
       else if s_rem s1 = 0 then
         bindc (log_str (s_buf s1) 0) (\<lambda>_.
         Inr (put_state w2 a (s1\<lparr>s_state := STATE_ERROR\<rparr>)))
       else Inr w2)))"

definition handle_send_reply :: "os \<Rightarrow> server \<Rightarrow> addr \<Rightarrow> server c_result" where
  "handle_send_reply os w a =
     bindc (deref (mem w) a) (\<lambda>s.
     let fd = buf_fd (s_interm_buf s) in
     bindc (mem_read (s_buf s) (s_cur_pos s) (size_t (s_rem s))) (\<lambda>d.
     case sock_send (fd_sock w fd) d of (bytes, sk') \<Rightarrow>
       let w1 = put_sock w fd sk' in
       if bytes < 0 then Inr (put_state w1 a (s\<lparr>s_state := STATE_ERROR\<rparr>))
       else
         let s1 = s\<lparr>s_cur_pos := s_cur_pos s + nat bytes, s_rem := s_rem s - bytes\<rparr> in
         if s_rem s1 = 0 then
           bindc (clear_last s1) (\<lambda>s2.
           bindc (log_str (s_buf s2) 0) (\<lambda>_.
           update_server_state_ts os
             (put_state w1 a (s2\<lparr>s_cur_pos := 0, s_rem := int ASTROLOG_BUF_LEN,
                                 s_state := STATE_RECV_FIRST_LINE, s_op := OP_READ\<rparr>)) a))
         else Inr (put_state w1 a s1)))"

section \<open>One ready connection\<close>

text \<open>The \<open>switch\<close> of \<open>update_state\<close>.\<close>

definition dispatch :: "os \<Rightarrow> server \<Rightarrow> addr \<Rightarrow> server c_result" where
  "dispatch os w a =
     bindc (deref (mem w) a) (\<lambda>s.
       case s_state s of
         STATE_RECV_FIRST_LINE \<Rightarrow> handle_first_line os w a
       | STATE_RECV_H \<Rightarrow> handle_recv_h os w a
       | STATE_SEND_THANKS \<Rightarrow> handle_send_reply os w a
       | STATE_SEND_H \<Rightarrow> handle_send_reply os w a
       | _ \<Rightarrow> Inr w)"

text \<open>The condition of its \<open>do\<close> loop, whose value \<open>None\<close> stands for a run that never ends.\<close>

definition unread :: "server_state \<Rightarrow> bool" where
  "unread s \<longleftrightarrow> s_op s = OP_READ \<and> buf_pos (s_interm_buf s) \<noteq> buf_len (s_interm_buf s)"

partial_function (option) update_loop :: "os \<Rightarrow> server \<Rightarrow> addr \<Rightarrow> server c_result option" where
  "update_loop os w a =
     (case dispatch os w a of
        Inl e \<Rightarrow> Some (Inl e)
      | Inr w' \<Rightarrow>
          (case deref (mem w') a of
             Inl e \<Rightarrow> Some (Inl e)
           | Inr s \<Rightarrow> if unread s then update_loop os w' a else Some (Inr w')))"

text \<open>The part of \<open>update_state\<close> after the loop.\<close>

definition settle_state :: "os \<Rightarrow> server \<Rightarrow> addr \<Rightarrow> fd_operation \<Rightarrow> (int \<times> server) c_result" where
  "settle_state os w a init_op =
     bindc (deref (mem w) a) (\<lambda>s.
       if s_state s = STATE_ERROR \<or> s_state s = STATE_SUCCESS then
         bindc (remove_server_state os w a) (\<lambda>w'. Inr (0, w'))
       else if init_op \<noteq> s_op s then
         (case configure_epoll os w EPOLL_CTL_MOD (buf_fd (s_interm_buf s))
                 (if s_op s = OP_READ then EPOLLIN else EPOLLOUT) (Some a) of
            (r, w') \<Rightarrow> if r \<noteq> 0 then Inr (-1, w') else Inr (0, w'))
       else Inr (0, w))"

definition update_state :: "os \<Rightarrow> server \<Rightarrow> addr \<Rightarrow> (int \<times> server) c_result option" where
  "update_state os w a =
     (case deref (mem w) a of
        Inl e \<Rightarrow> Some (Inl e)
      | Inr s \<Rightarrow>
          (case update_loop os w a of
             None \<Rightarrow> None
           | Some (Inl e) \<Rightarrow> Some (Inl e)
           | Some (Inr w') \<Rightarrow> Some (settle_state os w' a (s_op s))))"

end
