(* ===== verification/Server_Heap.thy ===== *)
theory Server_Heap
  imports Server_Protocol
begin

text \<open>
  The heap of connections inside the server: it holds exactly the live connection states, ordered
  by deadline, and each state knows its slot. The operations on one connection (refreshing its
  deadline, removing it, adding a new one) are shown to keep this, through the interpretation
  \<open>server_heap\<close> of the heap's contract, and to leave every other connection alone but for its slot.
\<close>

definition heap_ok :: "server \<Rightarrow> bool" where
  "heap_ok w \<longleftrightarrow>
     heap_inv compare_server_state swap_server_state is_live deadline (heap w) (mem w) \<and>
     indexed slot_of (heap_size (heap w)) (heap w) (mem w) \<and>
     set (elems (heap w)) = dom (mem w)"

text \<open>Memories that differ in slots only.\<close>

lemma but_slots_eq_Some:
  assumes "but_slots m' = but_slots m" and "m a = Some s"
  shows "\<exists>i. m' a = Some (s\<lparr>s_heap_ix := i\<rparr>)"
proof -
  from assms(1) have "but_slots m' a = but_slots m a" by simp
  with assms(2) obtain s' where s': "m' a = Some s'" "s'\<lparr>s_heap_ix := 0\<rparr> = s\<lparr>s_heap_ix := 0\<rparr>"
    by (auto simp: but_slots_def)
  then have "s' = s\<lparr>s_heap_ix := s_heap_ix s'\<rparr>"
    by (metis server_state.surjective server_state.update_convs(9))
  with s'(1) show ?thesis by metis
qed

lemma but_slots_None: "but_slots m' = but_slots m \<Longrightarrow> m a = None \<Longrightarrow> m' a = None"
  by (metis but_slots_eq_Some option.distinct(1) option.exhaust)

lemma dom_but_slots: "dom (but_slots m) = dom m"
  by (auto simp: but_slots_def)

lemma but_slots_dom: "but_slots m' = but_slots m \<Longrightarrow> dom m' = dom m"
  by (metis dom_but_slots)

lemma but_slots_upd:
  "but_slots m' = but_slots m \<Longrightarrow> but_slots (m'(a := x)) = but_slots (m(a := x))"
  by (auto simp: but_slots_def fun_eq_iff)

lemma heap_ok_slot:
  assumes "heap_ok w" and "mem w a = Some s"
  shows "s_heap_ix s < heap_size (heap w)" and "arr (heap w) ! s_heap_ix s = a"
    and "i < heap_size (heap w) \<Longrightarrow> arr (heap w) ! i = a \<Longrightarrow> i = s_heap_ix s"
proof -
  have "a \<in> set (elems (heap w))" using assms by (auto simp: heap_ok_def)
  with indexed_slot [of slot_of "heap w" "mem w" a] assms
  show "s_heap_ix s < heap_size (heap w)" "arr (heap w) ! s_heap_ix s = a"
    by (auto simp: heap_ok_def slot_of_def)
  show "i < heap_size (heap w) \<Longrightarrow> arr (heap w) ! i = a \<Longrightarrow> i = s_heap_ix s"
    using assms by (auto simp: heap_ok_def indexed_def slot_of_def)
qed

lemma heap_ok_cong:
  assumes "heap_ok w" and "heap w' = heap w"
    and "\<And>a. map_option (\<lambda>s. (s_ts s, s_heap_ix s)) (mem w' a) =
              map_option (\<lambda>s. (s_ts s, s_heap_ix s)) (mem w a)"
  shows "heap_ok w'"
proof -
  have pt: "(mem w' a = None) = (mem w a = None) \<and>
      (mem w a \<noteq> None \<longrightarrow> deadline (mem w') a = deadline (mem w) a \<and> slot_of (mem w') a = slot_of (mem w) a)" for a
    using assms(3) [of a] by (cases "mem w' a"; cases "mem w a") (auto simp: deadline_def slot_of_def)
  have lv: "is_live (mem w') = is_live (mem w)" "dom (mem w') = dom (mem w)"
    using pt by (simp_all add: is_live_def fun_eq_iff dom_def del: not_None_eq)
  have in_use: "mem w (arr (heap w) ! i) \<noteq> None" if "i < heap_size (heap w)" for i
    using assms(1) that by (auto simp: heap_ok_def heap_inv_def slots_ok_def is_live_def)
  have "heap_ord (deadline (mem w')) (arr (heap w)) (heap_size (heap w))"
    using assms(1) pt in_use PARENT_lt by (auto simp: heap_ok_def heap_inv_def heap_ord_def)
  moreover have "indexed slot_of (heap_size (heap w)) (heap w) (mem w')"
    using assms(1) pt in_use by (auto simp: heap_ok_def indexed_def)
  ultimately show ?thesis
    using assms(1,2) by (simp add: heap_ok_def heap_inv_def slots_ok_def lv)
qed

lemma heap_ok_put:
  assumes "heap_ok w" and "mem w a = Some s" and "s_ts s' = s_ts s" and "s_heap_ix s' = s_heap_ix s"
  shows "heap_ok (put_state w a s')"
  by (rule heap_ok_cong [OF assms(1)]) (use assms in \<open>auto simp: put_state_def\<close>)

section \<open>Refreshing a deadline\<close>

lemma heap_refresh:
  fixes t :: timespec
  assumes ok: "heap_ok w" and a: "mem w a = Some s"
  defines "w2 \<equiv> put_state w a (s\<lparr>s_ts := t\<rparr>)"
  shows "\<exists>h' m'. binary_heap_update (heap w2) (mem w2) (s_heap_ix s) = Inr (h', m') \<and>
    heap_ok (w2\<lparr>heap := h', mem := m'\<rparr>) \<and> but_slots m' = but_slots (mem w2) \<and>
    capacity h' = capacity (heap w)"
proof -
  let ?h = "heap w" and ?n = "heap_size (heap w)" and ?i = "s_heap_ix s"
  note slot = heap_ok_slot [OF ok a]
  have h: "heap w2 = ?h" and m: "mem w2 = (mem w)(a \<mapsto> s\<lparr>s_ts := t\<rparr>)"
    by (simp_all add: w2_def put_state_def)
  have live: "is_live (mem w2) = is_live (mem w)" "slot_of (mem w2) = slot_of (mem w)"
    "dom (mem w2) = dom (mem w)"
    using a by (auto simp: m is_live_def slot_of_def fun_eq_iff)
  have s2: "slots_ok compare_server_state swap_server_state is_live ?n ?h (mem w2)"
    and len: "length (arr ?h) = capacity ?h" and ix: "indexed slot_of ?n ?h (mem w2)"
    using ok by (simp_all add: heap_ok_def heap_inv_def slots_ok_def live indexed_def)
  have near: "near_ord (deadline (mem w2)) (arr ?h) ?n ?i"
  proof (rule heap_ord_near)
    show "heap_ord (deadline (mem w)) (arr ?h) ?n" using ok by (simp add: heap_ok_def heap_inv_def)
    fix i assume "i < ?n" "i \<noteq> ?i"
    with slot(3) show "deadline (mem w2) (arr ?h ! i) = deadline (mem w) (arr ?h ! i)"
      by (auto simp: m deadline_def)
  qed
  from server_heap.update_ok [OF s2 len near slot(1)] obtain h' m' where
    up: "binary_heap_update ?h (mem w2) ?i = Inr (h', m')" and
    inv: "heap_inv compare_server_state swap_server_state is_live deadline h' m'"
    "mset (elems h') = mset (elems ?h)" and
    view: "same_view is_live deadline but_slots ?h (mem w2) h' m'" by blast
  from server_heap.update_indexed [OF s2 len near slot(1) ix up]
  have "indexed slot_of (heap_size h') h' m'" by simp
  moreover have "set (elems h') = dom m'"
    using mset_eq_setD [OF inv(2)] ok view but_slots_dom [of m' "mem w2"]
    by (simp add: heap_ok_def live(3) same_view_def)
  ultimately have "heap_ok (w2\<lparr>heap := h', mem := m'\<rparr>)" using inv by (simp add: heap_ok_def)
  with up view show ?thesis by (auto simp: h same_view_def)
qed

section \<open>Removing a connection\<close>

lemma heap_detach:
  assumes ok: "heap_ok w" and a: "mem w a = Some s"
  shows "\<exists>h' m'. remove_and_destroy w a = Inr (w\<lparr>heap := h', mem := m'\<rparr>) \<and>
    heap_ok (w\<lparr>heap := h', mem := m'\<rparr>) \<and> but_slots m' = but_slots ((mem w)(a := None)) \<and>
    capacity h' = capacity (heap w) \<and> Suc (heap_size h') = heap_size (heap w)"
proof -
  let ?h = "heap w" and ?i = "s_heap_ix s"
  note slot = heap_ok_slot [OF ok a]
  have inv: "heap_inv compare_server_state swap_server_state is_live deadline ?h (mem w)"
    and ix: "indexed slot_of (heap_size ?h) ?h (mem w)" and dom: "set (elems ?h) = dom (mem w)"
    using ok by (simp_all add: heap_ok_def)
  from server_heap.remove_ok [OF inv slot(1)] obtain h' m' where
    rem: "binary_heap_remove ?h (mem w) ?i = Inr (0, Some a, h', m')" and
    inv': "heap_inv compare_server_state swap_server_state is_live deadline h' m'" and
    size: "Suc (heap_size h') = heap_size ?h" and
    out: "add_mset a (mset (elems h')) = mset (elems ?h)" and
    view: "same_view is_live deadline but_slots ?h (mem w) h' m'" unfolding slot(2) by blast
  from server_heap.remove_indexed [OF inv slot(1) ix rem]
  have ix': "indexed slot_of (heap_size h') h' m'" by simp
  have "distinct (elems ?h)"
    using indexed_distinct [OF ix] inv by (simp add: elems_def heap_inv_def slots_ok_def)
  with out have da: "distinct (a # elems h')"
    by (metis mset.simps(2) mset_eq_imp_distinct_iff)
  have "insert a (set (elems h')) = dom (mem w)"
    using out dom by (metis mset.simps(2) mset_eq_setD list.simps(15))
  with da have dom': "set (elems h') = dom (mem w) - {a}" by auto
  let ?m' = "m'(a := None)"
  have notin: "a \<noteq> arr h' ! i" if "i < heap_size h'" for i
    using da that length_elems [OF inv'] nth_elems [OF that] by (metis distinct.simps(2) nth_mem)
  have bs: "but_slots m' = but_slots (mem w)" using view by (simp add: same_view_def)
  then have live_a: "m' a \<noteq> None" using but_slots_eq_Some [of m' "mem w" a s] a by auto
  have "heap_inv compare_server_state swap_server_state is_live deadline h' ?m'"
  proof -
    have "deadline ?m' (arr h' ! i) = deadline m' (arr h' ! i)" "is_live ?m' (arr h' ! i) = is_live m' (arr h' ! i)"
      if "i < heap_size h'" for i using notin [OF that] by (auto simp: deadline_def is_live_def)
    then show ?thesis using inv' PARENT_lt
      by (auto simp: heap_inv_def slots_ok_def heap_ord_def)
  qed
  moreover have "indexed slot_of (heap_size h') h' ?m'"
    using ix' notin by (auto simp: indexed_def slot_of_def)
  moreover have "set (elems h') = dom ?m'" using dom' but_slots_dom [OF bs] by auto
  ultimately have ok': "heap_ok (w\<lparr>heap := h', mem := ?m'\<rparr>)" by (simp add: heap_ok_def)
  have "remove_and_destroy w a = Inr (w\<lparr>heap := h', mem := ?m'\<rparr>)"
    using a rem live_a by (simp add: remove_and_destroy_def destroy_server_state_def)
  with ok' but_slots_upd [OF bs] view size show ?thesis by (auto simp: same_view_def)
qed

section \<open>Adding a connection\<close>

lemma heap_attach:
  assumes ok: "heap_ok w" and a: "mem w a = None" and ix: "s_heap_ix s = heap_size (heap w)"
    and room: "heap_size (heap w) < capacity (heap w)"
  defines "w2 \<equiv> put_state w a s"
  shows "\<exists>h' m'. binary_heap_push (heap w2) (mem w2) a = Inr (0, h', m') \<and>
    heap_ok (w2\<lparr>heap := h', mem := m'\<rparr>) \<and> but_slots m' = but_slots (mem w2) \<and>
    capacity h' = capacity (heap w) \<and> heap_size h' = Suc (heap_size (heap w))"
proof -
  let ?h = "heap w"
  have h: "heap w2 = ?h" and m: "mem w2 = (mem w)(a \<mapsto> s)" by (simp_all add: w2_def put_state_def)
  have notin: "arr ?h ! i \<noteq> a" if "i < heap_size ?h" for i
    using ok a that by (auto simp: heap_ok_def heap_inv_def slots_ok_def is_live_def)
  have same: "deadline (mem w2) (arr ?h ! i) = deadline (mem w) (arr ?h ! i)"
    "slot_of (mem w2) (arr ?h ! i) = slot_of (mem w) (arr ?h ! i)"
    "is_live (mem w2) (arr ?h ! i) = is_live (mem w) (arr ?h ! i)"
    if "i < heap_size ?h" for i
    using notin [OF that] by (auto simp: m deadline_def is_live_def slot_of_def)
  have inv: "heap_inv compare_server_state swap_server_state is_live deadline ?h (mem w2)"
    using ok same PARENT_lt by (auto simp: heap_ok_def heap_inv_def slots_ok_def heap_ord_def)
  have live: "is_live (mem w2) a" and slot: "slot_of (mem w2) a = heap_size ?h"
    using ix by (simp_all add: m is_live_def slot_of_def)
  have idx: "indexed slot_of (heap_size ?h) ?h (mem w2)"
    using ok same by (simp add: heap_ok_def indexed_def)
  from server_heap.push_swaps [OF inv room live] obtain h' m' where
    push: "binary_heap_push ?h (mem w2) a = Inr (0, h', m')" and
    inv': "heap_inv compare_server_state swap_server_state is_live deadline h' m'"
    "heap_size h' = Suc (heap_size ?h)" "mset (elems h') = add_mset a (mset (elems ?h))" and
    view: "same_view is_live deadline but_slots ?h (mem w2) h' m'" by blast
  from server_heap.push_indexed [OF inv room live idx slot push]
  have "indexed slot_of (heap_size h') h' m'" by simp
  moreover have "set (elems h') = dom m'"
  proof -
    have "set (elems h') = insert a (dom (mem w))"
      using ok inv'(3) by (metis heap_ok_def list.simps(15) mset.simps(2) mset_eq_setD)
    then show ?thesis
      using view but_slots_dom [of m' "mem w2"] by (simp add: same_view_def m)
  qed
  ultimately have "heap_ok (w2\<lparr>heap := h', mem := m'\<rparr>)" using inv' by (simp add: heap_ok_def)
  with push inv' view show ?thesis by (auto simp: h same_view_def)
qed

end
