(* ===== verification/Server_Inv.thy ===== *)
theory Server_Inv
  imports Server_Heap
begin

text \<open>
  The invariant of the server process and of a single connection, and the steps every handler is
  made of: changing the state of the connection, refreshing its deadline, receiving into its
  buffer.
\<close>

section \<open>One connection\<close>

text \<open>Receiving: the bytes before \<open>cur_pos\<close> are an unfinished line, and there is room for more.\<close>

definition receiving :: "server_state \<Rightarrow> bool" where
  "receiving s \<longleftrightarrow> s_op s = OP_READ \<and> int (s_cur_pos s) + s_rem s = int ASTROLOG_BUF_LEN \<and>
     0 < s_rem s \<and> DELIMITER \<notin> set (take (s_cur_pos s) (s_buf s))"

text \<open>Sending: there are bytes left to send, all inside the buffer.\<close>

definition sending :: "server_state \<Rightarrow> bool" where
  "sending s \<longleftrightarrow> s_op s = OP_WRITE \<and> 0 < s_rem s \<and>
     int (s_cur_pos s) + s_rem s \<le> int ASTROLOG_BUF_LEN"

definition phase_ok :: "server_state \<Rightarrow> bool" where
  "phase_ok s \<longleftrightarrow>
     (case s_state s of
        STATE_RECV_FIRST_LINE \<Rightarrow> receiving s
      | STATE_RECV_H \<Rightarrow> receiving s \<and> s_zodiac_ix s < ZODIAC_NUM
      | STATE_SEND_THANKS \<Rightarrow> sending s
      | STATE_SEND_H \<Rightarrow> sending s
      | STATE_ERROR \<Rightarrow> True
      | STATE_SUCCESS \<Rightarrow> True)"

text \<open>The arrays have their sizes, and the last byte of \<open>buf\<close> stays the terminator of \<open>LOG\<close>.\<close>

definition conn_ok :: "server_state \<Rightarrow> bool" where
  "conn_ok s \<longleftrightarrow> buffer_ok (s_interm_buf s) \<and> length (s_buf s) = ASTROLOG_BUF_LEN + 1 \<and>
     s_buf s ! ASTROLOG_BUF_LEN = NUL \<and> phase_ok s"

definition finished :: "server_state \<Rightarrow> bool" where
  "finished s \<longleftrightarrow> s_state s = STATE_ERROR \<or> s_state s = STATE_SUCCESS"

text \<open>Between two calls of \<open>update_state\<close>.\<close>

definition quiet :: "server_state \<Rightarrow> bool" where
  "quiet s \<longleftrightarrow> \<not> finished s \<and> \<not> unread s"

abbreviation conn_fd :: "server_state \<Rightarrow> int" where
  "conn_fd s \<equiv> buf_fd (s_interm_buf s)"

named_theorems conn_defs \<open>predicates on a single connection\<close>

lemmas [conn_defs] =
  receiving_def sending_def phase_ok_def conn_ok_def finished_def quiet_def unread_def

lemma conn_touch [simp]:
  "conn_ok (s\<lparr>s_ts := t\<rparr>) = conn_ok s" "conn_ok (s\<lparr>s_heap_ix := i\<rparr>) = conn_ok s"
  "quiet (s\<lparr>s_ts := t\<rparr>) = quiet s" "quiet (s\<lparr>s_heap_ix := i\<rparr>) = quiet s"
  "receiving (s\<lparr>s_ts := t\<rparr>) = receiving s" "receiving (s\<lparr>s_heap_ix := i\<rparr>) = receiving s"
  "finished (s\<lparr>s_ts := t\<rparr>) = finished s" "finished (s\<lparr>s_heap_ix := i\<rparr>) = finished s"
  "unread (s\<lparr>s_ts := t\<rparr>) = unread s" "unread (s\<lparr>s_heap_ix := i\<rparr>) = unread s"
  by (simp_all add: conn_defs cong: server_state_type.case_cong)

section \<open>The process\<close>

definition prognoses_ok :: "string list \<Rightarrow> bool" where
  "prognoses_ok ps \<longleftrightarrow> length ps = ZODIAC_NUM \<and> (\<forall>p \<in> set ps. length p = ASTROLOG_BUF_LEN + 1)"

definition event_of :: "fd_operation \<Rightarrow> epoll_events" where
  "event_of opn = (if opn = OP_READ then EPOLLIN else EPOLLOUT)"

text \<open>The connection's descriptor is open, and registered with its address.\<close>

definition attached :: "server \<Rightarrow> addr \<Rightarrow> server_state \<Rightarrow> bool" where
  "attached w a s \<longleftrightarrow> socks w (conn_fd s) \<noteq> None \<and> (\<exists>ev. interest w (conn_fd s) = Some (ev, Some a))"

text \<open>The event waited for is the operation the connection needs next.\<close>

definition armed :: "server \<Rightarrow> server_state \<Rightarrow> bool" where
  "armed w s \<longleftrightarrow> (\<exists>p. interest w (conn_fd s) = Some (event_of (s_op s), p))"

text \<open>No stale pointers in the interest list.\<close>

definition owned :: "server \<Rightarrow> bool" where
  "owned w \<longleftrightarrow> (\<forall>fd ev a. interest w fd = Some (ev, Some a) \<longrightarrow>
     (\<exists>s. mem w a = Some s \<and> conn_fd s = fd))"

definition server_inv :: "server \<Rightarrow> bool" where
  "server_inv w \<longleftrightarrow> heap_ok w \<and> prognoses_ok (zodiac_prognosises w) \<and> owned w \<and>
     (\<forall>a s. mem w a = Some s \<longrightarrow> conn_ok s \<and> attached w a s \<and> quiet s \<and> armed w s)"

text \<open>The invariant while connection \<open>a\<close> is being processed.\<close>

definition proc_inv :: "server \<Rightarrow> addr \<Rightarrow> bool" where
  "proc_inv w a \<longleftrightarrow> heap_ok w \<and> prognoses_ok (zodiac_prognosises w) \<and> owned w \<and> mem w a \<noteq> None \<and>
     (\<forall>b s. mem w b = Some s \<longrightarrow> conn_ok s \<and> attached w b s \<and> (b \<noteq> a \<longrightarrow> quiet s \<and> armed w s))"

text \<open>What processing \<open>a\<close> leaves alone.\<close>

definition fd_of :: "server \<Rightarrow> addr \<Rightarrow> int" where
  "fd_of w a = conn_fd (the (mem w a))"

definition frame :: "addr \<Rightarrow> server \<Rightarrow> server \<Rightarrow> bool" where
  "frame a w w' \<longleftrightarrow> interest w' = interest w \<and> capacity (heap w') = capacity (heap w) \<and>
     (\<forall>b. b \<noteq> a \<longrightarrow> but_slots (mem w') b = but_slots (mem w) b) \<and> fd_of w' a = fd_of w a \<and>
     (\<forall>fd. fd \<noteq> fd_of w a \<longrightarrow> socks w' fd = socks w fd) \<and>
     (\<forall>fd. socks w' fd = None \<longleftrightarrow> socks w fd = None)"

lemma frame_refl [simp]: "frame a w w"
  by (simp add: frame_def)

lemma frame_trans: "frame a w w1 \<Longrightarrow> frame a w1 w2 \<Longrightarrow> frame a w w2"
  by (simp add: frame_def)

lemma server_proc: "server_inv w \<Longrightarrow> mem w a \<noteq> None \<Longrightarrow> proc_inv w a"
  by (simp add: server_inv_def proc_inv_def)

lemma proc_conn: "proc_inv w a \<Longrightarrow> mem w a = Some s \<Longrightarrow> conn_ok s"
  by (simp add: proc_inv_def)

text \<open>A state that differs from a good one only in connection \<open>a\<close> and in slots is good.\<close>

lemma other_conn:
  assumes "but_slots m' b = but_slots m b" and "m' b = Some s'"
  shows "\<exists>s i. m b = Some s \<and> s' = s\<lparr>s_heap_ix := i\<rparr>"
proof -
  from assms obtain s where s: "m b = Some s" "s'\<lparr>s_heap_ix := 0\<rparr> = s\<lparr>s_heap_ix := 0\<rparr>"
    by (cases "m b") (simp_all add: but_slots_def)
  then have "s' = s\<lparr>s_heap_ix := s_heap_ix s'\<rparr>"
    by (metis server_state.surjective server_state.update_convs(9))
  with s(1) show ?thesis by blast
qed

lemma proc_inv_frame:
  assumes inv: "proc_inv w a" and fr: "frame a w w'" and heap: "heap_ok w'"
    and a: "mem w' a = Some s'" "conn_ok s'" and ps: "prognoses_ok (zodiac_prognosises w')"
  shows "proc_inv w' a"
proof -
  from inv obtain s where s: "mem w a = Some s" by (auto simp: proc_inv_def)
  have fd: "conn_fd s' = conn_fd s" using fr a s by (simp add: frame_def fd_of_def)
  have it: "interest w' = interest w" and so: "socks w' f = None \<longleftrightarrow> socks w f = None" for f
    using fr by (simp_all add: frame_def)
  have conns: "conn_ok t' \<and> attached w' b t' \<and> (b \<noteq> a \<longrightarrow> quiet t' \<and> armed w' t')"
    if t': "mem w' b = Some t'" for b t'
  proof (cases "b = a")
    case True
    have "attached w a s" using inv s by (simp add: proc_inv_def)
    with True t' a fd it so show ?thesis by (simp add: attached_def)
  next
    case False
    with fr have "but_slots (mem w') b = but_slots (mem w) b" by (simp add: frame_def)
    from other_conn [OF this t'] obtain t i where
      t: "mem w b = Some t" "t' = t\<lparr>s_heap_ix := i\<rparr>" by blast
    with inv False have "conn_ok t" "attached w b t" "quiet t" "armed w t"
      by (auto simp: proc_inv_def)
    with t it so show ?thesis by (simp add: attached_def armed_def)
  qed
  have "owned w'"
    unfolding owned_def
  proof (intro allI impI)
    fix f ev b assume "interest w' f = Some (ev, Some b)"
    moreover have "owned w" using inv by (simp add: proc_inv_def)
    ultimately obtain t where t: "mem w b = Some t" "conn_fd t = f"
      unfolding owned_def it by blast
    show "\<exists>t'. mem w' b = Some t' \<and> conn_fd t' = f"
    proof (cases "b = a")
      case True
      with t s a fd show ?thesis by auto
    next
      case False
      with fr have "but_slots (mem w) b = but_slots (mem w') b" by (simp add: frame_def)
      from other_conn [OF this t(1)] obtain t' i where "mem w' b = Some t'" "t = t'\<lparr>s_heap_ix := i\<rparr>"
        by blast
      with t show ?thesis by auto
    qed
  qed
  with conns heap ps a show ?thesis by (simp add: proc_inv_def)
qed

section \<open>The elementary steps\<close>

lemma mem_put_state [simp]: "mem (put_state w a s) = (mem w)(a \<mapsto> s)"
  by (simp add: put_state_def)

lemma put_state_fields [simp]:
  "heap (put_state w a s) = heap w" "zodiac_prognosises (put_state w a s) = zodiac_prognosises w"
  "socks (put_state w a s) = socks w" "interest (put_state w a s) = interest w"
  by (simp_all add: put_state_def)

lemma put_sock_fields [simp]:
  "heap (put_sock w fd sk) = heap w" "mem (put_sock w fd sk) = mem w"
  "zodiac_prognosises (put_sock w fd sk) = zodiac_prognosises w"
  "interest (put_sock w fd sk) = interest w"
  by (simp_all add: put_sock_def put_at_def)

lemma heap_ok_put_sock [simp]: "heap_ok (put_sock w fd sk) = heap_ok w"
  by (simp add: heap_ok_def)

lemma frame_put:
  assumes "mem w a = Some s" and "conn_fd s' = conn_fd s"
  shows "frame a w (put_state w a s')" and "frame a w (put_state (put_sock w (conn_fd s) sk) a s')"
  using assms by (auto simp: frame_def fd_of_def put_sock_def put_at_def but_slots_def)

text \<open>Writing the state of \<open>a\<close>, and possibly its socket.\<close>

lemma proc_put:
  assumes inv: "proc_inv w a" and a: "mem w a = Some s" and ok: "conn_ok s'"
    and same: "conn_fd s' = conn_fd s" "s_ts s' = s_ts s" "s_heap_ix s' = s_heap_ix s"
  shows "proc_inv (put_state w a s') a"
    and "proc_inv (put_state (put_sock w (conn_fd s) sk) a s') a"
proof -
  have h: "heap_ok w" and ps: "prognoses_ok (zodiac_prognosises w)" using inv by (simp_all add: proc_inv_def)
  have h1: "heap_ok (put_state w a s')" by (rule heap_ok_put [OF h a same(2,3)])
  have h2: "heap_ok (put_state (put_sock w (conn_fd s) sk) a s')"
    by (rule heap_ok_put [OF _ _ same(2,3)]) (simp_all add: h a)
  show "proc_inv (put_state w a s') a"
    by (rule proc_inv_frame [OF inv frame_put(1) [OF a same(1)] h1 _ ok]) (simp_all add: ps)
  show "proc_inv (put_state (put_sock w (conn_fd s) sk) a s') a"
    by (rule proc_inv_frame [OF inv frame_put(2) [OF a same(1)] h2 _ ok]) (simp_all add: ps)
qed

text \<open>Two states of a connection that differ in deadline and slot only.\<close>

definition same_conn :: "server_state \<Rightarrow> server_state \<Rightarrow> bool" where
  "same_conn s s' \<longleftrightarrow> (\<exists>t i. s' = s\<lparr>s_ts := t, s_heap_ix := i\<rparr>)"

lemma same_conn_fields:
  assumes "same_conn s s'"
  shows "s_interm_buf s' = s_interm_buf s" "s_buf s' = s_buf s" "s_cur_pos s' = s_cur_pos s"
    "s_rem s' = s_rem s" "s_zodiac_ix s' = s_zodiac_ix s" "s_state s' = s_state s" "s_op s' = s_op s"
    "conn_ok s' = conn_ok s" "unread s' = unread s" "finished s' = finished s"
  using assms by (auto simp: same_conn_def)

text \<open>The call that ends every successful transition.\<close>

lemma refresh_safe:
  assumes inv: "proc_inv w a" and a: "mem w a = Some s"
  shows "safe (update_server_state_ts os w a) (\<lambda>w'. proc_inv w' a \<and> frame a w w' \<and>
    socks w' = socks w \<and> zodiac_prognosises w' = zodiac_prognosises w \<and>
    (\<exists>s' w1. mem w' a = Some s' \<and> same_conn s s' \<and> update_ts os w (s_op s) = Inr (s_ts s', w1)))"
proof (cases "clock os (tick w)")
  case None
  with a show ?thesis by (simp add: update_server_state_ts_def update_ts_def get_cur_time_def)
next
  case (Some t)
  let ?w1 = "w\<lparr>tick := Suc (tick w)\<rparr>"
  from Some obtain t' where ts: "update_ts os w (s_op s) = Inr (t', ?w1)"
    by (simp add: update_ts_def get_cur_time_def)
  let ?w2 = "put_state ?w1 a (s\<lparr>s_ts := t'\<rparr>)"
  have h: "heap_ok ?w1" using inv by (simp add: proc_inv_def heap_ok_def)
  from heap_refresh [OF h, of a s t'] a obtain h' m' where
    up: "binary_heap_update (heap ?w2) (mem ?w2) (s_heap_ix s) = Inr (h', m')" and
    ok: "heap_ok (?w2\<lparr>heap := h', mem := m'\<rparr>)" and bs: "but_slots m' = but_slots (mem ?w2)" and
    cap: "capacity h' = capacity (heap w)" by auto
  let ?w3 = "?w2\<lparr>heap := h', mem := m'\<rparr>"
  have eq: "update_server_state_ts os w a = Inr ?w3"
    using a ts up by (simp add: update_server_state_ts_def)
  from but_slots_eq_Some [OF bs, of a "s\<lparr>s_ts := t'\<rparr>"] obtain i where
    s': "m' a = Some (s\<lparr>s_ts := t', s_heap_ix := i\<rparr>)" by auto
  have "but_slots m' b = but_slots (mem w) b" if "b \<noteq> a" for b
    using bs that by (simp add: but_slots_def fun_eq_iff)
  then have fr: "frame a w ?w3"
    using s' a cap by (simp add: frame_def fd_of_def)
  have "proc_inv ?w3 a"
    by (rule proc_inv_frame [OF inv fr ok, of "s\<lparr>s_ts := t', s_heap_ix := i\<rparr>"])
       (use s' proc_conn [OF inv a] inv in \<open>simp_all add: proc_inv_def\<close>)
  with eq fr s' ts show ?thesis by (auto simp: same_conn_def)
qed

section \<open>Receiving\<close>

text \<open>The bytes connection \<open>s\<close> can still obtain.\<close>

definition conn_input :: "server \<Rightarrow> server_state \<Rightarrow> string" where
  "conn_input w s = input (s_interm_buf s) (fd_sock w (conn_fd s))"

text \<open>
  Receiving into the connection's buffer: \<open>r\<close> bytes of its input are appended after \<open>cur_pos\<close>; they
  end at the first delimiter at the latest.
\<close>

lemma recv_to_state_ok:
  assumes inv: "proc_inv w a" and a: "mem w a = Some s" and rcv: "receiving s"
  obtains r w1 b' buf' where "recv_to_state w a = Inr (r, w1)"
    and "mem w1 a = Some (s\<lparr>s_interm_buf := b', s_buf := buf'\<rparr>)"
    and "proc_inv w1 a" and "frame a w w1" and "zodiac_prognosises w1 = zodiac_prognosises w"
    and "buf_fd b' = conn_fd s" and "length buf' = length (s_buf s)"
    and "sent (fd_sock w1 (conn_fd s)) = sent (fd_sock w (conn_fd s))"
    and "r \<le> 0 \<Longrightarrow> conn_input w s = [] \<and> buf' = s_buf s \<and> pending b' = []"
    and "0 < r \<Longrightarrow> (let t = take (nat r) (conn_input w s) in
           length t = nat r \<and> int (nat r) = r \<and> r \<le> s_rem s \<and> t = upto_delim DELIMITER t \<and>
           buf' = blit (s_buf s) (s_cur_pos s) t \<and>
           conn_input w1 (s\<lparr>s_interm_buf := b', s_buf := buf'\<rparr>) = drop (nat r) (conn_input w s) \<and>
           (pending b' = [] \<or> r = s_rem s \<or> last t = DELIMITER) \<and>
           (unread s \<longrightarrow> fd_sock w1 (conn_fd s) = fd_sock w (conn_fd s) \<and>
              pending b' = drop (nat r) (pending (s_interm_buf s))))"
proof -
  let ?fd = "conn_fd s" and ?b = "s_interm_buf s"
  have ok: "conn_ok s" by (rule proc_conn [OF inv a])
  then have bok: "buffer_ok ?b" and len: "length (s_buf s) = ASTROLOG_BUF_LEN + 1"
    by (simp_all add: conn_ok_def)
  have rem: "0 < s_rem s" "s_rem s \<le> 80" "s_cur_pos s + nat (s_rem s) = 80"
    using rcv by (auto simp: receiving_def ASTROLOG_BUF_LEN_def)
  then have n: "0 < size_t (s_rem s)" "size_t (s_rem s) = nat (s_rem s)"
    "s_cur_pos s + size_t (s_rem s) \<le> length (s_buf s)" using len by (simp_all add: ASTROLOG_BUF_LEN_def)
  from buffered_recv_until_delim_eq [OF bok n(1,3), of "fd_sock w ?fd" DELIMITER]
  obtain r b' sk' buf' where
    eq: "buffered_recv_until_delim (fd_sock w ?fd) ?b (s_buf s) (s_cur_pos s) (size_t (s_rem s))
           DELIMITER = Inr (r, b', sk', buf')"
    and b': "buffer_ok b'" "buf_fd b' = ?fd" "sent sk' = sent (fd_sock w ?fd)"
    and neg: "r \<le> 0 \<Longrightarrow> buf' = s_buf s \<and> input ?b (fd_sock w ?fd) = [] \<and> buf_pos b' = buf_len b'"
    and pos: "0 < r \<Longrightarrow> nat r \<le> size_t (s_rem s) \<and>
       take (nat r) (input ?b (fd_sock w ?fd)) =
         upto_delim DELIMITER (take (nat r) (input ?b (fd_sock w ?fd))) \<and>
       buf' = blit (s_buf s) (s_cur_pos s) (take (nat r) (input ?b (fd_sock w ?fd))) \<and>
       nat r \<le> length (input ?b (fd_sock w ?fd)) \<and>
       input b' sk' = drop (nat r) (input ?b (fd_sock w ?fd)) \<and>
       (buf_pos b' = buf_len b' \<or> nat r = size_t (s_rem s) \<or>
          last (take (nat r) (input ?b (fd_sock w ?fd))) = DELIMITER) \<and>
       (buf_pos ?b < buf_len ?b \<longrightarrow> sk' = fd_sock w ?fd \<and> buf_len b' = buf_len ?b \<and>
          buf_pos b' = buf_pos ?b + nat r)"
    by blast
  let ?s1 = "s\<lparr>s_interm_buf := b', s_buf := buf'\<rparr>"
  let ?w1 = "put_state (put_sock w ?fd sk') a ?s1"
  have open_fd: "socks w ?fd \<noteq> None" using inv a by (auto simp: proc_inv_def attached_def)
  have sock1: "fd_sock ?w1 ?fd = sk'" using open_fd by (auto simp: fd_sock_def sock_at_def put_sock_def put_at_def)
  have run: "recv_to_state w a = Inr (r, ?w1)" using a eq by (simp add: recv_to_state_def)
  have buf': "length buf' = length (s_buf s)" "take (s_cur_pos s) buf' = take (s_cur_pos s) (s_buf s)"
    "buf' ! ASTROLOG_BUF_LEN = s_buf s ! ASTROLOG_BUF_LEN"
  proof (atomize (full), cases "0 < r")
    case False
    with neg show "length buf' = length (s_buf s) \<and>
        take (s_cur_pos s) buf' = take (s_cur_pos s) (s_buf s) \<and>
        buf' ! ASTROLOG_BUF_LEN = s_buf s ! ASTROLOG_BUF_LEN" by simp
  next
    case True
    let ?t = "take (nat r) (input ?b (fd_sock w ?fd))"
    from pos [OF True] n have "buf' = blit (s_buf s) (s_cur_pos s) ?t" "s_cur_pos s + length ?t \<le> 80"
      using rem by auto
    then show "length buf' = length (s_buf s) \<and>
        take (s_cur_pos s) buf' = take (s_cur_pos s) (s_buf s) \<and>
        buf' ! ASTROLOG_BUF_LEN = s_buf s ! ASTROLOG_BUF_LEN"
      using len by (simp add: nth_blit ASTROLOG_BUF_LEN_def) (simp add: blit_def)
  qed
  have ok1: "conn_ok ?s1"
    using ok b'(1) buf' by (simp add: conn_defs cong: server_state_type.case_cong)
  have proc: "proc_inv ?w1 a" by (rule proc_put(2) [OF inv a ok1]) (simp_all add: b')
  have fr: "frame a w ?w1" by (rule frame_put(2) [OF a]) (simp add: b')
  have in1: "conn_input ?w1 ?s1 = input b' sk'" by (simp add: conn_input_def b'(2) sock1)
  show thesis
  proof (rule that [OF run _ proc fr])
    show "r \<le> 0 \<Longrightarrow> conn_input w s = [] \<and> buf' = s_buf s \<and> pending b' = []"
      using neg pending_empty [OF b'(1)] by (simp add: conn_input_def)
    assume r: "0 < r"
    note p = pos [OF this]
    have unread: "sk' = fd_sock w ?fd \<and> pending b' = drop (nat r) (pending ?b)" if "unread s"
    proof -
      from that bok have "buf_pos ?b < buf_len ?b" by (simp add: unread_def buffer_ok_def)
      with p b'(1) bok have sk: "sk' = fd_sock w ?fd" and k: "nat r \<le> length (pending ?b)"
        by (simp_all add: buffer_ok_def le_diff_conv2)
      moreover have "input b' sk' = drop (nat r) (input ?b (fd_sock w ?fd))" using p by blast
      ultimately show ?thesis by (simp add: input_def)
    qed
    have stop: "pending b' = [] \<or> r = s_rem s \<or>
        last (take (nat r) (input ?b (fd_sock w ?fd))) = DELIMITER"
      using p n r pending_empty [OF b'(1)] by (auto simp: eq_nat_nat_iff)
    have le: "r \<le> s_rem s" using p n r by auto
    have unread1: "fd_sock ?w1 ?fd = fd_sock w ?fd \<and> pending b' = drop (nat r) (pending ?b)"
      if "unread s" using unread [OF that] sock1 by metis
    from p le r stop unread1 show "let t = take (nat r) (conn_input w s) in
           length t = nat r \<and> int (nat r) = r \<and> r \<le> s_rem s \<and> t = upto_delim DELIMITER t \<and>
           buf' = blit (s_buf s) (s_cur_pos s) t \<and>
           conn_input ?w1 ?s1 = drop (nat r) (conn_input w s) \<and>
           (pending b' = [] \<or> r = s_rem s \<or> last t = DELIMITER) \<and>
           (unread s \<longrightarrow> fd_sock ?w1 ?fd = fd_sock w ?fd \<and> pending b' = drop (nat r) (pending ?b))"
      unfolding in1 by (simp add: conn_input_def Let_def)
  qed (use b' buf' sock1 in simp_all)
qed

end
