(* ===== verification/Protocol_Spec.thy ===== *)
theory Protocol_Spec
  imports Buffered_Reader
begin

text \<open>
  The protocol of the astrologer, without buffers, offsets and descriptors: what a request line
  asks for, what the table of prognoses holds, and a small machine that says how a connection
  reacts to bytes that arrive and to bytes that are accepted. The handlers of the server are
  shown to refine this machine.
\<close>

section \<open>Requests\<close>

datatype request = Star_request nat | Client_request nat | Bad_request

text \<open>The zodiac named at the start of the argument; what follows the name is padding.\<close>

definition zodiac_of :: "string \<Rightarrow> nat option" where
  "zodiac_of xs = List.find (\<lambda>i. prefix (zodiac_names ! i) xs) [0..<ZODIAC_NUM]"

text \<open>What a line, with its delimiter, asks for.\<close>

definition classify :: "string \<Rightarrow> request" where
  "classify l =
     (if prefix STAR_REQUEST_TYPE l then
        (case zodiac_of (drop (length STAR_REQUEST_TYPE) (butlast l)) of
           Some i \<Rightarrow> Star_request i | None \<Rightarrow> Bad_request)
      else if prefix CLIENT_REQUEST_TYPE l then
        (case zodiac_of (drop (length CLIENT_REQUEST_TYPE) (butlast l)) of
           Some i \<Rightarrow> Client_request i | None \<Rightarrow> Bad_request)
      else Bad_request)"

lemma zodiac_of_less: "zodiac_of xs = Some i \<Longrightarrow> i < ZODIAC_NUM"
  by (auto simp: zodiac_of_def find_Some_iff)

lemma classify_less:
  "classify l = Star_request i \<Longrightarrow> i < ZODIAC_NUM" "classify l = Client_request i \<Longrightarrow> i < ZODIAC_NUM"
  by (auto simp: classify_def dest: zodiac_of_less split: if_splits option.splits)

lemma find_zodiac_eq:
  assumes "n \<le> length z"
  shows "find_zodiac z n = Inr (case zodiac_of (take n z) of Some i \<Rightarrow> int i | None \<Rightarrow> -1)"
proof -
  have "zodiac_of xs = (if prefix ''Aries'' xs then Some 0 else if prefix ''Taurus'' xs then Some 1
      else if prefix ''Gemini'' xs then Some 2 else None)" for xs
    by (simp add: zodiac_of_def ZODIAC_NUM_def zodiac_names_def upt_rec)
  then show ?thesis by (simp add: find_zodiac_cases [OF assms])
qed

lemma get_zodiac_name:
  assumes "zodiac_of xs = Some i"
  shows "get_zodiac i = Some (zodiac_names ! i)" and "length (zodiac_names ! i) \<le> length xs"
proof -
  show "get_zodiac i = Some (zodiac_names ! i)"
    using zodiac_of_less [OF assms] by (simp add: get_zodiac_def)
  have "prefix (zodiac_names ! i) xs" using assms by (auto simp: zodiac_of_def find_Some_iff)
  then show "length (zodiac_names ! i) \<le> length xs" by (rule prefix_length_le)
qed

section \<open>The table of prognoses\<close>

text \<open>The prognosis in a row of the table: the line it starts with, if a delimiter is there.\<close>

definition stored :: "string \<Rightarrow> string option" where
  "stored row = map_option (\<lambda>i. take (Suc i) row) (find_from (take ASTROLOG_BUF_LEN row) DELIMITER 0)"

definition reply_of :: "string option \<Rightarrow> string" where
  "reply_of p = (case p of Some l \<Rightarrow> l | None \<Rightarrow> CLIENT_REPLY_FAILURE)"

lemma stored_line:
  assumes "is_line l" and "length l \<le> ASTROLOG_BUF_LEN"
  shows "stored (l @ zs) = Some l"
proof -
  from assms(1) obtain xs where l: "l = xs @ [DELIMITER]" "DELIMITER \<notin> set xs"
    by (auto simp: is_line_alt)
  have "take ASTROLOG_BUF_LEN (l @ zs) = xs @ DELIMITER # take (ASTROLOG_BUF_LEN - length l) zs"
    using assms(2) by (simp add: l(1) take_Cons')
  then show ?thesis using l by (simp add: stored_def find_from_line)
qed

lemma stored_SomeD:
  assumes "stored row = Some l"
  shows "is_line l" and "length l \<le> ASTROLOG_BUF_LEN" and "\<exists>zs. row = l @ zs"
proof -
  from assms obtain i where i: "find_from (take ASTROLOG_BUF_LEN row) DELIMITER 0 = Some i"
    "l = take (Suc i) row" by (auto simp: stored_def)
  from find_from_SomeD [OF i(1)] have
    r: "i < length row" "i < ASTROLOG_BUF_LEN" "row ! i = DELIMITER" "DELIMITER \<notin> set (take i row)"
    by (auto simp: min_def split: if_splits)
  then have l: "l = take i row @ [DELIMITER]" by (simp add: i(2) take_Suc_conv_app_nth)
  with r show "is_line l" "length l \<le> ASTROLOG_BUF_LEN" by (auto simp: is_line_alt)
  show "\<exists>zs. row = l @ zs" by (metis append_take_drop_id i(2))
qed

lemma reply_of_line:
  assumes "\<forall>l. p = Some l \<longrightarrow> is_line l \<and> length l \<le> ASTROLOG_BUF_LEN"
  shows "is_line (reply_of p)" and "length (reply_of p) \<le> ASTROLOG_BUF_LEN"
  using assms by (auto simp: reply_of_def is_line_def c_consts split: option.splits)

section \<open>The machine of a connection\<close>

text \<open>
  \<open>Reading\<close> and \<open>Awaiting\<close> carry the bytes of the unfinished line, \<open>Thanking\<close> and \<open>Answering\<close>
  the bytes still to be sent.
\<close>

datatype phase =
  Reading string | Awaiting nat string | Thanking string | Answering string | Failed | Done

type_synonym prognoses = "string option list"

text \<open>The reaction to \<open>bs \<noteq> []\<close>, bytes up to the next delimiter at most.\<close>

fun on_bytes :: "phase \<Rightarrow> prognoses \<Rightarrow> string \<Rightarrow> phase \<times> prognoses" where
  "on_bytes (Reading p) ps bs =
     (let l = p @ bs in
      if last l = DELIMITER then
        (case classify l of
           Star_request i \<Rightarrow> (Awaiting i [], ps)
         | Client_request i \<Rightarrow> (Answering (reply_of (ps ! i)), ps)
         | Bad_request \<Rightarrow> (Failed, ps))
      else if length l = ASTROLOG_BUF_LEN then (Failed, ps)
      else (Reading l, ps))"
| "on_bytes (Awaiting i p) ps bs =
     (let l = p @ bs in
      if last l = DELIMITER then (Thanking STAR_REPLY_SUCCESS, ps[i := Some l])
      else if length l = ASTROLOG_BUF_LEN then (Failed, ps)
      else (Awaiting i l, ps))"
| "on_bytes ph ps bs = (ph, ps)"

text \<open>The reaction to \<open>k\<close> accepted bytes.\<close>

fun on_sent :: "phase \<Rightarrow> nat \<Rightarrow> phase" where
  "on_sent (Thanking d) k = (if k = length d then Reading [] else Thanking (drop k d))"
| "on_sent (Answering d) k = (if k = length d then Reading [] else Answering (drop k d))"
| "on_sent ph k = ph"

text \<open>The bytes the machine needs next, or has left.\<close>

fun room :: "phase \<Rightarrow> nat" where
  "room (Reading p) = ASTROLOG_BUF_LEN - length p"
| "room (Awaiting i p) = ASTROLOG_BUF_LEN - length p"
| "room ph = 0"

text \<open>The phases in which the machine reads.\<close>

fun reads :: "phase \<Rightarrow> bool" where
  "reads (Reading p) = True"
| "reads (Awaiting i p) = True"
| "reads ph = False"

text \<open>A whole input: the machine takes pieces off it until it wants to write or has failed.\<close>

function consume :: "phase \<Rightarrow> prognoses \<Rightarrow> string \<Rightarrow> phase \<times> prognoses \<times> string" where
  "consume ph ps xs =
     (if xs = [] \<or> room ph = 0 then (ph, ps, xs)
      else
        let n = length (upto_delim DELIMITER (take (room ph) xs)) in
        case on_bytes ph ps (take n xs) of (ph', ps') \<Rightarrow> consume ph' ps' (drop n xs))"
  by pat_completeness auto
termination
  by (relation "measure (\<lambda>(ph, ps, xs). length xs)")
     (auto simp: upto_delim_Nil intro!: diff_less)

declare consume.simps [simp del]

lemma upto_delim_prefix:
  assumes "t = upto_delim c t" and "t \<noteq> []" and "last t = c"
  shows "upto_delim c (t @ zs) = t"
proof -
  from assms upto_delim_cases [of c t] obtain ys where "t = ys @ [c]" "c \<notin> set ys"
    by (metis append_butlast_last_id last_in_set)
  then show ?thesis by (simp add: upto_delim_line)
qed

text \<open>A whole line at the start of the input, for a machine that has read nothing of it yet.\<close>

lemma consume_line:
  assumes "room ph = ASTROLOG_BUF_LEN" and "is_line l" and "length l \<le> ASTROLOG_BUF_LEN"
  shows "consume ph ps (l @ rest) = (case on_bytes ph ps l of (ph', ps') \<Rightarrow> consume ph' ps' rest)"
proof -
  have l: "l \<noteq> []" "last l = DELIMITER" using assms(2) by (simp_all add: is_line_def)
  from assms(2) obtain xs where "l = xs @ [DELIMITER]" "DELIMITER \<notin> set xs" by (auto simp: is_line_alt)
  then have "upto_delim DELIMITER l = l" using upto_delim_line [of DELIMITER xs "[]"] by simp
  then have "upto_delim DELIMITER (l @ take (ASTROLOG_BUF_LEN - length l) rest) = l"
    using upto_delim_prefix [of l DELIMITER] l by simp
  then have up: "upto_delim DELIMITER (take (room ph) (l @ rest)) = l" using assms(1,3) by simp
  have "room ph \<noteq> 0" using assms(1) by (simp add: ASTROLOG_BUF_LEN_def)
  then show ?thesis using l(1) by (subst consume.simps, unfold up Let_def) simp
qed

lemma consume_end: "room ph = 0 \<or> xs = [] \<Longrightarrow> consume ph ps xs = (ph, ps, xs)"
  by (subst consume.simps) auto

lemma on_line:
  assumes "is_line l"
  shows "on_bytes (Reading []) ps l =
           (case classify l of
              Star_request i \<Rightarrow> (Awaiting i [], ps)
            | Client_request i \<Rightarrow> (Answering (reply_of (ps ! i)), ps)
            | Bad_request \<Rightarrow> (Failed, ps))"
    and "on_bytes (Awaiting i []) ps l = (Thanking STAR_REPLY_SUCCESS, ps[i := Some l])"
  using assms by (simp_all add: is_line_def)

text \<open>A request as a client writes it: the type, the name, padding, the delimiter.\<close>

lemma zodiac_of_name:
  assumes "i < ZODIAC_NUM"
  shows "zodiac_of (zodiac_names ! i @ pad) = Some i"
proof -
  have "zodiac_of (zodiac_names ! i @ pad) \<noteq> None"
    using assms by (auto simp: zodiac_of_def find_None_iff)
  then obtain j where j: "zodiac_of (zodiac_names ! i @ pad) = Some j" by auto
  then have "prefix (zodiac_names ! j) (zodiac_names ! i @ pad)" "j < ZODIAC_NUM"
    by (auto simp: zodiac_of_def find_Some_iff)
  then have "i = j" by (intro zodiac_prefix_free [OF assms]) simp_all
  with j show ?thesis by simp
qed

lemma classify_client:
  assumes "i < ZODIAC_NUM"
  shows "classify (CLIENT_REQUEST_TYPE @ zodiac_names ! i @ pad @ [DELIMITER]) = Client_request i"
proof -
  have "\<not> prefix STAR_REQUEST_TYPE (CLIENT_REQUEST_TYPE @ xs)" for xs by (simp add: c_consts)
  then show ?thesis using zodiac_of_name [OF assms, of pad] by (simp add: classify_def butlast_append)
qed

lemma classify_star:
  assumes "i < ZODIAC_NUM"
  shows "classify (STAR_REQUEST_TYPE @ zodiac_names ! i @ pad @ [DELIMITER]) = Star_request i"
  using zodiac_of_name [OF assms, of pad] by (simp add: classify_def butlast_append)

end
