(* ===== verification/Server_Parse.thy ===== *)
theory Server_Parse
  imports Server_Inv Protocol_Spec
begin

text \<open>
  The abstraction from the server to the protocol machine, and the parsing functions of
  \<open>astrolog.c\<close> on a complete request line: each is what \<open>classify\<close> says.
\<close>

section \<open>The abstraction\<close>

definition phase_of :: "server_state \<Rightarrow> phase" where
  "phase_of s =
     (case s_state s of
        STATE_RECV_FIRST_LINE \<Rightarrow> Reading (take (s_cur_pos s) (s_buf s))
      | STATE_RECV_H \<Rightarrow> Awaiting (s_zodiac_ix s) (take (s_cur_pos s) (s_buf s))
      | STATE_SEND_THANKS \<Rightarrow> Thanking (subarray (s_buf s) (s_cur_pos s) (nat (s_rem s)))
      | STATE_SEND_H \<Rightarrow> Answering (subarray (s_buf s) (s_cur_pos s) (nat (s_rem s)))
      | STATE_ERROR \<Rightarrow> Failed
      | STATE_SUCCESS \<Rightarrow> Done)"

definition table :: "server \<Rightarrow> prognoses" where
  "table w = map stored (zodiac_prognosises w)"

lemma phase_of_same_conn: "same_conn s s' \<Longrightarrow> phase_of s' = phase_of s"
  by (simp add: phase_of_def same_conn_fields cong: server_state_type.case_cong)

lemma table_cong: "zodiac_prognosises w' = zodiac_prognosises w \<Longrightarrow> table w' = table w"
  by (simp add: table_def)

lemma finished_phase: "finished s \<longleftrightarrow> phase_of s = Failed \<or> phase_of s = Done"
  by (simp add: finished_def phase_of_def split: server_state_type.splits)

lemma length_table: "prognoses_ok (zodiac_prognosises w) \<Longrightarrow> length (table w) = ZODIAC_NUM"
  by (simp add: table_def prognoses_ok_def)

lemma table_line:
  assumes "prognoses_ok (zodiac_prognosises w)" and "i < ZODIAC_NUM"
  shows "is_line (reply_of (table w ! i))" and "length (reply_of (table w ! i)) \<le> ASTROLOG_BUF_LEN"
proof -
  have "table w ! i = stored (zodiac_prognosises w ! i)"
    using assms by (simp add: table_def prognoses_ok_def)
  then have "\<forall>l. table w ! i = Some l \<longrightarrow> is_line l \<and> length l \<le> ASTROLOG_BUF_LEN"
    using stored_SomeD(1,2) by metis
  then show "is_line (reply_of (table w ! i))" "length (reply_of (table w ! i)) \<le> ASTROLOG_BUF_LEN"
    by (rule reply_of_line)+
qed

section \<open>The pieces of a request line\<close>

lemma log_cleared: "p \<le> i \<Longrightarrow> i < length xs \<Longrightarrow> log_str (xs[i := NUL]) p = Inr ()"
  by (simp add: log_str_def in_set_conv_nth)
     (metis add_diff_inverse_nat diff_less_mono length_list_update not_less nth_drop nth_list_update_eq
       nat_less_le)

lemma log_terminated: "p < length xs \<Longrightarrow> last xs = NUL \<Longrightarrow> log_str xs p = Inr ()"
  by (simp add: log_str_def) (metis drop_eq_Nil last_drop last_in_set leD)

lemma request_arg:
  assumes l: "take n buf = l" "length l = n" "is_line l" and n: "n \<le> ASTROLOG_BUF_LEN"
    and ty: "prefix ty l" "DELIMITER \<notin> set ty"
  defines "ptr \<equiv> length ty"
  shows "ptr < n" and "memchr buf ptr DELIMITER (size_t (int n - int ptr)) = Inr (Some (n - 1))"
    and "find_zodiac (drop ptr buf) (n - 1 - ptr) =
           Inr (case zodiac_of (drop ptr (butlast l)) of Some i \<Rightarrow> int i | None \<Rightarrow> -1)"
    and "zodiac_of (drop ptr (butlast l)) = Some i \<Longrightarrow> ptr + length (zodiac_names ! i) \<le> n - 1"
proof -
  from l(3) obtain xs where xs: "l = xs @ [DELIMITER]" "DELIMITER \<notin> set xs" by (auto simp: is_line_alt)
  with ty have "prefix ty xs" by (auto simp: prefix_snoc)
  then have ptr: "ptr \<le> length xs" by (simp add: ptr_def prefix_length_le)
  with xs l(2) show lt: "ptr < n" by simp
  have len: "n \<le> length buf" using l by (metis length_take min.cobounded2 nat_le_linear take_all)
  have size: "size_t (int n - int ptr) = n - ptr"
    using lt n by (simp add: ASTROLOG_BUF_LEN_def nat_diff_distrib)
  have "subarray buf ptr (n - ptr) = drop ptr l"
    unfolding l(1) [symmetric] subarray_def by (simp add: drop_take)
  also have "\<dots> = drop ptr xs @ DELIMITER # []" using ptr by (simp add: xs(1))
  finally have sub: "subarray buf ptr (n - ptr) = drop ptr xs @ DELIMITER # []" .
  have "DELIMITER \<notin> set (drop ptr xs)" using xs(2) by (meson in_set_dropD)
  then have "find_from (subarray buf ptr (n - ptr)) DELIMITER ptr = Some (n - 1)"
    using ptr l(2) by (simp add: sub find_from_line xs(1))
  with lt len show "memchr buf ptr DELIMITER (size_t (int n - int ptr)) = Inr (Some (n - 1))"
    by (simp add: size)
  have "take (n - 1 - ptr) (drop ptr buf) = drop ptr (take (n - 1) buf)" by (simp add: drop_take)
  also have "take (n - 1) buf = butlast l"
    unfolding l(1) [symmetric] using len by (simp add: butlast_take)
  finally have arg: "take (n - 1 - ptr) (drop ptr buf) = drop ptr (butlast l)" .
  show "find_zodiac (drop ptr buf) (n - 1 - ptr) =
      Inr (case zodiac_of (drop ptr (butlast l)) of Some i \<Rightarrow> int i | None \<Rightarrow> -1)"
    using find_zodiac_eq [of "n - 1 - ptr" "drop ptr buf"] len unfolding arg by simp
  assume "zodiac_of (drop ptr (butlast l)) = Some i"
  from get_zodiac_name(2) [OF this] show "ptr + length (zodiac_names ! i) \<le> n - 1"
    using ptr l(2) xs(1) by simp
qed

text \<open>The two \<open>LOG\<close> branches of the parsers leave the array with its size and terminator.\<close>

lemma padding_cleared:
  assumes "p \<le> d" and "d < ASTROLOG_BUF_LEN" and "length buf = ASTROLOG_BUF_LEN + 1"
    and "buf ! ASTROLOG_BUF_LEN = NUL"
  shows "\<exists>buf'. (if p \<noteq> d then
           bindc (arr_set buf d NUL) (\<lambda>buf'. bindc (log_str buf' p) (\<lambda>_. Inr buf')) else Inr buf) =
           Inr buf' \<and> length buf' = ASTROLOG_BUF_LEN + 1 \<and> buf' ! ASTROLOG_BUF_LEN = NUL"
  using assms by (simp add: log_cleared)

section \<open>The parsers\<close>

text \<open>A complete line of at most \<open>ASTROLOG_BUF_LEN\<close> bytes at the start of \<open>buf\<close>.\<close>

definition line_in :: "server_state \<Rightarrow> string \<Rightarrow> bool" where
  "line_in s l \<longleftrightarrow> take (s_cur_pos s) (s_buf s) = l \<and> length l = s_cur_pos s \<and> is_line l \<and>
     s_cur_pos s \<le> ASTROLOG_BUF_LEN \<and> length (s_buf s) = ASTROLOG_BUF_LEN + 1 \<and>
     s_buf s ! ASTROLOG_BUF_LEN = NUL"

lemma types_ok: "DELIMITER \<notin> set STAR_REQUEST_TYPE" "DELIMITER \<notin> set CLIENT_REQUEST_TYPE"
  by (simp_all add: c_consts)

lemma parse_star_eq:
  assumes a: "mem w a = Some s" and l: "line_in s l" and ty: "prefix STAR_REQUEST_TYPE l"
  shows "\<exists>buf'. length buf' = ASTROLOG_BUF_LEN + 1 \<and> buf' ! ASTROLOG_BUF_LEN = NUL \<and>
    parse_star_first_line os w a =
      (case zodiac_of (drop (length STAR_REQUEST_TYPE) (butlast l)) of
         None \<Rightarrow> Inr (put_state w a (s\<lparr>s_state := STATE_ERROR, s_buf := buf'\<rparr>))
       | Some i \<Rightarrow>
           update_server_state_ts os
             (put_state w a (s\<lparr>s_buf := buf', s_cur_pos := 0, s_rem := int ASTROLOG_BUF_LEN,
                s_zodiac_ix := i, s_state := STATE_RECV_H, s_op := OP_READ\<rparr>)) a)"
proof -
  let ?ptr = "length STAR_REQUEST_TYPE" and ?n = "s_cur_pos s"
  have l': "take ?n (s_buf s) = l" "length l = ?n" "is_line l" "?n \<le> ASTROLOG_BUF_LEN"
    "length (s_buf s) = ASTROLOG_BUF_LEN + 1" "s_buf s ! ASTROLOG_BUF_LEN = NUL"
    using l by (simp_all add: line_in_def)
  note arg = request_arg [OF l'(1-4) ty types_ok(1)]
  have d: "?n - 1 < ASTROLOG_BUF_LEN" "?ptr \<le> ?n - 1" "?n - 1 < length (s_buf s)"
    using arg(1) l' by simp_all
  show ?thesis
  proof (cases "zodiac_of (drop ?ptr (butlast l))")
    case None
    with d l' show ?thesis
      by (intro exI [of _ "(s_buf s)[?n - 1 := NUL]"])
         (simp add: parse_star_first_line_def a arg(2,3) log_cleared Let_def del: One_nat_def diff_diff_left)
  next
    case (Some i)
    from padding_cleared [OF arg(4) [OF Some] d(1) l'(5,6)] obtain buf' where
      pad: "(if ?ptr + length (zodiac_names ! i) \<noteq> ?n - 1 then
           bindc (arr_set (s_buf s) (?n - 1) NUL) (\<lambda>buf'. bindc (log_str buf' (?ptr + length (zodiac_names ! i))) (\<lambda>_. Inr buf'))
         else Inr (s_buf s)) = Inr buf'"
      and b: "length buf' = ASTROLOG_BUF_LEN + 1" "buf' ! ASTROLOG_BUF_LEN = NUL" by blast
    have "parse_star_first_line os w a = update_server_state_ts os
             (put_state w a (s\<lparr>s_buf := buf', s_cur_pos := 0, s_rem := int ASTROLOG_BUF_LEN,
                s_zodiac_ix := i, s_state := STATE_RECV_H, s_op := OP_READ\<rparr>)) a"
      by (simp add: parse_star_first_line_def a arg(2,3) Some get_zodiac_name [OF Some] pad
          Let_def del: One_nat_def diff_diff_left)
    with b Some show ?thesis by auto
  qed
qed

lemma client_reply_eq:
  assumes "length row = ASTROLOG_BUF_LEN + 1"
  shows "client_reply row = Inr (reply_of (stored row))"
proof (cases "find_from (take ASTROLOG_BUF_LEN row) DELIMITER 0")
  case None
  with assms show ?thesis by (simp add: client_reply_def subarray_from_0 stored_def reply_of_def)
next
  case (Some i)
  from find_from_SomeD [OF this] assms have "Suc i \<le> length row" by simp
  with assms Some show ?thesis
    by (simp add: client_reply_def subarray_from_0 stored_def reply_of_def)
qed

lemma parse_client_eq:
  assumes a: "mem w a = Some s" and l: "line_in s l" and ty: "prefix CLIENT_REQUEST_TYPE l"
    and ps: "prognoses_ok (zodiac_prognosises w)"
  shows "\<exists>buf'. length buf' = ASTROLOG_BUF_LEN + 1 \<and> buf' ! ASTROLOG_BUF_LEN = NUL \<and>
    parse_client_first_line os w a =
      (case zodiac_of (drop (length CLIENT_REQUEST_TYPE) (butlast l)) of
         None \<Rightarrow> Inr (put_state w a (s\<lparr>s_state := STATE_ERROR, s_buf := buf'\<rparr>))
       | Some i \<Rightarrow>
           update_server_state_ts os
             (put_state w a (s\<lparr>s_buf := blit buf' 0 (reply_of (table w ! i)),
                s_rem := int (length (reply_of (table w ! i))), s_cur_pos := 0,
                s_state := STATE_SEND_H, s_op := OP_WRITE\<rparr>)) a)"
proof -
  let ?ptr = "length CLIENT_REQUEST_TYPE" and ?n = "s_cur_pos s"
  have l': "take ?n (s_buf s) = l" "length l = ?n" "is_line l" "?n \<le> ASTROLOG_BUF_LEN"
    "length (s_buf s) = ASTROLOG_BUF_LEN + 1" "s_buf s ! ASTROLOG_BUF_LEN = NUL"
    using l by (simp_all add: line_in_def)
  note arg = request_arg [OF l'(1-4) ty types_ok(2)]
  have d: "?n - 1 < ASTROLOG_BUF_LEN" "?ptr \<le> ?n - 1" "?n - 1 < length (s_buf s)"
    using arg(1) l' by simp_all
  show ?thesis
  proof (cases "zodiac_of (drop ?ptr (butlast l))")
    case None
    with d l' show ?thesis
      by (intro exI [of _ "(s_buf s)[?n - 1 := NUL]"])
         (simp add: parse_client_first_line_def a arg(2,3) log_cleared Let_def del: One_nat_def diff_diff_left)
  next
    case (Some i)
    have i: "i < length (zodiac_prognosises w)" "i < ZODIAC_NUM"
      using zodiac_of_less [OF Some] ps by (simp_all add: prognoses_ok_def)
    then have row: "length (zodiac_prognosises w ! i) = ASTROLOG_BUF_LEN + 1"
      and t: "stored (zodiac_prognosises w ! i) = table w ! i"
      using ps by (auto simp: prognoses_ok_def table_def)
    from padding_cleared [OF arg(4) [OF Some] d(1) l'(5,6)] obtain buf' where
      pad: "(if ?ptr + length (zodiac_names ! i) \<noteq> ?n - 1 then
           bindc (arr_set (s_buf s) (?n - 1) NUL) (\<lambda>buf'. bindc (log_str buf' (?ptr + length (zodiac_names ! i))) (\<lambda>_. Inr buf'))
         else Inr (s_buf s)) = Inr buf'"
      and b: "length buf' = ASTROLOG_BUF_LEN + 1" "buf' ! ASTROLOG_BUF_LEN = NUL" by blast
    have "0 + length (reply_of (table w ! i)) \<le> length buf'"
      using table_line(2) [OF ps i(2)] b by simp
    then have "parse_client_first_line os w a = update_server_state_ts os
             (put_state w a (s\<lparr>s_buf := blit buf' 0 (reply_of (table w ! i)),
                s_rem := int (length (reply_of (table w ! i))), s_cur_pos := 0,
                s_state := STATE_SEND_H, s_op := OP_WRITE\<rparr>)) a"
      by (simp add: parse_client_first_line_def a arg(2,3) Some get_zodiac_name [OF Some] pad
          i client_reply_eq [OF row] t Let_def del: One_nat_def diff_diff_left)
    with b Some show ?thesis by auto
  qed
qed

end
