(* ===== verification/Server_Handlers.thy ===== *)
theory Server_Handlers
  imports Server_Parse
begin

text \<open>
  The handlers of \<open>astrolog.c\<close> refine the protocol machine: a call of \<open>dispatch\<close> in a reading state
  takes a piece off the connection's input and reacts as \<open>on_bytes\<close> says; in a sending state it
  hands bytes to the socket and reacts as \<open>on_sent\<close> says. Every other connection is untouched.
\<close>

section \<open>Writing the state, then refreshing the deadline\<close>

lemma put_put [simp]: "put_state (put_state w a s) a s' = put_state w a s'"
  by (simp add: put_state_def)

lemma put_refresh:
  assumes inv: "proc_inv w a" and a: "mem w a = Some s" and ok: "conn_ok s'"
    and same: "conn_fd s' = conn_fd s" "s_ts s' = s_ts s" "s_heap_ix s' = s_heap_ix s"
  shows "safe (update_server_state_ts os (put_state w a s') a) (\<lambda>w'. proc_inv w' a \<and> frame a w w' \<and>
    socks w' = socks w \<and> zodiac_prognosises w' = zodiac_prognosises w \<and>
    (\<exists>s''. mem w' a = Some s'' \<and> same_conn s' s''))"
proof -
  have p: "proc_inv (put_state w a s') a" by (rule proc_put(1) [OF inv a ok same])
  have f: "frame a w (put_state w a s')" by (rule frame_put(1) [OF a same(1)])
  have "mem (put_state w a s') a = Some s'" by simp
  from refresh_safe [OF p this, of os] show ?thesis
    by (rule safe_mono) (auto intro: frame_trans [OF f])
qed

lemma proc_prognoses:
  assumes "proc_inv w a" and "prognoses_ok ps"
  shows "proc_inv (w\<lparr>zodiac_prognosises := ps\<rparr>) a" and "frame a w (w\<lparr>zodiac_prognosises := ps\<rparr>)"
  using assms by (simp_all add: proc_inv_def frame_def fd_of_def heap_ok_def attached_def owned_def armed_def)

section \<open>Taking a piece of the input\<close>

definition taken :: "server \<Rightarrow> server_state \<Rightarrow> string \<Rightarrow> server \<Rightarrow> server_state \<Rightarrow> bool" where
  "taken w s t w' s' \<longleftrightarrow>
     conn_fd s' = conn_fd s \<and> sent (fd_sock w' (conn_fd s)) = sent (fd_sock w (conn_fd s)) \<and>
     t = upto_delim DELIMITER t \<and> length t \<le> room (phase_of s) \<and>
     (t = [] \<longrightarrow> conn_input w s = [] \<and> pending (s_interm_buf s') = []) \<and>
     (t \<noteq> [] \<longrightarrow> conn_input w s = t @ conn_input w' s' \<and>
        (pending (s_interm_buf s') = [] \<or> length t = room (phase_of s) \<or> last t = DELIMITER) \<and>
        (unread s \<longrightarrow> fd_sock w' (conn_fd s) = fd_sock w (conn_fd s) \<and>
           pending (s_interm_buf s') = drop (length t) (pending (s_interm_buf s))))"

lemma taken_cong:
  assumes "socks w'' = socks w'" and "s_interm_buf s'' = s_interm_buf s'"
  shows "taken w s t w'' s'' = taken w s t w' s'"
  using assms by (simp add: taken_def conn_input_def fd_sock_def sock_at_def)

text \<open>The state after the two assignments that follow a positive \<open>received\<close>.\<close>

abbreviation advance :: "server_state \<Rightarrow> int \<Rightarrow> server_state" where
  "advance s r \<equiv> s\<lparr>s_cur_pos := s_cur_pos s + nat r, s_rem := s_rem s - r\<rparr>"

definition got_line :: "server_state \<Rightarrow> string \<Rightarrow> bool" where
  "got_line s l \<longleftrightarrow> take (s_cur_pos s) (s_buf s) = l \<and> length l = s_cur_pos s \<and> l \<noteq> [] \<and>
     DELIMITER \<notin> set (butlast l) \<and> int (s_cur_pos s) + s_rem s = int ASTROLOG_BUF_LEN \<and> 0 \<le> s_rem s \<and>
     length (s_buf s) = ASTROLOG_BUF_LEN + 1 \<and> s_buf s ! ASTROLOG_BUF_LEN = NUL \<and>
     buffer_ok (s_interm_buf s)"

lemma log_nul_end:
  assumes "length xs = ASTROLOG_BUF_LEN + 1" and "xs ! ASTROLOG_BUF_LEN = NUL"
  shows "log_str xs 0 = Inr ()"
proof -
  have "NUL \<in> set xs" using assms by (metis less_add_one nth_mem)
  then show ?thesis by (simp add: log_str_def)
qed

lemma clear_last_ok:
  assumes "length (s_buf s) = ASTROLOG_BUF_LEN + 1" and "s_buf s ! ASTROLOG_BUF_LEN = NUL"
    and "0 < s_cur_pos s" and "s_cur_pos s \<le> ASTROLOG_BUF_LEN"
  shows "\<exists>buf'. clear_last s = Inr (s\<lparr>s_buf := buf'\<rparr>) \<and> log_str buf' 0 = Inr () \<and>
    length buf' = ASTROLOG_BUF_LEN + 1 \<and> buf' ! ASTROLOG_BUF_LEN = NUL"
proof -
  let ?b = "(s_buf s)[s_cur_pos s - 1 := NUL]"
  have b: "length ?b = ASTROLOG_BUF_LEN + 1" "?b ! ASTROLOG_BUF_LEN = NUL"
    using assms by (simp_all add: nth_list_update)
  moreover have "clear_last s = Inr (s\<lparr>s_buf := ?b\<rparr>)" using assms by (simp add: clear_last_def)
  ultimately show ?thesis using log_nul_end [OF b] by blast
qed

lemma got_line_facts:
  assumes "got_line s l"
  shows "s_cur_pos s \<le> ASTROLOG_BUF_LEN" and "last_byte s = Inr (last l)"
    and "s_rem s = 0 \<longleftrightarrow> length l = ASTROLOG_BUF_LEN"
    and "size_t (int ASTROLOG_BUF_LEN - s_rem s) = length l"
    and "last l = DELIMITER \<Longrightarrow> line_in s l"
    and "last l \<noteq> DELIMITER \<Longrightarrow> DELIMITER \<notin> set l"
    and "log_str (s_buf s) 0 = Inr ()"
    and "length l \<le> length (s_buf s)"
    and "\<exists>buf'. clear_last s = Inr (s\<lparr>s_buf := buf'\<rparr>) \<and> log_str buf' 0 = Inr () \<and>
           length buf' = ASTROLOG_BUF_LEN + 1 \<and> buf' ! ASTROLOG_BUF_LEN = NUL"
proof -
  have l: "take (s_cur_pos s) (s_buf s) = l" "length l = s_cur_pos s" "l \<noteq> []"
    "DELIMITER \<notin> set (butlast l)" "int (s_cur_pos s) + s_rem s = int ASTROLOG_BUF_LEN" "0 \<le> s_rem s"
    "length (s_buf s) = ASTROLOG_BUF_LEN + 1" "s_buf s ! ASTROLOG_BUF_LEN = NUL"
    using assms by (simp_all add: got_line_def)
  show n: "s_cur_pos s \<le> ASTROLOG_BUF_LEN" using l(5,6) by simp
  have pos: "0 < s_cur_pos s" using l(2,3) by (cases l) auto
  have "last l = s_buf s ! (s_cur_pos s - 1)"
    using l(2,3) pos unfolding l(1) [symmetric] by (simp add: last_conv_nth)
  with pos n l(7) show "last_byte s = Inr (last l)" by (simp add: last_byte_def)
  show "s_rem s = 0 \<longleftrightarrow> length l = ASTROLOG_BUF_LEN" using l(2,5) by linarith
  have "int ASTROLOG_BUF_LEN - s_rem s = int (length l)" using l(2,5) by simp
  then show "size_t (int ASTROLOG_BUF_LEN - s_rem s) = length l"
    using n l(2) by (simp add: ASTROLOG_BUF_LEN_def)
  show "last l = DELIMITER \<Longrightarrow> line_in s l" using l n by (simp add: line_in_def is_line_def)
  show "last l \<noteq> DELIMITER \<Longrightarrow> DELIMITER \<notin> set l"
    using l(3,4) by (metis append_butlast_last_id rotate1.simps(2) set_ConsD set_rotate1)
  show "log_str (s_buf s) 0 = Inr ()"
    by (rule log_nul_end [OF l(7,8)])
  show "length l \<le> length (s_buf s)" using l(2,7) n by simp
  show "\<exists>buf'. clear_last s = Inr (s\<lparr>s_buf := buf'\<rparr>) \<and> log_str buf' 0 = Inr () \<and>
      length buf' = ASTROLOG_BUF_LEN + 1 \<and> buf' ! ASTROLOG_BUF_LEN = NUL"
    by (rule clear_last_ok [OF l(7,8) pos n])
qed

text \<open>In a reading state, one \<open>buffered_recv_until_delim\<close> either ends the input or yields a piece.\<close>

lemma recv_piece:
  assumes inv: "proc_inv w a" and a: "mem w a = Some s" and rcv: "receiving s"
    and ph: "room (phase_of s) = nat (s_rem s)"
  obtains
    (stop) r w1 b' where "recv_to_state w a = Inr (r, w1)" and "r \<le> 0"
      and "mem w1 a = Some (s\<lparr>s_interm_buf := b'\<rparr>)" and "proc_inv w1 a" and "frame a w w1"
      and "zodiac_prognosises w1 = zodiac_prognosises w" and "taken w s [] w1 (s\<lparr>s_interm_buf := b'\<rparr>)"
  | (got) r w1 t s0 where "recv_to_state w a = Inr (r, w1)" and "0 < r" and "r = int (length t)"
      and "mem w1 a = Some s0" and "proc_inv w1 a" and "frame a w w1"
      and "zodiac_prognosises w1 = zodiac_prognosises w" and "taken w s t w1 s0"
      and "\<exists>b' buf'. s0 = s\<lparr>s_interm_buf := b', s_buf := buf'\<rparr>"
      and "got_line (advance s0 r) (take (s_cur_pos s) (s_buf s) @ t)"
proof -
  obtain r w1 b' buf' where
    run: "recv_to_state w a = Inr (r, w1)"
    and m: "mem w1 a = Some (s\<lparr>s_interm_buf := b', s_buf := buf'\<rparr>)"
    and p: "proc_inv w1 a" "frame a w w1" "zodiac_prognosises w1 = zodiac_prognosises w"
    and fd: "buf_fd b' = conn_fd s" and len: "length buf' = length (s_buf s)"
    and snt: "sent (fd_sock w1 (conn_fd s)) = sent (fd_sock w (conn_fd s))"
    and neg: "r \<le> 0 \<Longrightarrow> conn_input w s = [] \<and> buf' = s_buf s \<and> pending b' = []"
    and pos: "0 < r \<Longrightarrow> (let t = take (nat r) (conn_input w s) in
           length t = nat r \<and> int (nat r) = r \<and> r \<le> s_rem s \<and> t = upto_delim DELIMITER t \<and>
           buf' = blit (s_buf s) (s_cur_pos s) t \<and>
           conn_input w1 (s\<lparr>s_interm_buf := b', s_buf := buf'\<rparr>) = drop (nat r) (conn_input w s) \<and>
           (pending b' = [] \<or> r = s_rem s \<or> last t = DELIMITER) \<and>
           (unread s \<longrightarrow> fd_sock w1 (conn_fd s) = fd_sock w (conn_fd s) \<and>
              pending b' = drop (nat r) (pending (s_interm_buf s))))"
    by (rule recv_to_state_ok [OF inv a rcv]) (rule that; blast)
  have ok: "conn_ok (s\<lparr>s_interm_buf := b', s_buf := buf'\<rparr>)" by (rule proc_conn [OF p(1) m])
  have nil: "upto_delim DELIMITER [] = []" by (simp add: upto_delim_Nil)
  show thesis
  proof (cases "0 < r")
    case False
    then have r: "r \<le> 0" by simp
    from neg [OF r] have e: "conn_input w s = []" "buf' = s_buf s" "pending b' = []" by simp_all
    have s: "s\<lparr>s_interm_buf := b', s_buf := buf'\<rparr> = s\<lparr>s_interm_buf := b'\<rparr>" by (simp add: e(2))
    have "taken w s [] w1 (s\<lparr>s_interm_buf := b'\<rparr>)"
      using e fd snt nil by (simp add: taken_def)
    from stop [OF run r m [unfolded s] p this] show thesis .
  next
    case r: True
    let ?t = "take (nat r) (conn_input w s)" and ?s0 = "s\<lparr>s_interm_buf := b', s_buf := buf'\<rparr>"
    have t: "length ?t = nat r" "int (nat r) = r" "r \<le> s_rem s" "?t = upto_delim DELIMITER ?t"
      "buf' = blit (s_buf s) (s_cur_pos s) ?t" "conn_input w1 ?s0 = drop (nat r) (conn_input w s)"
      "pending b' = [] \<or> r = s_rem s \<or> last ?t = DELIMITER"
      "unread s \<longrightarrow> fd_sock w1 (conn_fd s) = fd_sock w (conn_fd s) \<and>
              pending b' = drop (nat r) (pending (s_interm_buf s))"
      using pos [OF r, unfolded Let_def] by blast+
    have ne: "?t \<noteq> []" using t(1) r by auto
    have rt: "r = int (length ?t)" using t(1,2) by linarith
    have tk: "taken w s ?t w1 ?s0"
      unfolding taken_def using t(3,4,6,7,8) rt r fd snt ne ph by (auto simp: eq_nat_nat_iff)
    let ?p = "take (s_cur_pos s) (s_buf s)"
    have rc: "int (s_cur_pos s) + s_rem s = int ASTROLOG_BUF_LEN" "DELIMITER \<notin> set ?p"
      using rcv by (simp_all add: receiving_def)
    have bl: "length (s_buf s) = ASTROLOG_BUF_LEN + 1"
      using proc_conn [OF inv a] by (simp add: conn_ok_def)
    have fits: "s_cur_pos s + length ?t \<le> length (s_buf s)" using rc(1) t(1,3) r bl by linarith
    have "take (s_cur_pos s + nat r) buf' = ?p @ ?t"
      using take_blit [OF fits] t(1) t(5) by metis
    moreover have "length (?p @ ?t) = s_cur_pos s + nat r" using fits t(1) by simp
    moreover have "DELIMITER \<notin> set (butlast (?p @ ?t))"
      using rc(2) ne upto_delim_butlast [of DELIMITER ?t] t(4) by (simp add: butlast_append)
    ultimately have "got_line (advance ?s0 r) (?p @ ?t)"
      using ne ok len bl rc(1) t(3) r by (simp add: got_line_def conn_ok_def)
    from got [OF run r rt m p tk _ this] show thesis by blast
  qed
qed

section \<open>The reading handlers\<close>

definition read_step :: "server \<Rightarrow> addr \<Rightarrow> server_state \<Rightarrow> server \<Rightarrow> bool" where
  "read_step w a s w' \<longleftrightarrow> proc_inv w' a \<and> frame a w w' \<and>
     (\<exists>s' t. mem w' a = Some s' \<and> taken w s t w' s' \<and> (finished s' \<longrightarrow> s_op s' = OP_READ) \<and>
        (t = [] \<longrightarrow> table w' = table w \<and>
           (phase_of s' = Failed \<or> phase_of s' = Done \<and> phase_of s = Reading [])) \<and>
        (t \<noteq> [] \<longrightarrow> (phase_of s', table w') = on_bytes (phase_of s) (table w) t))"

lemma read_stepI:
  assumes "proc_inv w' a" and "frame a w w'" and "mem w' a = Some s'" and "taken w s t w' s'"
    and "finished s' \<Longrightarrow> s_op s' = OP_READ"
    and "t = [] \<Longrightarrow> table w' = table w \<and>
           (phase_of s' = Failed \<or> phase_of s' = Done \<and> phase_of s = Reading [])"
    and "t \<noteq> [] \<Longrightarrow> (phase_of s', table w') = on_bytes (phase_of s) (table w) t"
  shows "read_step w a s w'"
  using assms unfolding read_step_def by blast

text \<open>The two ways a handler ends: with a plain write of the state, or with a refreshed deadline.\<close>

lemma read_step_put:
  assumes w1: "mem w1 a = Some s1" "proc_inv w1 a" "frame a w w1" "taken w s t w1 s1"
    and s': "conn_ok s'" "s_interm_buf s' = s_interm_buf s1" "s_ts s' = s_ts s1"
      "s_heap_ix s' = s_heap_ix s1" "finished s' \<Longrightarrow> s_op s' = OP_READ"
    and res: "t = [] \<Longrightarrow> table w1 = table w \<and>
           (phase_of s' = Failed \<or> phase_of s' = Done \<and> phase_of s = Reading [])"
      "t \<noteq> [] \<Longrightarrow> (phase_of s', table w1) = on_bytes (phase_of s) (table w) t"
  shows "read_step w a s (put_state w1 a s')"
proof (rule read_stepI)
  show "proc_inv (put_state w1 a s') a" by (rule proc_put(1) [OF w1(2,1)]) (simp_all add: s')
  show "frame a w (put_state w1 a s')"
    by (rule frame_trans [OF w1(3) frame_put(1) [OF w1(1)]]) (simp add: s')
  show "taken w s t (put_state w1 a s') s'" using w1(4) by (subst taken_cong) (simp_all add: s')
qed (use s' res in \<open>simp_all add: table_def\<close>)

lemma read_step_refresh:
  assumes w1: "mem w1 a = Some s1" "proc_inv w1 a" "frame a w w1" "taken w s t w1 s1" "t \<noteq> []"
    and s': "conn_ok s'" "s_interm_buf s' = s_interm_buf s1" "s_ts s' = s_ts s1"
      "s_heap_ix s' = s_heap_ix s1" "\<not> finished s'"
    and res: "(phase_of s', table w1) = on_bytes (phase_of s) (table w) t"
  shows "safe (update_server_state_ts os (put_state w1 a s') a) (read_step w a s)"
proof -
  have fd: "conn_fd s' = conn_fd s1" by (simp add: s')
  from put_refresh [OF w1(2,1) s'(1) fd s'(3,4), of os] show ?thesis
  proof (rule safe_mono, elim conjE exE)
    fix w' s'' assume w': "proc_inv w' a" "frame a w1 w'" "socks w' = socks w1"
      "zodiac_prognosises w' = zodiac_prognosises w1" "mem w' a = Some s''" "same_conn s' s''"
    have tk: "taken w s t w' s''"
      using w1(4) same_conn_fields(1) [OF w'(6)] by (subst taken_cong) (simp_all add: w' s')
    show "read_step w a s w'"
      by (rule read_stepI [OF w'(1) frame_trans [OF w1(3) w'(2)] w'(5) tk])
         (use w1(5) s' res w'(4,6) in \<open>simp_all add: same_conn_fields phase_of_same_conn table_def\<close>)
  qed
qed

text \<open>The test of the request type, \<open>len > strlen\<close> and \<open>memcmp\<close>, on a line.\<close>

lemma type_test:
  assumes "line_in s l" and "DELIMITER \<notin> set ty"
  shows "length l > length ty \<and> take (length ty) (s_buf s) = ty \<longleftrightarrow> prefix ty l"
proof -
  have l: "take (s_cur_pos s) (s_buf s) = l" "length l = s_cur_pos s" "is_line l"
    using assms(1) by (simp_all add: line_in_def)
  have "take (length ty) (s_buf s) = take (length ty) l" if "length ty < length l"
    unfolding l(1) [symmetric] using that l(2) by (simp add: min_def)
  moreover have "length ty < length l" if "prefix ty l"
  proof -
    have "ty \<noteq> l" using l(3) assms(2) by (auto simp: is_line_alt)
    with that show ?thesis by (metis prefix_length_less prefix_order.le_imp_less_or_eq)
  qed
  ultimately show ?thesis
    by (metis append_take_drop_id prefixI prefix_def append_eq_conv_conj)
qed

lemma type_len: "length STAR_REQUEST_TYPE = 10" "length CLIENT_REQUEST_TYPE = 10"
  by (simp_all add: c_consts)

lemma got_conn_error:
  assumes "got_line s l" and "s_state s' = STATE_ERROR" and "s_interm_buf s' = s_interm_buf s"
    and "length (s_buf s') = ASTROLOG_BUF_LEN + 1" and "s_buf s' ! ASTROLOG_BUF_LEN = NUL"
  shows "conn_ok s'"
  using assms by (simp add: got_line_def conn_ok_def phase_ok_def)

text \<open>What \<open>recv_piece\<close> yields, for a connection that has read the line \<open>l\<close> so far.\<close>

definition piece :: "server \<Rightarrow> addr \<Rightarrow> server_state \<Rightarrow> string \<Rightarrow> server \<Rightarrow> server_state \<Rightarrow> string \<Rightarrow> bool" where
  "piece w a s t w1 s1 l \<longleftrightarrow> t \<noteq> [] \<and> table w1 = table w \<and> got_line s1 l \<and>
     proc_inv w1 a \<and> frame a w w1 \<and>
     (\<exists>s0. mem w1 a = Some s0 \<and> taken w s t w1 s0 \<and> s_interm_buf s0 = s_interm_buf s1 \<and>
        s_ts s0 = s_ts s1 \<and> s_heap_ix s0 = s_heap_ix s1)"

lemma piece_put:
  assumes pc: "piece w a s t w1 s1 l" and s': "conn_ok s'" "s_interm_buf s' = s_interm_buf s1"
    "s_ts s' = s_ts s1" "s_heap_ix s' = s_heap_ix s1" "finished s' \<Longrightarrow> s_op s' = OP_READ"
    and res: "(phase_of s', table w) = on_bytes (phase_of s) (table w) t"
  shows "read_step w a s (put_state w1 a s')"
proof -
  from pc obtain s0 where s0: "mem w1 a = Some s0" "proc_inv w1 a" "frame a w w1" "taken w s t w1 s0"
    and "s_interm_buf s0 = s_interm_buf s1" "s_ts s0 = s_ts s1" "s_heap_ix s0 = s_heap_ix s1"
    "t \<noteq> []" "table w1 = table w" by (auto simp: piece_def)
  with s' res show ?thesis by (intro read_step_put [OF s0]) simp_all
qed

lemma piece_refresh:
  assumes pc: "piece w a s t w1 s1 l" and s': "conn_ok s'" "s_interm_buf s' = s_interm_buf s1"
    "s_ts s' = s_ts s1" "s_heap_ix s' = s_heap_ix s1" "\<not> finished s'"
    and res: "(phase_of s', table w) = on_bytes (phase_of s) (table w) t"
  shows "safe (update_server_state_ts os (put_state w1 a s') a) (read_step w a s)"
proof -
  from pc obtain s0 where s0: "mem w1 a = Some s0" "proc_inv w1 a" "frame a w w1" "taken w s t w1 s0" "t \<noteq> []"
    and "s_interm_buf s0 = s_interm_buf s1" "s_ts s0 = s_ts s1" "s_heap_ix s0 = s_heap_ix s1"
    "table w1 = table w" by (auto simp: piece_def)
  with s' res show ?thesis by (intro read_step_refresh [OF s0]) simp_all
qed

lemma piece_error:
  assumes pc: "piece w a s t w1 s1 l" and op: "s_op s1 = OP_READ"
    and b: "length buf' = ASTROLOG_BUF_LEN + 1" "buf' ! ASTROLOG_BUF_LEN = NUL"
    and res: "on_bytes (phase_of s) (table w) t = (Failed, table w)"
  shows "safe (Inr (put_state w1 a (s1\<lparr>s_state := STATE_ERROR, s_buf := buf'\<rparr>))) (read_step w a s)"
proof -
  have "got_line s1 l" using pc by (simp add: piece_def)
  then have "conn_ok (s1\<lparr>s_state := STATE_ERROR, s_buf := buf'\<rparr>)"
    by (rule got_conn_error) (simp_all add: b)
  moreover have "phase_of (s1\<lparr>s_state := STATE_ERROR, s_buf := buf'\<rparr>) = Failed"
    by (simp add: phase_of_def)
  ultimately have "read_step w a s (put_state w1 a (s1\<lparr>s_state := STATE_ERROR, s_buf := buf'\<rparr>))"
    by (intro piece_put [OF pc]) (simp_all add: op res)
  then show ?thesis by simp
qed

lemma state_buf_commute [simp]: "s\<lparr>s_buf := b, s_state := x\<rparr> = s\<lparr>s_state := x, s_buf := b\<rparr>"
  by simp

section \<open>The first line\<close>

text \<open>\<open>p\<close> is what had been read before, \<open>p @ t\<close> the line so far.\<close>

lemma star_line_ok:
  assumes pc: "piece w a s t w1 s1 (p @ t)" and op: "s_op s1 = OP_READ" and ph: "phase_of s = Reading p"
    and d: "last (p @ t) = DELIMITER" and ty: "prefix STAR_REQUEST_TYPE (p @ t)"
  shows "safe (parse_star_first_line os (put_state w1 a s1) a) (read_step w a s)"
proof -
  have g: "got_line s1 (p @ t)" using pc by (simp add: piece_def)
  have m: "mem (put_state w1 a s1) a = Some s1" by simp
  let ?z = "zodiac_of (drop (length STAR_REQUEST_TYPE) (butlast (p @ t)))"
  from parse_star_eq [OF m got_line_facts(5) [OF g d] ty, of os] obtain buf' where
    b: "length buf' = ASTROLOG_BUF_LEN + 1" "buf' ! ASTROLOG_BUF_LEN = NUL" and
    eq: "parse_star_first_line os (put_state w1 a s1) a =
      (case ?z of
         None \<Rightarrow> Inr (put_state (put_state w1 a s1) a (s1\<lparr>s_state := STATE_ERROR, s_buf := buf'\<rparr>))
       | Some i \<Rightarrow> update_server_state_ts os
           (put_state (put_state w1 a s1) a (s1\<lparr>s_buf := buf', s_cur_pos := 0,
              s_rem := int ASTROLOG_BUF_LEN, s_zodiac_ix := i, s_state := STATE_RECV_H,
              s_op := OP_READ\<rparr>)) a)" by blast
  show ?thesis
  proof (cases ?z)
    case None
    then have "on_bytes (phase_of s) (table w) t = (Failed, table w)"
      using d ty by (simp add: ph classify_def)
    from piece_error [OF pc op b this] show ?thesis by (simp add: eq None)
  next
    case (Some i)
    let ?s' = "s1\<lparr>s_buf := buf', s_cur_pos := 0, s_rem := int ASTROLOG_BUF_LEN,
      s_zodiac_ix := i, s_state := STATE_RECV_H, s_op := OP_READ\<rparr>"
    have "conn_ok ?s'"
      using b g zodiac_of_less [OF Some]
      by (simp add: conn_ok_def phase_ok_def receiving_def got_line_def ASTROLOG_BUF_LEN_def)
    moreover have "on_bytes (phase_of s) (table w) t = (Awaiting i [], table w)"
      using d ty Some by (simp add: ph classify_def)
    ultimately show ?thesis
      unfolding eq Some put_put option.case by (intro piece_refresh [OF pc])
        (simp_all add: phase_of_def finished_def)
  qed
qed

lemma client_line_ok:
  assumes pc: "piece w a s t w1 s1 (p @ t)" and op: "s_op s1 = OP_READ" and ph: "phase_of s = Reading p"
    and d: "last (p @ t) = DELIMITER" and ns: "\<not> prefix STAR_REQUEST_TYPE (p @ t)"
    and ty: "prefix CLIENT_REQUEST_TYPE (p @ t)"
  shows "safe (parse_client_first_line os (put_state w1 a s1) a) (read_step w a s)"
proof -
  have g: "got_line s1 (p @ t)" using pc by (simp add: piece_def)
  have ps: "prognoses_ok (zodiac_prognosises (put_state w1 a s1))"
    using pc by (simp add: piece_def proc_inv_def)
  have m: "mem (put_state w1 a s1) a = Some s1" by simp
  have tb: "table (put_state w1 a s1) = table w" using pc by (simp add: piece_def table_def)
  let ?z = "zodiac_of (drop (length CLIENT_REQUEST_TYPE) (butlast (p @ t)))"
  from parse_client_eq [OF m got_line_facts(5) [OF g d] ty ps, of os] obtain buf' where
    b: "length buf' = ASTROLOG_BUF_LEN + 1" "buf' ! ASTROLOG_BUF_LEN = NUL" and
    eq: "parse_client_first_line os (put_state w1 a s1) a =
      (case ?z of
         None \<Rightarrow> Inr (put_state (put_state w1 a s1) a (s1\<lparr>s_state := STATE_ERROR, s_buf := buf'\<rparr>))
       | Some i \<Rightarrow> update_server_state_ts os
           (put_state (put_state w1 a s1) a (s1\<lparr>s_buf := blit buf' 0 (reply_of (table w ! i)),
              s_rem := int (length (reply_of (table w ! i))), s_cur_pos := 0,
              s_state := STATE_SEND_H, s_op := OP_WRITE\<rparr>)) a)" unfolding tb by blast
  show ?thesis
  proof (cases ?z)
    case None
    then have "on_bytes (phase_of s) (table w) t = (Failed, table w)"
      using d ty ns by (simp add: ph classify_def)
    from piece_error [OF pc op b this] show ?thesis by (simp add: eq None)
  next
    case (Some i)
    let ?r = "reply_of (table w ! i)"
    let ?s' = "s1\<lparr>s_buf := blit buf' 0 ?r, s_rem := int (length ?r), s_cur_pos := 0,
      s_state := STATE_SEND_H, s_op := OP_WRITE\<rparr>"
    have r: "is_line ?r" "length ?r \<le> ASTROLOG_BUF_LEN"
      using table_line [OF ps zodiac_of_less [OF Some]] by (simp_all add: tb)
    then have "blit buf' 0 ?r ! ASTROLOG_BUF_LEN = NUL" using b by (simp add: nth_blit)
    then have "conn_ok ?s'"
      using b g r by (simp add: conn_ok_def phase_ok_def sending_def is_line_def got_line_def)
    moreover have "on_bytes (phase_of s) (table w) t = (Answering ?r, table w)"
      using d ty ns Some by (simp add: ph classify_def)
    ultimately show ?thesis
      unfolding eq Some put_put option.case by (intro piece_refresh [OF pc])
        (simp_all add: phase_of_def finished_def subarray_from_0)
  qed
qed

text \<open>The end of the input, for both reading handlers.\<close>

lemma stop_ok:
  assumes w1: "mem w1 a = Some (s\<lparr>s_interm_buf := b'\<rparr>)" "proc_inv w1 a" "frame a w w1"
      "taken w s [] w1 (s\<lparr>s_interm_buf := b'\<rparr>)" and z: "zodiac_prognosises w1 = zodiac_prognosises w"
    and rcv: "receiving s" and x: "x = STATE_ERROR \<or> x = STATE_SUCCESS \<and> phase_of s = Reading []"
  shows "read_step w a s (put_state w1 a (s\<lparr>s_interm_buf := b', s_state := x\<rparr>))"
  by (rule read_step_put [OF w1])
     (use x rcv z proc_conn [OF w1(2,1)] in
       \<open>auto simp: conn_ok_def phase_ok_def receiving_def phase_of_def table_def\<close>)

lemma receiving_room:
  assumes "conn_ok s" and "receiving s"
  shows "length (take (s_cur_pos s) (s_buf s)) = s_cur_pos s"
    and "nat (s_rem s) = ASTROLOG_BUF_LEN - s_cur_pos s"
  using assms by (auto simp: conn_ok_def receiving_def)

lemma pieceI:
  assumes "got_line (advance s0 r) l" and "mem w1 a = Some s0" and "proc_inv w1 a" and "frame a w w1"
    and "zodiac_prognosises w1 = zodiac_prognosises w" and "taken w s t w1 s0" and "t \<noteq> []"
  shows "piece w a s t w1 (advance s0 r) l"
  using assms by (auto simp: piece_def table_def)

text \<open>The two ways a call of a reading handler starts: the input has ended, or a piece is there.\<close>

lemma reading_cases:
  assumes inv: "proc_inv w a" and a: "mem w a = Some s"
    and st: "s_state s = STATE_RECV_FIRST_LINE \<or> s_state s = STATE_RECV_H"
  obtains
    (stop) r w1 b' where "recv_to_state w a = Inr (r, w1)" and "r \<le> 0"
      and "mem w1 a = Some (s\<lparr>s_interm_buf := b'\<rparr>)"
      and "\<And>x. x = STATE_ERROR \<or> x = STATE_SUCCESS \<and> phase_of s = Reading [] \<Longrightarrow>
             read_step w a s (put_state w1 a (s\<lparr>s_interm_buf := b', s_state := x\<rparr>))"
  | (got) r w1 t s0 where "recv_to_state w a = Inr (r, w1)" and "0 < r" and "mem w1 a = Some s0"
      and "piece w a s t w1 (advance s0 r) (take (s_cur_pos s) (s_buf s) @ t)"
      and "s_state s0 = s_state s" and "s_zodiac_ix s0 = s_zodiac_ix s" and "s_op s0 = OP_READ"
proof -
  have ok: "conn_ok s" by (rule proc_conn [OF inv a])
  then have rcv: "receiving s" using st by (auto simp: conn_ok_def phase_ok_def)
  have rm: "room (phase_of s) = nat (s_rem s)"
    using st receiving_room [OF ok rcv] by (elim disjE) (simp_all add: phase_of_def)
  show thesis
  proof (rule recv_piece [OF inv a rcv rm])
    fix r w1 b'
    assume run: "recv_to_state w a = Inr (r, w1)" "r \<le> 0"
      and w1: "mem w1 a = Some (s\<lparr>s_interm_buf := b'\<rparr>)" "proc_inv w1 a" "frame a w w1"
      and z: "zodiac_prognosises w1 = zodiac_prognosises w"
      and tk: "taken w s [] w1 (s\<lparr>s_interm_buf := b'\<rparr>)"
    show thesis by (rule stop [OF run w1(1)]) (rule stop_ok [OF w1 tk z rcv])
  next
    fix r w1 t s0
    assume run: "recv_to_state w a = Inr (r, w1)" "0 < r" "r = int (length t)"
      and w1: "mem w1 a = Some s0" "proc_inv w1 a" "frame a w w1"
        "zodiac_prognosises w1 = zodiac_prognosises w" "taken w s t w1 s0"
      and ex: "\<exists>b' buf'. s0 = s\<lparr>s_interm_buf := b', s_buf := buf'\<rparr>"
      and g: "got_line (advance s0 r) (take (s_cur_pos s) (s_buf s) @ t)"
    have "piece w a s t w1 (advance s0 r) (take (s_cur_pos s) (s_buf s) @ t)"
      by (rule pieceI [OF g w1]) (use run in auto)
    from got [OF run(1,2) w1(1) this] show thesis using ex rcv by (auto simp: receiving_def)
  qed
qed

lemma piece_facts:
  assumes "piece w a s t w1 s1 l"
  shows "got_line s1 l" and "proc_inv w1 a" and "length (s_buf s1) = ASTROLOG_BUF_LEN + 1"
    and "s_buf s1 ! ASTROLOG_BUF_LEN = NUL"
  using assms by (auto simp: piece_def got_line_def)

text \<open>A piece that does not end the line: the connection waits for more, or the buffer is full.\<close>

lemma unfinished_line_ok:
  assumes pc: "piece w a s t w1 s1 (p @ t)" and op: "s_op s1 = OP_READ"
    and nd: "last (p @ t) \<noteq> DELIMITER"
    and ph: "phase_of s = Reading p \<and> s_state s1 = STATE_RECV_FIRST_LINE \<or>
      phase_of s = Awaiting (s_zodiac_ix s1) p \<and> s_state s1 = STATE_RECV_H \<and> s_zodiac_ix s1 < ZODIAC_NUM"
  shows "safe (if s_rem s1 = 0 then Inr (put_state w1 a (s1\<lparr>s_state := STATE_ERROR\<rparr>))
     else Inr (put_state w1 a s1)) (read_step w a s)"
proof -
  note g = piece_facts(1) [OF pc]
  note gf = got_line_facts [OF g]
  show ?thesis
  proof (cases "s_rem s1 = 0")
    case True
    then have "on_bytes (phase_of s) (table w) t = (Failed, table w)" using nd gf(3) ph by auto
    from piece_error [OF pc op piece_facts(3,4) [OF pc] this] show ?thesis using True by simp
  next
    case False
    have "conn_ok s1"
      using g op ph False gf(6) [OF nd]
      by (auto simp: conn_ok_def phase_ok_def receiving_def got_line_def)
    moreover have "(phase_of s1, table w) = on_bytes (phase_of s) (table w) t" "\<not> finished s1"
      using g ph nd gf(3) False by (auto simp: phase_of_def got_line_def finished_def)
    ultimately have "read_step w a s (put_state w1 a s1)" by (intro piece_put [OF pc]) simp_all
    with False show ?thesis by simp
  qed
qed

text \<open>A line that is no request.\<close>

lemma other_line_ok:
  assumes pc: "piece w a s t w1 s1 (p @ t)" and op: "s_op s1 = OP_READ" and ph: "phase_of s = Reading p"
    and d: "last (p @ t) = DELIMITER" and ns: "\<not> prefix STAR_REQUEST_TYPE (p @ t)"
    and nc: "\<not> prefix CLIENT_REQUEST_TYPE (p @ t)"
  shows "safe (bindc (clear_last s1) (\<lambda>s2. bindc (log_str (s_buf s2) 0) (\<lambda>_.
     Inr (put_state w1 a (s2\<lparr>s_state := STATE_ERROR\<rparr>))))) (read_step w a s)"
proof -
  from got_line_facts(9) [OF piece_facts(1) [OF pc]] obtain buf' where
    b: "clear_last s1 = Inr (s1\<lparr>s_buf := buf'\<rparr>)" "log_str buf' 0 = Inr ()"
      "length buf' = ASTROLOG_BUF_LEN + 1" "buf' ! ASTROLOG_BUF_LEN = NUL" by blast
  have "on_bytes (phase_of s) (table w) t = (Failed, table w)"
    using d ns nc by (simp add: ph classify_def)
  from piece_error [OF pc op b(3,4) this] show ?thesis unfolding b(1) using b(2) by simp
qed

lemma handle_first_line_ok:
  assumes inv: "proc_inv w a" and a: "mem w a = Some s" and st: "s_state s = STATE_RECV_FIRST_LINE"
  shows "safe (handle_first_line os w a) (read_step w a s)"
proof -
  let ?p = "take (s_cur_pos s) (s_buf s)"
  have ph: "phase_of s = Reading ?p" using st by (simp add: phase_of_def)
  show ?thesis
  proof (rule reading_cases [OF inv a disjI1 [OF st]])
    fix r w1 b' assume "recv_to_state w a = Inr (r, w1)" "r \<le> 0" "mem w1 a = Some (s\<lparr>s_interm_buf := b'\<rparr>)"
      and stop: "\<And>x. x = STATE_ERROR \<or> x = STATE_SUCCESS \<and> phase_of s = Reading [] \<Longrightarrow>
             read_step w a s (put_state w1 a (s\<lparr>s_interm_buf := b', s_state := x\<rparr>))"
    then have "\<exists>x. handle_first_line os w a = Inr (put_state w1 a (s\<lparr>s_interm_buf := b', s_state := x\<rparr>)) \<and>
        (x = STATE_ERROR \<or> x = STATE_SUCCESS \<and> phase_of s = Reading [])"
      by (auto simp: handle_first_line_def ph)
    then show ?thesis using stop by auto
  next
    fix r w1 t s0
    assume run: "recv_to_state w a = Inr (r, w1)" "0 < r" "mem w1 a = Some s0"
      and pc: "piece w a s t w1 (advance s0 r) (?p @ t)"
      and s0: "s_state s0 = s_state s" "s_op s0 = OP_READ"
    let ?s1 = "advance s0 r" and ?l = "?p @ t" and ?w2 = "put_state w1 a (advance s0 r)"
    have s1: "s_state ?s1 = STATE_RECV_FIRST_LINE" "s_op ?s1 = OP_READ" using s0 st by simp_all
    note gf = got_line_facts [OF piece_facts(1) [OF pc]]
    have unfold: "handle_first_line os w a =
        (if last ?l = DELIMITER then
           if length STAR_REQUEST_TYPE < length ?l \<and>
              take (length STAR_REQUEST_TYPE) (s_buf ?s1) = STAR_REQUEST_TYPE
           then parse_star_first_line os ?w2 a
           else if length CLIENT_REQUEST_TYPE < length ?l \<and>
                   take (length CLIENT_REQUEST_TYPE) (s_buf ?s1) = CLIENT_REQUEST_TYPE
           then parse_client_first_line os ?w2 a
           else bindc (clear_last ?s1) (\<lambda>s2. bindc (log_str (s_buf s2) 0) (\<lambda>_.
                  Inr (put_state w1 a (s2\<lparr>s_state := STATE_ERROR\<rparr>))))
         else if s_rem ?s1 = 0 then Inr (put_state w1 a (?s1\<lparr>s_state := STATE_ERROR\<rparr>))
         else Inr ?w2)"
      using run gf(2,4,7) piece_facts(3) [OF pc]
      by (simp add: handle_first_line_def Let_def type_len subarray_from_0 ASTROLOG_BUF_LEN_def
          del: length_append)
    show ?thesis
    proof (cases "last ?l = DELIMITER")
      case False
      with unfinished_line_ok [OF pc s1(2) False] s1(1) ph show ?thesis by (simp add: unfold)
    next
      case d: True
      note types = type_test [OF gf(5) [OF d] types_ok(1)] type_test [OF gf(5) [OF d] types_ok(2)]
      show ?thesis
        unfolding unfold types using d star_line_ok [OF pc s1(2) ph d] client_line_ok [OF pc s1(2) ph d]
          other_line_ok [OF pc s1(2) ph d] by auto
    qed
  qed
qed

section \<open>The prognosis\<close>

lemma put_prognoses:
  "(put_state w a s)\<lparr>zodiac_prognosises := ps\<rparr> = put_state (w\<lparr>zodiac_prognosises := ps\<rparr>) a s"
  by (simp add: put_state_def)

text \<open>Copying a line over the start of a row stores it.\<close>

lemma store_line:
  assumes ps: "prognoses_ok (zodiac_prognosises w)" and i: "i < ZODIAC_NUM"
    and l: "is_line l" "length l \<le> ASTROLOG_BUF_LEN"
  defines "ps' \<equiv> (zodiac_prognosises w)[i := blit (zodiac_prognosises w ! i) 0 l]"
  shows "prognoses_ok ps'" and "map stored ps' = (table w)[i := Some l]"
    and "arr_get (zodiac_prognosises w) i = Inr (zodiac_prognosises w ! i)"
    and "memcpy (zodiac_prognosises w ! i) 0 l = Inr (blit (zodiac_prognosises w ! i) 0 l)"
    and "arr_set (zodiac_prognosises w) i (blit (zodiac_prognosises w ! i) 0 l) = Inr ps'"
proof -
  have n: "i < length (zodiac_prognosises w)" using ps i by (simp add: prognoses_ok_def)
  then have row: "length (zodiac_prognosises w ! i) = ASTROLOG_BUF_LEN + 1"
    using ps by (simp add: prognoses_ok_def)
  with l have fits: "0 + length l \<le> length (zodiac_prognosises w ! i)" by simp
  then show "memcpy (zodiac_prognosises w ! i) 0 l = Inr (blit (zodiac_prognosises w ! i) 0 l)" by simp
  show "arr_get (zodiac_prognosises w) i = Inr (zodiac_prognosises w ! i)" using n by simp
  show "arr_set (zodiac_prognosises w) i (blit (zodiac_prognosises w ! i) 0 l) = Inr ps'"
    using n by (simp add: ps'_def)
  have "length (blit (zodiac_prognosises w ! i) 0 l) = ASTROLOG_BUF_LEN + 1" using fits row by simp
  then show "prognoses_ok ps'"
    using ps by (auto simp: ps'_def prognoses_ok_def dest: set_update_subset_insert [THEN subsetD])
  have "stored (blit (zodiac_prognosises w ! i) 0 l) = Some l"
    by (simp add: blit_def stored_line [OF l])
  then show "map stored ps' = (table w)[i := Some l]" by (simp add: ps'_def table_def map_update)
qed

text \<open>A complete prognosis.\<close>

lemma prognosis_line_ok:
  assumes pc: "piece w a s t w1 s1 (p @ t)" and ph: "phase_of s = Awaiting i p"
    and i: "s_zodiac_ix s1 = i" "i < ZODIAC_NUM" and d: "last (p @ t) = DELIMITER"
    and b: "length buf' = ASTROLOG_BUF_LEN + 1" "buf' ! ASTROLOG_BUF_LEN = NUL"
  shows "safe (update_server_state_ts os
     (put_state (w1\<lparr>zodiac_prognosises :=
          (zodiac_prognosises w1)[i := blit (zodiac_prognosises w1 ! i) 0 (p @ t)]\<rparr>) a
        (s1\<lparr>s_rem := int (length STAR_REPLY_SUCCESS), s_buf := blit buf' 0 STAR_REPLY_SUCCESS,
            s_cur_pos := 0, s_zodiac_ix := ZODIAC_UNKOWN, s_state := STATE_SEND_THANKS,
            s_op := OP_WRITE\<rparr>)) a) (read_step w a s)"
proof -
  let ?l = "p @ t" and ?r = STAR_REPLY_SUCCESS
  let ?ps = "(zodiac_prognosises w1)[i := blit (zodiac_prognosises w1 ! i) 0 ?l]"
  let ?w1 = "w1\<lparr>zodiac_prognosises := ?ps\<rparr>"
  let ?s' = "s1\<lparr>s_rem := int (length ?r), s_buf := blit buf' 0 ?r, s_cur_pos := 0,
            s_zodiac_ix := ZODIAC_UNKOWN, s_state := STATE_SEND_THANKS, s_op := OP_WRITE\<rparr>"
  from pc obtain s0 where s0: "mem w1 a = Some s0" "taken w s t w1 s0"
      "s_interm_buf s0 = s_interm_buf s1" "s_ts s0 = s_ts s1" "s_heap_ix s0 = s_heap_ix s1"
    and p1: "proc_inv w1 a" "frame a w w1" and g: "got_line s1 ?l" and ne: "t \<noteq> []"
    and tb: "table w1 = table w" by (auto simp: piece_def)
  have l: "is_line ?l" "length ?l \<le> ASTROLOG_BUF_LEN"
    using got_line_facts(5) [OF g d] by (simp_all add: line_in_def)
  have ps: "prognoses_ok (zodiac_prognosises w1)" using p1 by (simp add: proc_inv_def)
  note st = store_line [OF ps i(2) l]
  note pp = proc_prognoses [OF p1(1) st(1)]
  have r: "length ?r = 8" by (simp add: c_consts)
  then have "blit buf' 0 ?r ! ASTROLOG_BUF_LEN = NUL" using b by (simp add: nth_blit ASTROLOG_BUF_LEN_def)
  then have ok: "conn_ok ?s'"
    using b g r by (simp add: conn_ok_def phase_ok_def sending_def got_line_def ASTROLOG_BUF_LEN_def)
  have tk: "taken w s t ?w1 s0" using s0(2) by (subst taken_cong) simp_all
  have spec: "on_bytes (phase_of s) (table w) t = (Thanking ?r, (table w)[i := Some ?l])"
    using d by (simp add: ph)
  have ph': "phase_of ?s' = Thanking ?r" "\<not> finished ?s'"
    by (simp_all add: phase_of_def subarray_from_0 finished_def)
  have "table ?w1 = (table w)[i := Some ?l]" using st(2) tb by (simp add: table_def)
  with spec ph' show ?thesis
    by (intro read_step_refresh [OF _ pp(1) frame_trans [OF p1(2) pp(2)] tk ne ok])
       (use s0 in simp_all)
qed

lemma handle_recv_h_ok:
  assumes inv: "proc_inv w a" and a: "mem w a = Some s" and st: "s_state s = STATE_RECV_H"
  shows "safe (handle_recv_h os w a) (read_step w a s)"
proof -
  have z: "s_zodiac_ix s < ZODIAC_NUM"
    using proc_conn [OF inv a] st by (simp add: conn_ok_def phase_ok_def)
  let ?p = "take (s_cur_pos s) (s_buf s)"
  have ph: "phase_of s = Awaiting (s_zodiac_ix s) ?p" using st by (simp add: phase_of_def)
  show ?thesis
  proof (rule reading_cases [OF inv a disjI2 [OF st]])
    fix r w1 b' assume "recv_to_state w a = Inr (r, w1)" "r \<le> 0" "mem w1 a = Some (s\<lparr>s_interm_buf := b'\<rparr>)"
      and stop: "\<And>x. x = STATE_ERROR \<or> x = STATE_SUCCESS \<and> phase_of s = Reading [] \<Longrightarrow>
             read_step w a s (put_state w1 a (s\<lparr>s_interm_buf := b', s_state := x\<rparr>))"
    then show ?thesis by (auto simp: handle_recv_h_def)
  next
    fix r w1 t s0
    assume run: "recv_to_state w a = Inr (r, w1)" "0 < r" "mem w1 a = Some s0"
      and pc: "piece w a s t w1 (advance s0 r) (?p @ t)"
      and s0: "s_state s0 = s_state s" "s_zodiac_ix s0 = s_zodiac_ix s" "s_op s0 = OP_READ"
    let ?s1 = "advance s0 r" and ?l = "?p @ t"
    note g = piece_facts(1) [OF pc]
    note gf = got_line_facts [OF g]
    show ?thesis
    proof (cases "last ?l = DELIMITER")
      case nd: False
      have "handle_recv_h os w a =
          (if s_rem ?s1 = 0 then Inr (put_state w1 a (?s1\<lparr>s_state := STATE_ERROR\<rparr>))
           else Inr (put_state w1 a ?s1))"
        using run gf(2,7) nd by (simp add: handle_recv_h_def Let_def)
      with unfinished_line_ok [OF pc _ nd] s0 st ph z show ?thesis by simp
    next
      case d: True
      have l: "is_line ?l" "length ?l \<le> ASTROLOG_BUF_LEN"
        using gf(5) [OF d] by (simp_all add: line_in_def)
      have "prognoses_ok (zodiac_prognosises w1)" using piece_facts(2) [OF pc] by (simp add: proc_inv_def)
      note store = store_line(3-5) [OF this z l]
      have "take (length ?l) (s_buf ?s1) = ?l" using g unfolding got_line_def by metis
      with gf(8) have read: "mem_read (s_buf ?s1) 0 (size_t (int ASTROLOG_BUF_LEN - s_rem ?s1)) = Inr ?l"
        unfolding gf(4) by (simp add: subarray_from_0 del: length_append)
      from gf(9) obtain buf' where b: "clear_last ?s1 = Inr (?s1\<lparr>s_buf := buf'\<rparr>)"
        "log_str buf' 0 = Inr ()" "length buf' = ASTROLOG_BUF_LEN + 1" "buf' ! ASTROLOG_BUF_LEN = NUL"
        by blast
      have cp: "memcpy buf' 0 STAR_REPLY_SUCCESS = Inr (blit buf' 0 STAR_REPLY_SUCCESS)"
        using b(3) by (simp add: c_consts)
      have "s_zodiac_ix ?s1 = s_zodiac_ix s" using s0 by simp
      from prognosis_line_ok [OF pc ph this z d b(3,4), of os] show ?thesis
        using run gf(2) d store read b(1,2) cp s0(2)
        by (simp add: handle_recv_h_def Let_def put_prognoses)
    qed
  qed
qed

section \<open>The reply\<close>

fun unsent :: "phase \<Rightarrow> string" where
  "unsent (Thanking d) = d"
| "unsent (Answering d) = d"
| "unsent ph = []"

definition send_step :: "server \<Rightarrow> addr \<Rightarrow> server_state \<Rightarrow> server \<Rightarrow> bool" where
  "send_step w a s w' \<longleftrightarrow> proc_inv w' a \<and> frame a w w' \<and> table w' = table w \<and>
     (\<exists>s'. mem w' a = Some s' \<and> s_interm_buf s' = s_interm_buf s \<and>
        (case sock_send (fd_sock w (conn_fd s)) (unsent (phase_of s)) of (r, sk') \<Rightarrow>
           fd_sock w' (conn_fd s) = sk' \<and>
           (if r < 0 then phase_of s' = Failed \<and> s_op s' = OP_WRITE
            else phase_of s' = on_sent (phase_of s) (nat r))))"

abbreviation reply_left :: "server_state \<Rightarrow> string" where
  "reply_left s \<equiv> subarray (s_buf s) (s_cur_pos s) (nat (s_rem s))"

lemma sending_facts:
  assumes ok: "conn_ok s" and st: "s_state s = STATE_SEND_THANKS \<or> s_state s = STATE_SEND_H"
  shows "sending s" and "s_op s = OP_WRITE" and "0 < s_rem s" and "int (s_cur_pos s) + s_rem s \<le> 80"
    and "size_t (s_rem s) = nat (s_rem s)" and "s_cur_pos s + nat (s_rem s) \<le> length (s_buf s)"
    and "length (reply_left s) = nat (s_rem s)" and "unsent (phase_of s) = reply_left s"
    and "length (s_buf s) = ASTROLOG_BUF_LEN + 1" and "s_buf s ! ASTROLOG_BUF_LEN = NUL"
    and "buffer_ok (s_interm_buf s)"
proof -
  show snd: "sending s" and bl: "length (s_buf s) = ASTROLOG_BUF_LEN + 1"
    "s_buf s ! ASTROLOG_BUF_LEN = NUL" "buffer_ok (s_interm_buf s)"
    using assms by (auto simp: conn_ok_def phase_ok_def)
  show "s_op s = OP_WRITE" "0 < s_rem s" "int (s_cur_pos s) + s_rem s \<le> 80"
    "size_t (s_rem s) = nat (s_rem s)" and fit: "s_cur_pos s + nat (s_rem s) \<le> length (s_buf s)"
    using snd bl by (auto simp: sending_def ASTROLOG_BUF_LEN_def)
  show "length (reply_left s) = nat (s_rem s)" using fit by simp
  show "unsent (phase_of s) = reply_left s" using st by (auto simp: phase_of_def)
qed

lemma fd_sock_put_sock:
  assumes "proc_inv w a" and "mem w a = Some s"
  shows "fd_sock (put_state (put_sock w (conn_fd s) sk) a s') (conn_fd s) = sk"
proof -
  have "socks w (conn_fd s) \<noteq> None" using assms by (auto simp: proc_inv_def attached_def)
  then show ?thesis by (auto simp: fd_sock_def sock_at_def put_sock_def put_at_def)
qed

text \<open>The two ways a send ends, as for the reading handlers.\<close>

lemma send_step_put:
  assumes inv: "proc_inv w a" and a: "mem w a = Some s"
    and send: "sock_send (fd_sock w (conn_fd s)) (unsent (phase_of s)) = (r, sk')"
    and s': "conn_ok s'" "s_interm_buf s' = s_interm_buf s" "s_ts s' = s_ts s" "s_heap_ix s' = s_heap_ix s"
    and res: "r < 0 \<Longrightarrow> phase_of s' = Failed \<and> s_op s' = OP_WRITE"
      "0 \<le> r \<Longrightarrow> phase_of s' = on_sent (phase_of s) (nat r)"
  shows "send_step w a s (put_state (put_sock w (conn_fd s) sk') a s')"
proof -
  have fd: "conn_fd s' = conn_fd s" by (simp add: s')
  have "proc_inv (put_state (put_sock w (conn_fd s) sk') a s') a"
    by (rule proc_put(2) [OF inv a s'(1) fd s'(3,4)])
  moreover have "frame a w (put_state (put_sock w (conn_fd s) sk') a s')"
    by (rule frame_put(2) [OF a fd])
  ultimately show ?thesis
    using send s' res fd_sock_put_sock [OF inv a] by (simp add: send_step_def table_def)
qed

lemma send_step_refresh:
  assumes inv: "proc_inv w a" and a: "mem w a = Some s"
    and send: "sock_send (fd_sock w (conn_fd s)) (unsent (phase_of s)) = (r, sk')" and r: "0 \<le> r"
    and s': "conn_ok s'" "s_interm_buf s' = s_interm_buf s" "s_ts s' = s_ts s" "s_heap_ix s' = s_heap_ix s"
    and res: "phase_of s' = on_sent (phase_of s) (nat r)"
  shows "safe (update_server_state_ts os (put_state (put_sock w (conn_fd s) sk') a s') a) (send_step w a s)"
proof -
  let ?w1 = "put_sock w (conn_fd s) sk'"
  have fd: "conn_fd s' = conn_fd s" by (simp add: s')
  have p1: "proc_inv (put_state ?w1 a s) a"
    by (rule proc_put(2) [OF inv a proc_conn [OF inv a]]) simp_all
  have f1: "frame a w (put_state ?w1 a s)" by (rule frame_put(2) [OF a]) simp
  have m1: "mem (put_state ?w1 a s) a = Some s" by simp
  from put_refresh [OF p1 m1 s'(1) fd s'(3,4), of os, unfolded put_put] show ?thesis
  proof (rule safe_mono, elim conjE exE)
    fix w' s'' assume w': "proc_inv w' a" "frame a (put_state ?w1 a s) w'"
      "socks w' = socks (put_state ?w1 a s)"
      "zodiac_prognosises w' = zodiac_prognosises (put_state ?w1 a s)"
      "mem w' a = Some s''" "same_conn s' s''"
    have "fd_sock w' (conn_fd s) = sk'"
      using fd_sock_put_sock [OF inv a, of sk' s] w'(3) by (simp add: fd_sock_def sock_at_def)
    with w' frame_trans [OF f1 w'(2)] s'(2) res r show "send_step w a s w'"
      by (simp add: send_step_def send same_conn_fields phase_of_same_conn table_def)
  qed
qed

lemma handle_send_reply_eq:
  assumes ok: "conn_ok s" and a: "mem w a = Some s"
    and st: "s_state s = STATE_SEND_THANKS \<or> s_state s = STATE_SEND_H"
    and send: "sock_send (fd_sock w (conn_fd s)) (reply_left s) = (bytes, sk')"
  shows "handle_send_reply os w a =
    (let w1 = put_sock w (conn_fd s) sk'; s1 = advance s bytes in
     if bytes < 0 then Inr (put_state w1 a (s\<lparr>s_state := STATE_ERROR\<rparr>))
     else if s_rem s1 = 0 then
       bindc (clear_last s1) (\<lambda>s2. bindc (log_str (s_buf s2) 0) (\<lambda>_.
         update_server_state_ts os (put_state w1 a (s2\<lparr>s_cur_pos := 0,
           s_rem := int ASTROLOG_BUF_LEN, s_state := STATE_RECV_FIRST_LINE, s_op := OP_READ\<rparr>)) a))
     else Inr (put_state w1 a s1))"
  using a send sending_facts(5,6) [OF ok st] by (simp add: handle_send_reply_def Let_def)

lemma handle_send_reply_ok:
  assumes inv: "proc_inv w a" and a: "mem w a = Some s"
    and st: "s_state s = STATE_SEND_THANKS \<or> s_state s = STATE_SEND_H"
  shows "safe (handle_send_reply os w a) (send_step w a s)"
proof -
  have ok: "conn_ok s" by (rule proc_conn [OF inv a])
  note sf = sending_facts [OF ok st]
  obtain bytes sk' where "sock_send (fd_sock w (conn_fd s)) (reply_left s) = (bytes, sk')" by fastforce
  note run = handle_send_reply_eq [OF ok a st this, of os, unfolded Let_def]
    and send = this [folded sf(8)]
  let ?w1 = "put_sock w (conn_fd s) sk'" and ?s1 = "advance s bytes"
  show ?thesis
  proof (cases "bytes < 0")
    case True
    have "send_step w a s (put_state ?w1 a (s\<lparr>s_state := STATE_ERROR\<rparr>))"
      by (rule send_step_put [OF inv a send])
         (use True sf in \<open>simp_all add: conn_ok_def phase_ok_def phase_of_def\<close>)
    with True show ?thesis by (simp add: run)
  next
    case False
    then have b: "0 \<le> bytes" "bytes \<le> s_rem s"
      using sock_send_result [OF send] sf(3,7,8) by auto
    show ?thesis
    proof (cases "bytes = s_rem s")
      case False
      with b have lt: "bytes < s_rem s" by simp
      have "send_step w a s (put_state ?w1 a ?s1)"
      proof (rule send_step_put [OF inv a send])
        show "conn_ok ?s1" using ok st lt b(1) by (auto simp: conn_ok_def phase_ok_def sending_def)
        show "phase_of ?s1 = on_sent (phase_of s) (nat bytes)"
          using st lt b(1) sf(7)
          by (auto simp: phase_of_def subarray_def drop_take nat_diff_distrib add.commute)
      qed (use b in simp_all)
      with False b show ?thesis by (simp add: run)
    next
      case full: True
      have "\<exists>buf'. clear_last ?s1 = Inr (?s1\<lparr>s_buf := buf'\<rparr>) \<and> log_str buf' 0 = Inr () \<and>
          length buf' = ASTROLOG_BUF_LEN + 1 \<and> buf' ! ASTROLOG_BUF_LEN = NUL"
        using clear_last_ok [of ?s1] sf full by (simp add: ASTROLOG_BUF_LEN_def)
      then obtain buf' where b': "clear_last ?s1 = Inr (?s1\<lparr>s_buf := buf'\<rparr>)" "log_str buf' 0 = Inr ()"
        "length buf' = ASTROLOG_BUF_LEN + 1" "buf' ! ASTROLOG_BUF_LEN = NUL" by blast
      let ?s' = "s\<lparr>s_buf := buf', s_cur_pos := 0, s_rem := int ASTROLOG_BUF_LEN,
        s_state := STATE_RECV_FIRST_LINE, s_op := OP_READ\<rparr>"
      have "conn_ok ?s'"
        using b' sf(11) by (simp add: conn_ok_def phase_ok_def receiving_def ASTROLOG_BUF_LEN_def)
      moreover have "phase_of ?s' = on_sent (phase_of s) (nat bytes)"
        using st sf(7) full by (auto simp: phase_of_def)
      ultimately have "safe (update_server_state_ts os (put_state ?w1 a ?s') a) (send_step w a s)"
        by (intro send_step_refresh [OF inv a send b(1)]) simp_all
      with full b b' show ?thesis by (simp add: run)
    qed
  qed
qed

end
