(* ===== verification/Server_Loop.thy ===== *)
theory Server_Loop
  imports Server_Handlers
begin

text \<open>
  The \<open>do\<close> loop of \<open>update_state\<close>: it consumes the bytes that are in the connection's buffer exactly
  as \<open>consume\<close> does on the protocol machine, and it fails to end in exactly one situation, a
  connection that has failed with unread bytes left.
\<close>

section \<open>One iteration\<close>

lemma dispatch_finished: "mem w a = Some s \<Longrightarrow> finished s \<Longrightarrow> dispatch os w a = Inr w"
  by (auto simp: dispatch_def finished_def)

lemma dispatch_reads:
  assumes "proc_inv w a" and "mem w a = Some s" and "reads (phase_of s)"
  shows "safe (dispatch os w a) (read_step w a s)"
  using assms handle_first_line_ok [OF assms(1,2), of os] handle_recv_h_ok [OF assms(1,2), of os]
  by (cases "s_state s") (simp_all add: dispatch_def phase_of_def)

lemma dispatch_sends:
  assumes "proc_inv w a" and "mem w a = Some s" and "\<not> reads (phase_of s)" and "\<not> finished s"
  shows "safe (dispatch os w a) (send_step w a s)"
  using assms handle_send_reply_ok [OF assms(1,2), of os]
  by (cases "s_state s") (simp_all add: dispatch_def phase_of_def finished_def)

lemma reads_facts:
  assumes "conn_ok s" and "reads (phase_of s)"
  shows "s_op s = OP_READ" and "0 < room (phase_of s)" and "\<not> finished s" and "receiving s"
    and "room (phase_of s) = nat (s_rem s)"
proof -
  show rcv: "receiving s" using assms
    by (cases "s_state s") (simp_all add: phase_of_def conn_ok_def phase_ok_def)
  then show "s_op s = OP_READ" by (simp add: receiving_def)
  show "\<not> finished s" using assms(2) by (cases "s_state s") (simp_all add: phase_of_def finished_def)
  note rr = receiving_room [OF assms(1) rcv]
  show rm: "room (phase_of s) = nat (s_rem s)"
    using assms(2) by (cases "s_state s") (simp_all only: phase_of_def server_state_type.case reads.simps room.simps rr)
  then show "0 < room (phase_of s)" using rcv by (simp add: receiving_def)
qed

lemma sends_op:
  assumes "conn_ok s" and "\<not> reads (phase_of s)" and "\<not> finished s"
  shows "s_op s = OP_WRITE" and "unsent (phase_of s) \<noteq> []"
proof -
  have snd: "sending s" and len: "length (s_buf s) = ASTROLOG_BUF_LEN + 1"
    using assms by (cases "s_state s", simp_all add: phase_of_def finished_def conn_ok_def phase_ok_def)+
  then show "s_op s = OP_WRITE" by (simp add: sending_def)
  have "length (subarray (s_buf s) (s_cur_pos s) (nat (s_rem s))) = nat (s_rem s)"
    using snd len by (intro length_subarray) (simp add: sending_def, linarith)
  then have "subarray (s_buf s) (s_cur_pos s) (nat (s_rem s)) \<noteq> []" using snd by (auto simp: sending_def)
  then show "unsent (phase_of s) \<noteq> []"
    using assms by (cases "s_state s") (simp_all add: phase_of_def finished_def)
qed

lemma unread_pending: "conn_ok s \<Longrightarrow> unread s \<longleftrightarrow> s_op s = OP_READ \<and> pending (s_interm_buf s) \<noteq> []"
  by (simp add: unread_def conn_ok_def pending_empty)

text \<open>A reading iteration on a non-empty buffer takes the piece \<open>consume\<close> takes.\<close>

lemma taken_pending:
  assumes ok: "conn_ok s" and tk: "taken w s t w' s'" and ur: "unread s"
  shows "t = upto_delim DELIMITER (take (room (phase_of s)) (pending (s_interm_buf s)))"
    and "pending (s_interm_buf s') = drop (length t) (pending (s_interm_buf s))" and "t \<noteq> []"
    and "pending (s_interm_buf s) = t @ pending (s_interm_buf s')"
proof -
  let ?p = "pending (s_interm_buf s)"
  have pne: "?p \<noteq> []" using ur ok by (simp add: unread_pending)
  then show ne: "t \<noteq> []" using tk by (auto simp: taken_def conn_input_def input_def)
  have p': "pending (s_interm_buf s') = drop (length t) ?p"
    and inp: "conn_input w s = t @ conn_input w' s'"
    and sk: "fd_sock w' (conn_fd s) = fd_sock w (conn_fd s)" and fd: "conn_fd s' = conn_fd s"
    and idem: "t = upto_delim DELIMITER t" and le: "length t \<le> room (phase_of s)"
    and stop: "pending (s_interm_buf s') = [] \<or> length t = room (phase_of s) \<or> last t = DELIMITER"
    using tk ne ur by (auto simp: taken_def)
  show "pending (s_interm_buf s') = drop (length t) ?p" by (rule p')
  have "?p @ stream (rx (fd_sock w (conn_fd s))) =
      t @ drop (length t) ?p @ stream (rx (fd_sock w (conn_fd s)))"
    using inp sk fd p' by (simp add: conn_input_def input_def)
  then have p: "?p = t @ drop (length t) ?p" by simp
  then show "?p = t @ pending (s_interm_buf s')" unfolding p' .
  from p obtain zs where zs: "?p = t @ zs" by blast
  then have zs0: "drop (length t) ?p = zs" by simp
  from stop consider "zs = []" | "length t = room (phase_of s)" | "last t = DELIMITER"
    unfolding p' zs0 by blast
  then show "t = upto_delim DELIMITER (take (room (phase_of s)) ?p)"
  proof cases
    case 1
    with zs le idem show ?thesis by simp
  next
    case 2
    with zs idem show ?thesis by simp
  next
    case 3
    have "take (room (phase_of s)) ?p = t @ take (room (phase_of s) - length t) zs"
      using zs le by simp
    with upto_delim_prefix [OF idem ne 3] show ?thesis by simp
  qed
qed

section \<open>The loop\<close>

text \<open>The defect of the loop: a finished connection with unread bytes keeps it running for ever.\<close>

lemma update_loop_stuck:
  assumes "mem w a = Some s" and "finished s" and "unread s"
  shows "update_loop os w a = None"
proof -
  have "\<forall>s. mem w a = Some s \<longrightarrow> finished s \<longrightarrow> \<not> unread s" if "update_loop os w a = Some y" for y
    by (rule update_loop.raw_induct [OF _ that,
          where P = "\<lambda>os w a y. \<forall>s. mem w a = Some s \<longrightarrow> finished s \<longrightarrow> \<not> unread s"])
       (auto simp: dispatch_finished)
  with assms show ?thesis by (cases "update_loop os w a") auto
qed

definition loop_end ::
  "server \<Rightarrow> addr \<Rightarrow> server_state \<Rightarrow> phase \<times> prognoses \<times> string \<Rightarrow> server c_result option \<Rightarrow> bool" where
  "loop_end w a s res r \<longleftrightarrow>
     (case res of (ph, ps, rest) \<Rightarrow>
        (case r of
           None \<Rightarrow> ph = Failed \<and> rest \<noteq> []
         | Some r \<Rightarrow> safe r (\<lambda>w'. proc_inv w' a \<and> frame a w w' \<and> table w' = ps \<and>
             sent (fd_sock w' (conn_fd s)) = sent (fd_sock w (conn_fd s)) \<and>
             (ph = Failed \<longrightarrow> rest = []) \<and>
             (\<exists>s'. mem w' a = Some s' \<and> \<not> unread s' \<and> phase_of s' = ph \<and>
                pending (s_interm_buf s') = rest))))"

lemma loop_end_trans:
  assumes "loop_end w1 a s1 res r" and "frame a w w1" and "conn_fd s1 = conn_fd s"
    and "sent (fd_sock w1 (conn_fd s)) = sent (fd_sock w (conn_fd s))"
  shows "loop_end w a s res r"
  using assms frame_trans [OF assms(2)]
  by (auto simp: loop_end_def split: prod.splits option.splits elim!: safe_mono)

lemma consume_stop: "room ph = 0 \<or> xs = [] \<Longrightarrow> consume ph ps xs = (ph, ps, xs)"
  by (subst consume.simps) auto

lemma loop_endI:
  assumes "proc_inv w a" and "mem w a = Some s" and "\<not> unread s" and "room (phase_of s) = 0 \<or> p = []"
    and "pending (s_interm_buf s) = p" and "finished s \<longrightarrow> s_op s = OP_READ"
  shows "loop_end w a s (consume (phase_of s) (table w) p) (Some (Inr w))"
proof -
  have "phase_of s = Failed \<longrightarrow> p = []"
    using assms(3,5,6) unread_pending [OF proc_conn [OF assms(1,2)]] by (auto simp: finished_phase)
  with assms show ?thesis by (simp add: loop_end_def consume_stop)
qed

lemma not_reads_room: "\<not> reads ph \<Longrightarrow> room ph = 0"
  by (cases ph) simp_all

lemma update_loop_consume:
  assumes "proc_inv w a" and "mem w a = Some s" and "unread s" and "reads (phase_of s)"
  shows "loop_end w a s (consume (phase_of s) (table w) (pending (s_interm_buf s))) (update_loop os w a)"
  using assms
proof (induction "length (pending (s_interm_buf s))" arbitrary: w s rule: less_induct)
  case less
  note inv = less.prems(1) and a = less.prems(2) and ur = less.prems(3)
  let ?p = "pending (s_interm_buf s)" and ?ph = "phase_of s"
  have ok: "conn_ok s" by (rule proc_conn [OF inv a])
  note rf = reads_facts [OF ok less.prems(4)]
  have pne: "?p \<noteq> []" using ur ok by (simp add: unread_pending)
  note step = dispatch_reads [OF inv a less.prems(4), of os]
  show ?case
  proof (cases "dispatch os w a")
    case (Inl e)
    then have "update_loop os w a = Some (Inl e)" by (simp add: update_loop.simps)
    with step Inl show ?thesis by (simp add: loop_end_def split: prod.splits)
  next
    case (Inr w')
    with step obtain s' t where w': "proc_inv w' a" "frame a w w'" and s': "mem w' a = Some s'"
      and tk: "taken w s t w' s'" and op: "finished s' \<longrightarrow> s_op s' = OP_READ"
      and ph: "t \<noteq> [] \<longrightarrow> (phase_of s', table w') = on_bytes ?ph (table w) t"
      by (auto simp: read_step_def)
    note tp = taken_pending [OF ok tk ur]
    have ok': "conn_ok s'" by (rule proc_conn [OF w'(1) s'])
    have ph': "(phase_of s', table w') = on_bytes ?ph (table w) t" using ph tp(3) by simp
    note pre = tp(4)
    have cons: "consume ?ph (table w) ?p = consume (phase_of s') (table w') (pending (s_interm_buf s'))"
    proof -
      have n: "length (upto_delim DELIMITER (take (room ?ph) ?p)) = length t" using tp(1) by simp
      have "take (length t) ?p = t" "drop (length t) ?p = pending (s_interm_buf s')"
        using pre by (metis append_eq_conv_conj)+
      then show ?thesis
        using pne rf(2) by (subst consume.simps) (simp add: Let_def n flip: ph')
    qed
    have fd: "conn_fd s' = conn_fd s" "sent (fd_sock w' (conn_fd s)) = sent (fd_sock w (conn_fd s))"
      using tk by (simp_all add: taken_def)
    have loop: "update_loop os w a = (if unread s' then update_loop os w' a else Some (Inr w'))"
      using Inr s' by (simp add: update_loop.simps)
    have "loop_end w' a s' (consume (phase_of s') (table w') (pending (s_interm_buf s'))) (update_loop os w a)"
    proof (cases "unread s'")
      case False
      have "room (phase_of s') = 0 \<or> pending (s_interm_buf s') = []"
        using False unread_pending [OF ok'] reads_facts(1) [OF ok'] not_reads_room by blast
      from loop_endI [OF w'(1) s' False this _ op] False show ?thesis by (simp add: loop)
    next
      case True
      then have p': "pending (s_interm_buf s') \<noteq> []" "s_op s' = OP_READ"
        using unread_pending [OF ok'] by auto
      show ?thesis
      proof (cases "reads (phase_of s')")
        case reads: True
        have "length (pending (s_interm_buf s')) < length ?p" using pre tp(3) by simp
        from less.hyps [OF this w'(1) s' True reads] True show ?thesis by (simp add: loop)
      next
        case False
        then have fin: "finished s'" using sends_op(1) [OF ok' False] p'(2) by auto
        have "phase_of s' \<noteq> Done"
          using ph' less.prems(4) by (cases ?ph) (auto simp: Let_def split: if_splits request.splits)
        then have "phase_of s' = Failed" using fin by (simp add: finished_phase)
        with p'(1) False show ?thesis
          by (simp add: loop True update_loop_stuck [OF s' fin True] loop_end_def consume_stop)
      qed
    qed
    from loop_end_trans [OF this w'(2) fd(1) fd(2)] show ?thesis by (simp add: cons)
  qed
qed

end
