(* ===== verification/Server_Update.thy ===== *)
theory Server_Update
  imports Server_Loop
begin

text \<open>
  \<open>update_state\<close> as a whole: removal of a finished connection, the switch between waiting for
  input and waiting for output, and the effect of one readiness event on the protocol machine.
\<close>

section \<open>Removing a connection\<close>

text \<open>The part of the invariant that holds at every point, and that the final cleanup relies on.\<close>

definition base_inv :: "server \<Rightarrow> bool" where
  "base_inv w \<longleftrightarrow> heap_ok w \<and> prognoses_ok (zodiac_prognosises w) \<and> owned w \<and>
     (\<forall>a s. mem w a = Some s \<longrightarrow> conn_ok s \<and> attached w a s)"

lemma base_of: "server_inv w \<Longrightarrow> base_inv w" "proc_inv w a \<Longrightarrow> base_inv w"
  by (simp_all add: server_inv_def proc_inv_def base_inv_def)

lemma server_inv_base:
  "server_inv w \<longleftrightarrow> base_inv w \<and> (\<forall>a s. mem w a = Some s \<longrightarrow> quiet s \<and> armed w s)"
  unfolding server_inv_def base_inv_def by blast

lemma conn_fd_unique:
  assumes "base_inv w" and "mem w a = Some s" and "mem w b = Some t" and "conn_fd t = conn_fd s"
  shows "b = a"
proof -
  have "attached w a s" "attached w b t" using assms(1-3) by (simp_all add: base_inv_def)
  with assms(4) show ?thesis by (auto simp: attached_def)
qed

lemma but_slots_upd_same: "but_slots m' = but_slots (m(a := x)) \<Longrightarrow> b \<noteq> a \<Longrightarrow> but_slots m' b = but_slots m b"
  by (simp add: but_slots_def)

lemma close_inv:
  assumes inv: "base_inv w" and a: "mem w a = Some s"
    and heap: "heap_ok w'" and m: "but_slots (mem w') = but_slots ((mem w)(a := None))"
    and so: "socks w' = (socks w)(conn_fd s := None)" and it: "interest w' = (interest w)(conn_fd s := None)"
    and zp: "zodiac_prognosises w' = zodiac_prognosises w"
  shows "base_inv w'"
    and "(\<And>b t. b \<noteq> a \<Longrightarrow> mem w b = Some t \<Longrightarrow> quiet t \<and> armed w t) \<Longrightarrow> server_inv w'"
proof -
  have gone: "mem w' a = None" by (rule but_slots_None [OF m]) simp
  have others: "\<exists>t i. mem w b = Some t \<and> t' = t\<lparr>s_heap_ix := i\<rparr> \<and> b \<noteq> a \<and> conn_fd t \<noteq> conn_fd s"
    if t': "mem w' b = Some t'" for b t'
  proof -
    have ne: "b \<noteq> a" using gone t' by auto
    from other_conn [OF but_slots_upd_same [OF m ne] t'] obtain t i where
      t: "mem w b = Some t" "t' = t\<lparr>s_heap_ix := i\<rparr>" by blast
    with conn_fd_unique [OF inv a t(1)] ne show ?thesis by blast
  qed
  have conns: "conn_ok t' \<and> attached w' b t'" if t': "mem w' b = Some t'" for b t'
  proof -
    from others [OF t'] obtain t i where
      t: "mem w b = Some t" "t' = t\<lparr>s_heap_ix := i\<rparr>" "b \<noteq> a" "conn_fd t \<noteq> conn_fd s" by blast
    with inv have "conn_ok t" "attached w b t" by (auto simp: base_inv_def)
    with t so it show ?thesis by (simp add: attached_def)
  qed
  have "owned w'"
    unfolding owned_def
  proof (intro allI impI)
    fix f ev b assume i': "interest w' f = Some (ev, Some b)"
    then have i: "interest w f = Some (ev, Some b)" and fs: "f \<noteq> conn_fd s" by (auto simp: it split: if_splits)
    moreover have "owned w" using inv by (simp add: base_inv_def)
    ultimately obtain t where t: "mem w b = Some t" "conn_fd t = f" unfolding owned_def by blast
    then have ne: "b \<noteq> a" using a fs by auto
    from other_conn [OF but_slots_upd_same [OF m ne, symmetric] t(1)] obtain t' j where
      "mem w' b = Some t'" "t = t'\<lparr>s_heap_ix := j\<rparr>" by blast
    with t show "\<exists>t'. mem w' b = Some t' \<and> conn_fd t' = f" by auto
  qed
  with conns heap zp inv show base: "base_inv w'" by (simp add: base_inv_def)
  assume q: "\<And>b t. b \<noteq> a \<Longrightarrow> mem w b = Some t \<Longrightarrow> quiet t \<and> armed w t"
  have "quiet t' \<and> armed w' t'" if "mem w' b = Some t'" for b t'
    using others [OF that] q by (auto simp: armed_def it)
  with base show "server_inv w'" by (simp add: server_inv_base)
qed

text \<open>What a removed connection leaves behind.\<close>

definition removed :: "server \<Rightarrow> addr \<Rightarrow> server_state \<Rightarrow> server \<Rightarrow> bool" where
  "removed w a s w' \<longleftrightarrow> base_inv w' \<and> but_slots (mem w') = but_slots ((mem w)(a := None)) \<and>
     capacity (heap w') = capacity (heap w) \<and> Suc (heap_size (heap w')) = heap_size (heap w) \<and>
     socks w' = (socks w)(conn_fd s := None) \<and> interest w' = (interest w)(conn_fd s := None) \<and>
     zodiac_prognosises w' = zodiac_prognosises w"

lemma configure_frame:
  assumes "configure_epoll os w eop fd ev p = (r, w')"
  shows "mem w' = mem w" "heap w' = heap w" "socks w' = socks w"
    "zodiac_prognosises w' = zodiac_prognosises w" "f \<noteq> fd \<Longrightarrow> interest w' f = interest w f"
    "r = 0 \<or> r = -1"
  using assms by (auto simp: configure_epoll_def epoll_ctl_def Let_def split: prod.splits if_splits)

lemma heap_ok_fields:
  "heap w' = heap w \<Longrightarrow> mem w' = mem w \<Longrightarrow> heap_ok w' = heap_ok w"
  by (simp add: heap_ok_def)

lemma remove_conn:
  assumes inv: "base_inv w" and a: "mem w a = Some s"
  shows "\<exists>w'. remove_server_state os w a = Inr w' \<and> removed w a s w' \<and> (proc_inv w a \<longrightarrow> server_inv w')"
proof -
  let ?fd = "conn_fd s"
  obtain r w1 where ep: "configure_epoll os w EPOLL_CTL_DEL ?fd EPOLLNONE None = (r, w1)" by fastforce
  note cf = configure_frame [OF ep]
  have ok1: "heap_ok w1" using inv heap_ok_fields [OF cf(2,1)] by (simp add: base_inv_def)
  have a1: "mem w1 a = Some s" using a cf by simp
  from heap_detach [OF ok1 a1] obtain h' m' where
    rem: "remove_and_destroy w1 a = Inr (w1\<lparr>heap := h', mem := m'\<rparr>)" and
    ok: "heap_ok (w1\<lparr>heap := h', mem := m'\<rparr>)" and bs: "but_slots m' = but_slots ((mem w1)(a := None))" and
    cap: "capacity h' = capacity (heap w1)" "Suc (heap_size h') = heap_size (heap w1)" by blast
  let ?w' = "close_fd (w1\<lparr>heap := h', mem := m'\<rparr>) ?fd"
  have run: "remove_server_state os w a = Inr ?w'"
    using a ep rem by (simp add: remove_server_state_def)
  have it: "interest ?w' = (interest w)(?fd := None)"
    using cf(5) by (auto simp: close_fd_def fun_eq_iff)
  have ok': "heap_ok ?w'" and bs': "but_slots (mem ?w') = but_slots ((mem w)(a := None))"
    and so: "socks ?w' = (socks w)(?fd := None)" and zp: "zodiac_prognosises ?w' = zodiac_prognosises w"
    using ok bs cf by (simp_all add: close_fd_def heap_ok_def)
  note cl = close_inv [OF inv a ok' bs' so it zp]
  have "removed w a s ?w'"
    using cl(1) bs' so zp cap cf it by (simp add: removed_def) (simp add: close_fd_def)
  moreover have "server_inv ?w'" if "proc_inv w a"
    using that by (intro cl(2)) (simp_all add: proc_inv_def)
  ultimately show ?thesis using run by blast
qed

section \<open>The whole loop\<close>

lemma one_step:
  assumes "proc_inv w a" and "mem w a = Some s"
  shows "safe (dispatch os w a) (\<lambda>w'. proc_inv w' a \<and> frame a w w')"
proof -
  consider "finished s" | "reads (phase_of s)" | "\<not> finished s" "\<not> reads (phase_of s)" by blast
  then show ?thesis
  proof cases
    case 1
    with assms show ?thesis by (simp add: dispatch_finished)
  next
    case 2
    from dispatch_reads [OF assms 2, of os] show ?thesis by (rule safe_mono) (simp add: read_step_def)
  next
    case 3
    from dispatch_sends [OF assms 3(2,1), of os] show ?thesis by (rule safe_mono) (simp add: send_step_def)
  qed
qed

text \<open>The loop ends with the connection idle, leaves the process, or never ends.\<close>

definition loop_ok :: "server \<Rightarrow> addr \<Rightarrow> server c_result option \<Rightarrow> bool" where
  "loop_ok w a r \<longleftrightarrow>
     (case r of None \<Rightarrow> True
      | Some r \<Rightarrow> safe r (\<lambda>w'. proc_inv w' a \<and> frame a w w' \<and> (\<exists>s'. mem w' a = Some s' \<and> \<not> unread s')))"

lemma loop_end_ok: "loop_end w a s res r \<Longrightarrow> loop_ok w a r"
  by (auto simp: loop_end_def loop_ok_def split: prod.splits option.splits elim!: safe_mono)

lemma loop_ok_trans: "loop_ok w1 a r \<Longrightarrow> frame a w w1 \<Longrightarrow> loop_ok w a r"
  by (auto simp: loop_ok_def split: option.splits elim!: safe_mono intro: frame_trans)

lemma proc_mem: "proc_inv w a \<Longrightarrow> \<exists>s. mem w a = Some s"
  by (auto simp: proc_inv_def)

lemma unread_loop_ok:
  assumes "proc_inv w a" and "mem w a = Some s" and "unread s"
  shows "loop_ok w a (update_loop os w a)"
proof (cases "finished s")
  case True
  from update_loop_stuck [OF assms(2) this assms(3)] show ?thesis by (simp add: loop_ok_def)
next
  case False
  have "s_op s = OP_READ" using assms(3) by (simp add: unread_def)
  then have "reads (phase_of s)" using sends_op(1) [OF proc_conn [OF assms(1,2)] _ False] by auto
  from update_loop_consume [OF assms this] show ?thesis by (rule loop_end_ok)
qed

lemma update_loop_ok:
  assumes inv: "proc_inv w a" and a: "mem w a = Some s"
  shows "loop_ok w a (update_loop os w a)"
proof (cases "dispatch os w a")
  case (Inl e)
  with one_step [OF inv a, of os] show ?thesis by (simp add: update_loop.simps loop_ok_def)
next
  case (Inr w')
  with one_step [OF inv a, of os] have w': "proc_inv w' a" "frame a w w'" by simp_all
  from proc_mem [OF w'(1)] obtain s' where s': "mem w' a = Some s'" ..
  have loop: "update_loop os w a = (if unread s' then update_loop os w' a else Some (Inr w'))"
    using Inr s' by (simp add: update_loop.simps)
  have "loop_ok w' a (if unread s' then update_loop os w' a else Some (Inr w'))"
    using unread_loop_ok [OF w'(1) s'] w'(1) s' by (simp add: loop_ok_def)
  from loop_ok_trans [OF this w'(2)] show ?thesis by (simp add: loop)
qed

section \<open>After the loop\<close>

text \<open>
  The outcome of \<open>update_state\<close>: with result 0 the process satisfies its invariant again, with
  result -1 (\<open>EPOLL_CTL_MOD\<close> failed) it is in a state the cleanup can work on.
\<close>

definition others_same :: "addr \<Rightarrow> server \<Rightarrow> server \<Rightarrow> bool" where
  "others_same a w w' \<longleftrightarrow> capacity (heap w') = capacity (heap w) \<and>
     (\<forall>b. b \<noteq> a \<longrightarrow> but_slots (mem w') b = but_slots (mem w) b)"

text \<open>
  No leaked descriptors: every open one is in \<open>fds\<close> or is that of a connection.
\<close>

definition tracked :: "server \<Rightarrow> int set \<Rightarrow> bool" where
  "tracked w fds \<longleftrightarrow>
     (\<forall>fd. socks w fd \<noteq> None \<longrightarrow> fd \<in> fds \<or> (\<exists>a s. mem w a = Some s \<and> conn_fd s = fd))"

definition tracks :: "server \<Rightarrow> server \<Rightarrow> bool" where
  "tracks w w' \<longleftrightarrow> (\<forall>fds. tracked w fds \<longrightarrow> tracked w' fds)"

lemma tracks_refl [simp]: "tracks w w"
  by (simp add: tracks_def)

lemma tracks_trans: "tracks w w1 \<Longrightarrow> tracks w1 w2 \<Longrightarrow> tracks w w2"
  by (simp add: tracks_def)

lemma tracks_same: "socks w' = socks w \<Longrightarrow> mem w' = mem w \<Longrightarrow> tracks w w'"
  by (simp add: tracks_def tracked_def)

text \<open>A connection of \<open>w\<close> other than \<open>a\<close> is found in \<open>w'\<close> with the same descriptor.\<close>

lemma kept_conn:
  assumes "but_slots (mem w') b = but_slots (mem w) b" and "mem w b = Some s"
  shows "\<exists>s'. mem w' b = Some s' \<and> conn_fd s' = conn_fd s"
  using other_conn [OF assms(1) [symmetric] assms(2)] by auto

lemma tracks_frame:
  assumes fr: "frame a w w'" and s: "mem w a = Some s" and s': "mem w' a = Some s'"
  shows "tracks w w'"
  unfolding tracks_def tracked_def
proof (intro allI impI)
  fix fds fd
  assume tr: "\<forall>fd. socks w fd \<noteq> None \<longrightarrow> fd \<in> fds \<or> (\<exists>a s. mem w a = Some s \<and> conn_fd s = fd)"
    and op: "socks w' fd \<noteq> None"
  have "socks w fd \<noteq> None" using op fr unfolding frame_def by metis
  with tr consider "fd \<in> fds" | b t where "mem w b = Some t" "conn_fd t = fd" by blast
  then show "fd \<in> fds \<or> (\<exists>a s. mem w' a = Some s \<and> conn_fd s = fd)"
  proof cases
    case 2
    show ?thesis
    proof (cases "b = a")
      case True
      then have "conn_fd s' = fd" using 2 s s' fr by (simp add: frame_def fd_of_def)
      with s' show ?thesis by blast
    next
      case False
      then have "but_slots (mem w') b = but_slots (mem w) b" using fr by (simp add: frame_def)
      from kept_conn [OF this 2(1)] 2(2) show ?thesis by auto
    qed
  qed blast
qed

lemma tracks_removed:
  assumes rem: "removed w a s w'" and s: "mem w a = Some s"
  shows "tracks w w'"
  unfolding tracks_def tracked_def
proof (intro allI impI)
  fix fds fd
  assume tr: "\<forall>fd. socks w fd \<noteq> None \<longrightarrow> fd \<in> fds \<or> (\<exists>a s. mem w a = Some s \<and> conn_fd s = fd)"
    and op: "socks w' fd \<noteq> None"
  have op': "socks w fd \<noteq> None" "fd \<noteq> conn_fd s" using op rem by (auto simp: removed_def split: if_splits)
  with tr consider "fd \<in> fds" | b t where "mem w b = Some t" "conn_fd t = fd" by blast
  then show "fd \<in> fds \<or> (\<exists>a s. mem w' a = Some s \<and> conn_fd s = fd)"
  proof cases
    case 2
    then have "b \<noteq> a" using op'(2) s by auto
    moreover have "but_slots (mem w') = but_slots ((mem w)(a := None))" using rem by (simp add: removed_def)
    ultimately have "but_slots (mem w') b = but_slots (mem w) b" by (rule but_slots_upd_same [rotated])
    from kept_conn [OF this 2(1)] 2(2) show ?thesis by auto
  qed blast
qed

definition no_new_socks :: "server \<Rightarrow> server \<Rightarrow> bool" where
  "no_new_socks w w' \<longleftrightarrow> (\<forall>fd. socks w fd = None \<longrightarrow> socks w' fd = None)"

definition update_post :: "server \<Rightarrow> addr \<Rightarrow> int \<times> server \<Rightarrow> bool" where
  "update_post w a res \<longleftrightarrow>
     (case res of (r, w') \<Rightarrow> others_same a w w' \<and> no_new_socks w w' \<and> tracks w w' \<and>
        (\<forall>fd. fd \<noteq> fd_of w a \<longrightarrow> socks w' fd = socks w fd) \<and>
        (r = 0 \<and> server_inv w' \<or> r = -1 \<and> proc_inv w' a))"

lemma removed_others: "removed w a s w' \<Longrightarrow> others_same a w w' \<and> no_new_socks w w'"
  using but_slots_upd_same [of "mem w'" "mem w" a None]
  by (auto simp: removed_def others_same_def no_new_socks_def)

lemma settled_inv:
  assumes inv: "proc_inv w a" and a: "mem w a = Some s" and q: "quiet s" and ar: "armed w s"
  shows "server_inv w"
proof -
  have "b = a \<or> b \<noteq> a" for b by blast
  with inv a q ar show ?thesis unfolding server_inv_def proc_inv_def by (metis option.inject)
qed

lemma rearm:
  assumes inv: "proc_inv w a" and a: "mem w a = Some s" and q: "quiet s"
    and ep: "configure_epoll os w EPOLL_CTL_MOD (conn_fd s) (event_of (s_op s)) (Some a) = (r, w')"
  shows "r = 0 \<Longrightarrow> server_inv w'" and "r \<noteq> 0 \<Longrightarrow> r = -1 \<and> proc_inv w' a"
proof -
  note cf = configure_frame [OF ep]
  obtain ev where ev: "interest w (conn_fd s) = Some (ev, Some a)"
    using inv a by (auto simp: proc_inv_def attached_def)
  have it: "interest w' = (if r = 0 then (interest w)(conn_fd s := Some (event_of (s_op s), Some a)) else interest w)"
    using ep by (auto simp: configure_epoll_def epoll_ctl_def Let_def split: if_splits)
  have at: "attached w' b t" if "attached w b t" for b t
    using that it ev cf(3) by (auto simp: attached_def)
  have ar: "armed w' t" if "mem w b = Some t" "b \<noteq> a" "armed w t" for b t
    using that conn_fd_unique [OF base_of(2) [OF inv] a that(1)] it by (auto simp: armed_def)
  have ow: "owned w'"
  proof -
    have "owned w" using inv by (simp add: proc_inv_def)
    then show ?thesis using a cf(1) it by (auto simp: owned_def split: if_splits)
  qed
  have p: "proc_inv w' a"
    using inv at ar ow cf(1,4) heap_ok_fields [OF cf(2,1)] unfolding proc_inv_def by metis
  show "r \<noteq> 0 \<Longrightarrow> r = -1 \<and> proc_inv w' a" using p cf(6) by blast
  assume "r = 0"
  then have "armed w' s" using it by (auto simp: armed_def)
  then show "server_inv w'" using a cf(1) q by (intro settled_inv [OF p]) simp_all
qed

lemma settle_ok:
  assumes inv: "proc_inv w a" and a: "mem w a = Some s" and nu: "\<not> unread s"
    and ar: "s_op s = init \<Longrightarrow> armed w s"
  shows "safe (settle_state os w a init) (update_post w a)"
proof (cases "finished s")
  case True
  from remove_conn [OF base_of(2) [OF inv] a, of os] inv obtain w' where
    "remove_server_state os w a = Inr w'" "removed w a s w'" "server_inv w'" by blast
  with removed_others [of w a s w'] tracks_removed [OF _ a] a True show ?thesis
    by (simp add: settle_state_def finished_def update_post_def) (simp add: removed_def fd_of_def)
next
  case False
  then have q: "quiet s" using nu by (simp add: quiet_def)
  show ?thesis
  proof (cases "s_op s = init")
    case True
    with settled_inv [OF inv a q ar] a False show ?thesis
      by (simp add: settle_state_def finished_def update_post_def others_same_def no_new_socks_def)
  next
    case ne: False
    obtain r w' where ep: "configure_epoll os w EPOLL_CTL_MOD (conn_fd s) (event_of (s_op s)) (Some a) = (r, w')"
      by fastforce
    have "settle_state os w a init = Inr (if r \<noteq> 0 then -1 else 0, w')"
      using a False ne ep by (auto simp: settle_state_def finished_def event_of_def)
    with rearm [OF inv a q ep] configure_frame [OF ep] tracks_same [of w' w] show ?thesis
      by (auto simp: update_post_def others_same_def no_new_socks_def)
  qed
qed

lemma update_state_ok:
  assumes inv: "proc_inv w a" and a: "mem w a = Some s" and ar: "armed w s"
  shows "case update_state os w a of None \<Rightarrow> True | Some r \<Rightarrow> safe r (update_post w a)"
proof (cases "update_loop os w a")
  case None
  with a show ?thesis by (simp add: update_state_def)
next
  case (Some r)
  note ok = update_loop_ok [OF inv a, of os, unfolded Some loop_ok_def option.case]
  show ?thesis
  proof (cases r)
    case (Inl e)
    with ok Some a show ?thesis by (simp add: update_state_def)
  next
    case (Inr w')
    with ok obtain s' where w': "proc_inv w' a" "frame a w w'" "mem w' a = Some s'" "\<not> unread s'" by auto
    have "conn_fd s' = conn_fd s" "interest w' = interest w"
      using w'(2,3) a by (simp_all add: frame_def fd_of_def)
    with ar have "s_op s' = s_op s \<Longrightarrow> armed w' s'" by (simp add: armed_def)
    from settle_ok [OF w'(1,3,4) this, where os = os] have "safe (settle_state os w' a (s_op s)) (update_post w' a)" .
    then have "safe (settle_state os w' a (s_op s)) (update_post w a)"
      by (rule safe_mono) (use w'(2) tracks_trans [OF tracks_frame [OF w'(2) a w'(3)]] in
        \<open>auto simp: update_post_def others_same_def no_new_socks_def frame_def\<close>)
    with a Some Inr show ?thesis by (simp add: update_state_def)
  qed
qed

end
