(* ===== verification/Server_Main.thy ===== *)
theory Server_Main
  imports Server_Protocol
begin

text \<open>
  The event loop of the server (\<open>main\<close> of \<open>astrolog.c\<close> and the functions it calls): the timeout of
  \<open>epoll_wait\<close>, new connections, ready connections, expired connections, and the final cleanup.
\<close>

section \<open>Timeouts\<close>

text \<open>\<open>(*p_elem)->ts\<close> after a successful \<open>binary_heap_top\<close>.\<close>

definition top_deadline :: "server \<Rightarrow> nat \<Rightarrow> (addr \<times> int) c_result" where
  "top_deadline w i =
     bindc (arr_get (arr (heap w)) i) (\<lambda>a.
     bindc (deref (mem w) a) (\<lambda>s. Inr (a, ACCUM_TIME_NS (s_ts s))))"

definition min_timeout :: "os \<Rightarrow> server \<Rightarrow> (int \<times> server) c_result" where
  "min_timeout os w =
     bindc (get_cur_time_ns os w) (\<lambda>(cur_ts_ns, w').
       case binary_heap_top (heap w') of
         (_, Some i) \<Rightarrow>
           bindc (top_deadline w' i) (\<lambda>(_, min_ts_ns).
             if min_ts_ns \<le> cur_ts_ns then Inr (0, w')
             else Inr (to_int32 ((min_ts_ns - cur_ts_ns) div SEC_US_FACTOR), w'))
       | (_, None) \<Rightarrow> Inr (-1, w'))"

section \<open>New connections\<close>

definition process_new_connection :: "os \<Rightarrow> server \<Rightarrow> accept_result \<Rightarrow> (int \<times> server) c_result" where
  "process_new_connection os w acc =
     (case acc of
        Accept_error \<Rightarrow> Inr (-1, w)
      | Accepted con_socket sk \<Rightarrow>
          let w1 = w\<lparr>socks := (socks w)(con_socket \<mapsto> sk)\<rparr> in
          if heap_size (heap w1) \<ge> capacity (heap w1) then Inr (0, close_fd w1 con_socket)
          else
            bindc (create_server_state os w1 con_socket) (\<lambda>(r, w2).
              if r \<noteq> 0 then Inr (-1, close_fd w2 con_socket) else Inr (0, w2)))"

section \<open>Expired connections\<close>

partial_function (option) discard_loop :: "os \<Rightarrow> server \<Rightarrow> int \<Rightarrow> server c_result option" where
  "discard_loop os w cur_ts_ns =
     (case binary_heap_top (heap w) of
        (_, None) \<Rightarrow> Some (Inr w)
      | (_, Some i) \<Rightarrow>
          (case top_deadline w i of
             Inl e \<Rightarrow> Some (Inl e)
           | Inr (a, t) \<Rightarrow>
               if t \<le> cur_ts_ns then
                 (case deref (mem w) a of
                    Inl e \<Rightarrow> Some (Inl e)
                  | Inr s \<Rightarrow>
                      (case update_state os (put_state w a (s\<lparr>s_state := STATE_ERROR\<rparr>)) a of
                         None \<Rightarrow> None
                       | Some (Inl e) \<Rightarrow> Some (Inl e)
                       | Some (Inr (_, w')) \<Rightarrow> discard_loop os w' cur_ts_ns))
               else Some (Inr w)))"

definition discard_expired_connections :: "os \<Rightarrow> server \<Rightarrow> server c_result option" where
  "discard_expired_connections os w =
     (case get_cur_time_ns os w of
        Inl e \<Rightarrow> Some (Inl e)
      | Inr (cur_ts_ns, w') \<Rightarrow> discard_loop os w' cur_ts_ns)"

section \<open>The loop\<close>

text \<open>
  A ready event carries the registered pointer, \<open>NULL\<close> for the listening socket (then \<open>accept4\<close>
  gives its result). \<open>epoll_wait\<close> fails or returns a list of ready events.
\<close>

datatype ready_event = Ready_listen accept_result | Ready_conn addr

datatype wait_result = Wait_error | Wait_events "ready_event list"

text \<open>The body of the \<open>for\<close> loop; the flag tells whether the loop goes on (no \<open>goto\<close>).\<close>

definition handle_event :: "os \<Rightarrow> server \<Rightarrow> ready_event \<Rightarrow> (bool \<times> server) c_result option" where
  "handle_event os w ev =
     (case ev of
        Ready_listen acc \<Rightarrow>
          Some (bindc (process_new_connection os w acc) (\<lambda>(r, w'). Inr (r = 0, w')))
      | Ready_conn a \<Rightarrow>
          (case update_state os w a of
             None \<Rightarrow> None
           | Some r \<Rightarrow> Some (bindc r (\<lambda>(r, w'). Inr (r = 0, w')))))"

fun handle_events :: "os \<Rightarrow> server \<Rightarrow> ready_event list \<Rightarrow> (bool \<times> server) c_result option" where
  "handle_events os w [] = Some (Inr (True, w))"
| "handle_events os w (ev # evs) =
     (case handle_event os w ev of
        None \<Rightarrow> None
      | Some (Inl e) \<Rightarrow> Some (Inl e)
      | Some (Inr (True, w')) \<Rightarrow> handle_events os w' evs
      | Some (Inr (False, w')) \<Rightarrow> Some (Inr (False, w')))"

definition server_round :: "os \<Rightarrow> server \<Rightarrow> wait_result \<Rightarrow> (bool \<times> server) c_result option" where
  "server_round os w wait =
     (case min_timeout os w of
        Inl e \<Rightarrow> Some (Inl e)
      | Inr (_, w') \<Rightarrow>
          (case wait of
             Wait_error \<Rightarrow> Some (Inr (False, w'))
           | Wait_events evs \<Rightarrow>
               if evs = [] then
                 (case discard_expired_connections os w' of
                    None \<Rightarrow> None
                  | Some r \<Rightarrow> Some (bindc r (\<lambda>w''. Inr (True, w''))))
               else handle_events os w' evs))"

text \<open>The loop over the results of successive \<open>epoll_wait\<close> calls.\<close>

fun server_loop :: "os \<Rightarrow> server \<Rightarrow> wait_result list \<Rightarrow> (bool \<times> server) c_result option" where
  "server_loop os w [] = Some (Inr (True, w))"
| "server_loop os w (wait # waits) =
     (case server_round os w wait of
        None \<Rightarrow> None
      | Some (Inl e) \<Rightarrow> Some (Inl e)
      | Some (Inr (True, w')) \<Rightarrow> server_loop os w' waits
      | Some (Inr (False, w')) \<Rightarrow> Some (Inr (False, w')))"

text \<open>The cleanup at \<open>FREE_HEAP_ELEMS\<close>.\<close>

partial_function (option) free_heap_elems :: "os \<Rightarrow> server \<Rightarrow> server c_result option" where
  "free_heap_elems os w =
     (if heap_size (heap w) > 0 then
        (case bindc (arr_get (arr (heap w)) (heap_size (heap w) - 1)) (remove_server_state os w) of
           Inl e \<Rightarrow> Some (Inl e)
         | Inr w' \<Rightarrow> free_heap_elems os w')
      else Some (Inr w))"

section \<open>The process from start to exit\<close>

definition EXPECTED_ARGC :: nat where "EXPECTED_ARGC = 3"
definition CLIENT_CON_NUM :: nat where "CLIENT_CON_NUM = 10000"
definition EXIT_FAILURE :: int where "EXIT_FAILURE = 1"

text \<open>The answers to the system calls of the startup, in their order; \<open>su_slots\<close> is the heap's \<open>malloc\<close>.\<close>

record startup =
  su_argc :: nat
  su_rlimit_ok :: bool
  su_socket :: int
  su_setsockopt_ok :: bool
  su_bind_ok :: bool
  su_listen_ok :: bool
  su_epoll :: int
  su_events_ok :: bool
  su_slots :: "nat \<Rightarrow> addr list option"

definition change_nofile_rlimit :: "startup \<Rightarrow> int" where
  "change_nofile_rlimit su = (if su_rlimit_ok su then 0 else -1)"

text \<open>
  The process at the start of \<open>main\<close>: the static table is zero, the heap is not initialised.
  Descriptors that are no connection (the listening socket, the \<open>epoll\<close> instance) are open with
  nothing to read or write.
\<close>

definition blank_server :: server where
  "blank_server =
     \<lparr>mem = Map.empty,
      heap = \<lparr>arr = [], capacity = 0, heap_size = 0, elem_size = 0,
              cmp_fn = compare_server_state, swap_fn = swap_server_state\<rparr>,
      zodiac_prognosises = replicate ZODIAC_NUM (replicate (ASTROLOG_BUF_LEN + 1) NUL),
      socks = Map.empty, interest = Map.empty, tick = 0\<rparr>"

definition open_fd :: "server \<Rightarrow> int \<Rightarrow> server" where
  "open_fd w fd = w\<lparr>socks := (socks w)(fd \<mapsto> \<lparr>rx = [], tx = [], sent = []\<rparr>)\<rparr>"

text \<open>The startup of \<open>main\<close>: \<open>Inr\<close> the process that enters the loop, \<open>Inl\<close> the one that exits.\<close>

definition main_setup :: "startup \<Rightarrow> os \<Rightarrow> server + server" where
  "main_setup su os =
     (let w0 = blank_server; l = su_socket su; epfd = su_epoll su in
      if su_argc su \<noteq> EXPECTED_ARGC then Inl w0
      else if change_nofile_rlimit su \<noteq> 0 then Inl w0
      else if l < 0 then Inl w0
      else
        let w1 = open_fd w0 l in
        if \<not> su_setsockopt_ok su \<or> \<not> su_bind_ok su \<or> \<not> su_listen_ok su \<or> epfd < 0 then Inl (close_fd w1 l)
        else
          (case configure_epoll os (open_fd w1 epfd) EPOLL_CTL_ADD l EPOLLIN None of (r, w2) \<Rightarrow>
             if r \<noteq> 0 \<or> \<not> su_events_ok su then Inl (close_fd (close_fd w2 epfd) l)
             else
               (case binary_heap_allocate (su_slots su) CLIENT_CON_NUM 8
                       compare_server_state swap_server_state of
                  (_, None) \<Rightarrow> Inl (close_fd (close_fd w2 epfd) l)
                | (_, Some h) \<Rightarrow> Inr (w2\<lparr>heap := h\<rparr>))))"

text \<open>
  The array of events only carries the result of \<open>epoll_wait\<close> and is not part of the state.
  \<open>Looping\<close>: the given \<open>epoll_wait\<close> results are used up and the loop goes on.
\<close>

datatype main_result = Exited int server | Looping server

definition server_main :: "startup \<Rightarrow> os \<Rightarrow> wait_result list \<Rightarrow> main_result c_result option" where
  "server_main su os waits =
     (case main_setup su os of
        Inl w \<Rightarrow> Some (Inr (Exited EXIT_FAILURE w))
      | Inr w \<Rightarrow>
          (case server_loop os w waits of
             None \<Rightarrow> None
           | Some (Inl e) \<Rightarrow> Some (Inl e)
           | Some (Inr (True, w')) \<Rightarrow> Some (Inr (Looping w'))
           | Some (Inr (False, w')) \<Rightarrow>
               (case free_heap_elems os w' of
                  None \<Rightarrow> None
                | Some (Inl e) \<Rightarrow> Some (Inl e)
                | Some (Inr w'') \<Rightarrow>
                    let w1 = w''\<lparr>heap := binary_heap_free (heap w'')\<rparr> in
                    Some (Inr (Exited EXIT_FAILURE (close_fd (close_fd w1 (su_epoll su)) (su_socket su)))))))"

end
