(* ===== verification/Server_Accept.thy ===== *)
theory Server_Accept
  imports Server_Update Server_Main
begin

text \<open>
  New connections: what the operating system guarantees about \<open>malloc\<close> and \<open>accept4\<close>, and the
  proof that \<open>create_server_state\<close> and \<open>process_new_connection\<close> keep the invariant of the process
  on every path, the failing ones included.
\<close>

section \<open>What the operating system guarantees\<close>

text \<open>\<open>malloc\<close> returns memory that is not in use, with room for a \<open>server_state\<close>.\<close>

definition malloc_ok :: "os \<Rightarrow> bool" where
  "malloc_ok os \<longleftrightarrow>
     (\<forall>n m a s. malloc os n m = Some (a, s) \<longrightarrow> m a = None \<and>
        length (buf_data (s_interm_buf s)) = ASTROLOG_BUF_LEN + 1 \<and>
        length (s_buf s) = ASTROLOG_BUF_LEN + 1)"

text \<open>\<open>accept4\<close> returns a descriptor that is not open.\<close>

definition accept_ok :: "server \<Rightarrow> accept_result \<Rightarrow> bool" where
  "accept_ok w acc \<longleftrightarrow> (case acc of Accept_error \<Rightarrow> True | Accepted fd sk \<Rightarrow> socks w fd = None)"

section \<open>Changes that concern no connection\<close>

definition no_conn :: "server \<Rightarrow> int \<Rightarrow> bool" where
  "no_conn w fd \<longleftrightarrow> (\<forall>a s. mem w a = Some s \<longrightarrow> conn_fd s \<noteq> fd)"

lemma no_conn_closed: "server_inv w \<Longrightarrow> socks w fd = None \<Longrightarrow> no_conn w fd"
  unfolding server_inv_def no_conn_def attached_def by metis

lemma no_conn_interest: "server_inv w \<Longrightarrow> no_conn w fd \<Longrightarrow> interest w fd \<noteq> Some (ev, Some a)"
  unfolding server_inv_def no_conn_def owned_def by metis

lemma server_inv_aside:
  assumes inv: "server_inv w" and fd: "no_conn w fd" and heap: "heap_ok w'"
    and m: "but_slots (mem w') = but_slots (mem w)" and zp: "zodiac_prognosises w' = zodiac_prognosises w"
    and so: "\<And>f. f \<noteq> fd \<Longrightarrow> socks w' f = socks w f"
    and it: "\<And>f. f \<noteq> fd \<Longrightarrow> interest w' f = interest w f" "\<And>ev a. interest w' fd \<noteq> Some (ev, Some a)"
  shows "server_inv w'"
proof -
  have eq: "but_slots (mem w') b = but_slots (mem w) b" for b using m by simp
  have conns: "conn_ok t' \<and> attached w' b t' \<and> quiet t' \<and> armed w' t'" if t': "mem w' b = Some t'" for b t'
  proof -
    from other_conn [OF eq t'] obtain t i where t: "mem w b = Some t" "t' = t\<lparr>s_heap_ix := i\<rparr>" by blast
    then have "conn_fd t \<noteq> fd" using fd by (simp add: no_conn_def)
    moreover have "conn_ok t" "attached w b t" "quiet t" "armed w t" using inv t by (auto simp: server_inv_def)
    ultimately show ?thesis using t so it by (simp add: attached_def armed_def)
  qed
  have "owned w'"
    unfolding owned_def
  proof (intro allI impI)
    fix f ev b assume i: "interest w' f = Some (ev, Some b)"
    with it have "f \<noteq> fd" by auto
    with i it have "interest w f = Some (ev, Some b)" by simp
    moreover have "owned w" using inv by (simp add: server_inv_def)
    ultimately obtain t where t: "mem w b = Some t" "conn_fd t = f" unfolding owned_def by blast
    from other_conn [OF eq [symmetric] t(1)] obtain t' j where
      "mem w' b = Some t'" "t = t'\<lparr>s_heap_ix := j\<rparr>" by blast
    with t show "\<exists>t'. mem w' b = Some t' \<and> conn_fd t' = f" by auto
  qed
  with conns heap zp inv show ?thesis by (simp add: server_inv_def)
qed

section \<open>Creating a connection\<close>

text \<open>The state a new connection starts in.\<close>

definition new_conn :: "int \<Rightarrow> server_state \<Rightarrow> bool" where
  "new_conn fd s \<longleftrightarrow> conn_fd s = fd \<and> s_state s = STATE_RECV_FIRST_LINE \<and> s_op s = OP_READ \<and>
     s_cur_pos s = 0 \<and> s_rem s = int ASTROLOG_BUF_LEN \<and> s_zodiac_ix s = ZODIAC_UNKOWN \<and>
     buf_pos (s_interm_buf s) = 0 \<and> buf_len (s_interm_buf s) = 0 \<and>
     length (buf_data (s_interm_buf s)) = ASTROLOG_BUF_LEN + 1 \<and>
     length (s_buf s) = ASTROLOG_BUF_LEN + 1 \<and> s_buf s ! ASTROLOG_BUF_LEN = NUL"

lemma new_conn_ok: "new_conn fd s \<Longrightarrow> conn_ok s \<and> quiet s \<and> phase_of s = Reading []"
  by (simp add: new_conn_def conn_defs buffer_ok_def phase_of_def ASTROLOG_BUF_LEN_def)

lemma new_conn_touch: "new_conn fd s \<Longrightarrow> new_conn fd (s\<lparr>s_ts := t, s_heap_ix := i\<rparr>)"
  by (simp add: new_conn_def)

lemma init_ok:
  assumes "length (buf_data (s_interm_buf s0)) = ASTROLOG_BUF_LEN + 1"
    and "length (s_buf s0) = ASTROLOG_BUF_LEN + 1"
  shows "\<exists>s. init_server_state s0 fd n = Inr s \<and> new_conn fd s \<and> s_heap_ix s = n"
  using assms by (simp add: init_server_state_def new_conn_def)

text \<open>A new connection in the process.\<close>

definition added :: "server \<Rightarrow> int \<Rightarrow> server \<Rightarrow> bool" where
  "added w fd w' \<longleftrightarrow> server_inv w' \<and> zodiac_prognosises w' = zodiac_prognosises w \<and> socks w' = socks w \<and>
     heap_size (heap w') = Suc (heap_size (heap w)) \<and>
     (\<exists>a s. mem w a = None \<and> mem w' a = Some s \<and> new_conn fd s \<and> others_same a w w')"

definition not_added :: "server \<Rightarrow> int \<Rightarrow> server \<Rightarrow> bool" where
  "not_added w fd w' \<longleftrightarrow> server_inv w' \<and> zodiac_prognosises w' = zodiac_prognosises w \<and>
     (\<forall>f. f \<noteq> fd \<longrightarrow> socks w' f = socks w f) \<and> heap_size (heap w') = heap_size (heap w) \<and>
     capacity (heap w') = capacity (heap w) \<and> but_slots (mem w') = but_slots (mem w)"

lemma server_inv_tick: "server_inv (w\<lparr>tick := n\<rparr>) = server_inv w"
  by (simp add: server_inv_def heap_ok_def owned_def attached_def armed_def)

text \<open>The state before \<open>configure_epoll\<close>, with the connection in the heap but not in the interest list.\<close>

lemma attach_inv:
  assumes inv: "server_inv w" and fd: "no_conn w fd" and op: "socks w fd \<noteq> None"
    and a: "mem w a = None" and heap: "heap_ok w'"
    and m: "but_slots (mem w') = but_slots ((mem w)(a \<mapsto> s))" and new: "new_conn fd s"
    and same: "zodiac_prognosises w' = zodiac_prognosises w" "socks w' = socks w"
    and it: "interest w' = (interest w)(fd \<mapsto> (EPOLLIN, Some a))"
  shows "server_inv w'"
proof -
  have eq: "but_slots (mem w') b = but_slots (mem w) b" if "b \<noteq> a" for b
    using but_slots_upd_same [OF m that] .
  obtain i where s': "mem w' a = Some (s\<lparr>s_heap_ix := i\<rparr>)"
    using but_slots_eq_Some [OF m, of a s] by auto
  have conns: "conn_ok t' \<and> attached w' b t' \<and> quiet t' \<and> armed w' t'" if t': "mem w' b = Some t'" for b t'
  proof (cases "b = a")
    case True
    then have "t' = s\<lparr>s_heap_ix := i\<rparr>" using s' t' by simp
    with True new_conn_ok [OF new] new op show ?thesis
      by (simp add: attached_def armed_def same it new_conn_def event_of_def)
  next
    case False
    from other_conn [OF eq [OF False] t'] obtain t j where
      t: "mem w b = Some t" "t' = t\<lparr>s_heap_ix := j\<rparr>" by blast
    then have "conn_fd t \<noteq> fd" using fd by (simp add: no_conn_def)
    moreover have "conn_ok t" "attached w b t" "quiet t" "armed w t" using inv t by (auto simp: server_inv_def)
    ultimately show ?thesis using t by (simp add: attached_def armed_def same it)
  qed
  have "owned w'"
    unfolding owned_def
  proof (intro allI impI)
    fix f ev b assume i': "interest w' f = Some (ev, Some b)"
    show "\<exists>t'. mem w' b = Some t' \<and> conn_fd t' = f"
    proof (cases "f = fd")
      case True
      with i' it s' new show ?thesis by (auto simp: new_conn_def)
    next
      case False
      with i' it have "interest w f = Some (ev, Some b)" by simp
      moreover have "owned w" using inv by (simp add: server_inv_def)
      ultimately obtain t where t: "mem w b = Some t" "conn_fd t = f" unfolding owned_def by blast
      then have "b \<noteq> a" using a by auto
      from other_conn [OF eq [OF this, symmetric] t(1)] obtain t' j where
        "mem w' b = Some t'" "t = t'\<lparr>s_heap_ix := j\<rparr>" by blast
      with t show ?thesis by auto
    qed
  qed
  with conns heap same inv show ?thesis by (simp add: server_inv_def)
qed

lemma create_ok:
  assumes os: "malloc_ok os" and inv: "server_inv w" and fd: "no_conn w fd" and op: "socks w fd \<noteq> None"
    and room: "heap_size (heap w) < capacity (heap w)"
  shows "safe (create_server_state os w fd)
    (\<lambda>(r, w'). r = 0 \<and> added w fd w' \<or> r = -1 \<and> not_added w fd w')"
proof (cases "malloc os (tick w) (mem w)")
  case None
  with inv show ?thesis
    by (simp add: create_server_state_def not_added_def server_inv_tick)
next
  case (Some blk)
  obtain a s0 where blk: "blk = (a, s0)" by fastforce
  from Some blk os have a: "mem w a = None" and l: "length (buf_data (s_interm_buf s0)) = ASTROLOG_BUF_LEN + 1"
    "length (s_buf s0) = ASTROLOG_BUF_LEN + 1" unfolding malloc_ok_def by blast+
  from init_ok [OF l] obtain s where
    init: "init_server_state s0 fd (heap_size (heap w)) = Inr s" and new: "new_conn fd s"
    and ix: "s_heap_ix s = heap_size (heap w)" by blast
  let ?w0 = "w\<lparr>tick := Suc (tick w)\<rparr>"
  show ?thesis
  proof (cases "clock os (tick ?w0)")
    case None
    with Some blk init show ?thesis
      by (simp add: create_server_state_def update_ts_def get_cur_time_def)
  next
    case clk: (Some t)
    let ?w1 = "w\<lparr>tick := Suc (Suc (tick w))\<rparr>"
    from clk obtain t' where ts: "update_ts os ?w0 (s_op s) = Inr (t', ?w1)"
      by (simp add: update_ts_def get_cur_time_def)
    let ?s = "s\<lparr>s_ts := t'\<rparr>"
    let ?w2 = "put_state ?w1 a ?s"
    have h1: "heap_ok ?w1" using inv by (simp add: server_inv_def heap_ok_def)
    from heap_attach [OF h1, of a ?s] a ix room obtain h' m' where
      push: "binary_heap_push (heap ?w2) (mem ?w2) a = Inr (0, h', m')" and
      hok: "heap_ok (?w2\<lparr>heap := h', mem := m'\<rparr>)" and bs: "but_slots m' = but_slots (mem ?w2)" and
      cap: "capacity h' = capacity (heap w)" "heap_size h' = Suc (heap_size (heap w))" by auto
    let ?w3 = "?w2\<lparr>heap := h', mem := m'\<rparr>"
    have news: "new_conn fd ?s" using new by (simp add: new_conn_def)
    have bs': "but_slots m' = but_slots ((mem w)(a \<mapsto> ?s))" using bs by simp
    from but_slots_eq_Some [OF bs', of a ?s] obtain i where ma: "m' a = Some (?s\<lparr>s_heap_ix := i\<rparr>)" by auto
    obtain r w4 where ep: "configure_epoll os ?w3 EPOLL_CTL_ADD fd EPOLLIN (Some a) = (r, w4)" by fastforce
    note cf = configure_frame [OF ep]
    have run: "create_server_state os w fd =
        (if r \<noteq> 0 then bindc (remove_and_destroy w4 a) (\<lambda>w5. Inr (-1, w5)) else Inr (0, w4))"
      using Some blk init ts push ep by (simp add: create_server_state_def)
    have hok4: "heap_ok w4" using hok heap_ok_fields [OF cf(2,1)] by simp
    show ?thesis
    proof (cases "r = 0")
      case True
      then have it: "interest w4 = (interest w)(fd \<mapsto> (EPOLLIN, Some a))"
        using ep by (auto simp: configure_epoll_def epoll_ctl_def Let_def split: if_splits)
      have "server_inv w4"
        by (rule attach_inv [OF inv fd op a hok4 _ news _ _ it]) (use cf bs' in simp_all)
      have "others_same a w w4"
        using cf cap but_slots_upd_same [OF bs'] by (simp add: others_same_def)
      moreover have "new_conn fd (?s\<lparr>s_heap_ix := i\<rparr>)" using news by (simp add: new_conn_def)
      ultimately have "\<exists>a s. mem w a = None \<and> mem w4 a = Some s \<and> new_conn fd s \<and> others_same a w w4"
        using cf a ma by auto
      with \<open>server_inv w4\<close> have "added w fd w4" using cf cap by (simp add: added_def)
      with True show ?thesis by (simp add: run)
    next
      case False
      then have it: "interest w4 = interest w"
        using ep by (auto simp: configure_epoll_def epoll_ctl_def Let_def split: if_splits)
      have "mem w4 a = Some (?s\<lparr>s_heap_ix := i\<rparr>)" using ma cf by simp
      from heap_detach [OF hok4 this] obtain h5 m5 where
        rem: "remove_and_destroy w4 a = Inr (w4\<lparr>heap := h5, mem := m5\<rparr>)" and
        ok5: "heap_ok (w4\<lparr>heap := h5, mem := m5\<rparr>)" and b5: "but_slots m5 = but_slots ((mem w4)(a := None))" and
        cap5: "capacity h5 = capacity (heap w4)" "Suc (heap_size h5) = heap_size (heap w4)" by blast
      have "but_slots ((mem w4)(a := None)) = but_slots (((mem w)(a \<mapsto> ?s))(a := None))"
        using but_slots_upd [OF bs', of a None] cf by simp
      also have "\<dots> = but_slots (mem w)" using a by (simp add: fun_upd_idem)
      finally have b: "but_slots m5 = but_slots (mem w)" using b5 by simp
      let ?w5 = "w4\<lparr>heap := h5, mem := m5\<rparr>"
      have "server_inv ?w5"
        by (rule server_inv_aside [OF inv fd ok5])
           (use b cf it no_conn_interest [OF inv fd] in simp_all)
      then have "not_added w fd ?w5" using b cf cap cap5 by (simp add: not_added_def)
      with False rem show ?thesis by (simp add: run)
    qed
  qed
qed

section \<open>Accepting\<close>

lemma close_aside:
  assumes "server_inv w" and "no_conn w fd"
  shows "server_inv (close_fd w fd)" and "server_inv (w\<lparr>socks := (socks w)(fd := x)\<rparr>)"
proof -
  have h: "heap_ok w" using assms by (simp add: server_inv_def)
  show "server_inv (close_fd w fd)"
    by (rule server_inv_aside [OF assms]) (use h in \<open>auto simp: close_fd_def heap_ok_def\<close>)
  show "server_inv (w\<lparr>socks := (socks w)(fd := x)\<rparr>)"
    by (rule server_inv_aside [OF assms])
       (use h no_conn_interest [OF assms] in \<open>auto simp: heap_ok_def\<close>)
qed

lemma no_conn_cong:
  assumes "no_conn w fd" and "but_slots (mem w') = but_slots (mem w)"
  shows "no_conn w' fd"
  unfolding no_conn_def
proof (intro allI impI)
  fix a s' assume "mem w' a = Some s'"
  moreover have "but_slots (mem w') a = but_slots (mem w) a" using assms(2) by simp
  ultimately obtain s i where "mem w a = Some s" "s' = s\<lparr>s_heap_ix := i\<rparr>"
    using other_conn by blast
  with assms(1) show "conn_fd s' \<noteq> fd" by (simp add: no_conn_def)
qed

text \<open>Neither outcome leaks a descriptor.\<close>

lemma tracks_added:
  assumes "added (w\<lparr>socks := (socks w)(fd \<mapsto> sk)\<rparr>) fd w'"
  shows "tracks w w'"
  unfolding tracks_def tracked_def
proof (intro allI impI)
  fix fds f
  assume tr: "\<forall>fd. socks w fd \<noteq> None \<longrightarrow> fd \<in> fds \<or> (\<exists>a s. mem w a = Some s \<and> conn_fd s = fd)"
    and op: "socks w' f \<noteq> None"
  from assms obtain a s where a: "mem w a = None" "mem w' a = Some s" "new_conn fd s"
    and o: "\<And>b. b \<noteq> a \<Longrightarrow> but_slots (mem w') b = but_slots (mem w) b"
    and so: "socks w' = (socks w)(fd \<mapsto> sk)" by (auto simp: added_def others_same_def)
  show "f \<in> fds \<or> (\<exists>a s. mem w' a = Some s \<and> conn_fd s = f)"
  proof (cases "f = fd")
    case True
    with a show ?thesis by (auto simp: new_conn_def)
  next
    case False
    with op so have "socks w f \<noteq> None" by simp
    with tr consider "f \<in> fds" | b t where "mem w b = Some t" "conn_fd t = f" by blast
    then show ?thesis
    proof cases
      case 2
      then have "b \<noteq> a" using a by auto
      from kept_conn [OF o [OF this] 2(1)] 2(2) show ?thesis by auto
    qed blast
  qed
qed

lemma tracks_not_added:
  assumes "not_added w fd w'" and "socks w' fd = None"
  shows "tracks w w'"
  unfolding tracks_def tracked_def
proof (intro allI impI)
  fix fds f
  assume tr: "\<forall>fd. socks w fd \<noteq> None \<longrightarrow> fd \<in> fds \<or> (\<exists>a s. mem w a = Some s \<and> conn_fd s = fd)"
    and op: "socks w' f \<noteq> None"
  have "f \<noteq> fd" using op assms(2) by auto
  with op assms(1) have "socks w f \<noteq> None" by (simp add: not_added_def)
  with tr consider "f \<in> fds" | b t where "mem w b = Some t" "conn_fd t = f" by blast
  then show "f \<in> fds \<or> (\<exists>a s. mem w' a = Some s \<and> conn_fd s = f)"
  proof cases
    case 2
    have "but_slots (mem w') b = but_slots (mem w) b" using assms(1) by (simp add: not_added_def)
    from kept_conn [OF this 2(1)] 2(2) show ?thesis by auto
  qed blast
qed

text \<open>
  A connection is added, or everything is as before: a rejected connection is closed again, and
  only a failure of \<open>accept4\<close> or of \<open>create_server_state\<close> gives -1.
\<close>

lemma process_new_ok:
  assumes os: "malloc_ok os" and inv: "server_inv w" and acc: "accept_ok w acc"
  shows "safe (process_new_connection os w acc) (\<lambda>(r, w').
    case acc of
      Accept_error \<Rightarrow> r = -1 \<and> w' = w
    | Accepted fd sk \<Rightarrow>
        r = 0 \<and> heap_size (heap w) < capacity (heap w) \<and> added (w\<lparr>socks := (socks w)(fd \<mapsto> sk)\<rparr>) fd w' \<or>
        (r = 0 \<and> heap_size (heap w) \<ge> capacity (heap w) \<or> r = -1) \<and>
          not_added w fd w' \<and> socks w' fd = None)"
proof (cases acc)
  case Accept_error
  then show ?thesis by (simp add: process_new_connection_def)
next
  case (Accepted fd sk)
  then have free: "socks w fd = None" using acc by (simp add: accept_ok_def)
  note nc = no_conn_closed [OF inv free]
  let ?w1 = "w\<lparr>socks := (socks w)(fd \<mapsto> sk)\<rparr>"
  have inv1: "server_inv ?w1" and nc1: "no_conn ?w1 fd"
    using close_aside(2) [OF inv nc] nc by (simp_all add: no_conn_def)
  show ?thesis
  proof (cases "heap_size (heap w) \<ge> capacity (heap w)")
    case True
    have "server_inv (close_fd ?w1 fd)" by (rule close_aside(1) [OF inv1 nc1])
    then have "not_added w fd (close_fd ?w1 fd)" "socks (close_fd ?w1 fd) fd = None"
      by (simp_all add: not_added_def) (simp_all add: close_fd_def)
    with True Accepted show ?thesis by (simp add: process_new_connection_def)
  next
    case False
    then have room: "heap_size (heap ?w1) < capacity (heap ?w1)" by simp
    have op: "socks ?w1 fd \<noteq> None" by simp
    have closed: "not_added w fd (close_fd w2 fd) \<and> socks (close_fd w2 fd) fd = None"
      if "not_added ?w1 fd w2" for w2
    proof -
      have "no_conn w2 fd" using that no_conn_cong [OF nc1] by (simp add: not_added_def)
      then have "server_inv (close_fd w2 fd)" using that close_aside(1) by (simp add: not_added_def)
      then show ?thesis using that by (simp add: not_added_def) (simp add: close_fd_def)
    qed
    from create_ok [OF os inv1 nc1 op room] show ?thesis
      using False Accepted closed
      by (auto simp: process_new_connection_def elim!: safe_mono)
  qed
qed

end
