(* ===== verification/Server_Rounds.thy ===== *)
theory Server_Rounds
  imports Server_Accept
begin

text \<open>
  The event loop: the timeout, expired connections, one round of \<open>epoll_wait\<close>, the states the
  server can reach, and the cleanup after the loop.
\<close>

section \<open>The timeout\<close>

text \<open>The earliest deadline, the one at the top of the heap.\<close>

lemma top_facts:
  assumes "base_inv w" and "0 < heap_size (heap w)"
  shows "\<exists>a s. arr_get (arr (heap w)) 0 = Inr a \<and> mem w a = Some s \<and>
    top_deadline w 0 = Inr (a, ACCUM_TIME_NS (s_ts s)) \<and>
    (\<forall>b t. mem w b = Some t \<longrightarrow> ACCUM_TIME_NS (s_ts s) \<le> ACCUM_TIME_NS (s_ts t))"
proof -
  have inv: "heap_inv compare_server_state swap_server_state is_live deadline (heap w) (mem w)"
    and dom: "set (elems (heap w)) = dom (mem w)" using assms by (simp_all add: base_inv_def heap_ok_def)
  let ?a = "arr (heap w) ! 0"
  have "0 < length (arr (heap w))" using inv assms(2) by (auto simp: heap_inv_def slots_ok_def)
  then have get: "arr_get (arr (heap w)) 0 = Inr ?a" by simp
  have "is_live (mem w) ?a" using inv assms(2) by (simp add: heap_inv_def slots_ok_def)
  then obtain s where s: "mem w ?a = Some s" by (auto simp: is_live_def)
  have "ACCUM_TIME_NS (s_ts s) \<le> ACCUM_TIME_NS (s_ts t)" if "mem w b = Some t" for b t
  proof -
    have "b \<in> set (elems (heap w))" using dom that by auto
    from server_heap.top_least(3) [OF inv assms(2) this] that s show ?thesis by (simp add: deadline_def)
  qed
  with get s show ?thesis by (auto simp: top_deadline_def)
qed

lemma heap_empty_iff:
  assumes "base_inv w"
  shows "heap_size (heap w) = 0 \<longleftrightarrow> mem w = Map.empty"
proof -
  have "set (elems (heap w)) = dom (mem w)" "length (elems (heap w)) = heap_size (heap w)"
    using assms length_elems by (auto simp: base_inv_def heap_ok_def)
  then show ?thesis by (metis dom_eq_empty_conv length_0_conv list.set(1) set_empty)
qed

section \<open>Expired connections\<close>

definition expired :: "server_state \<Rightarrow> int \<Rightarrow> bool" where
  "expired s now \<longleftrightarrow> ACCUM_TIME_NS (s_ts s) \<le> now"

text \<open>The memory without the expired connections.\<close>

definition unexpired :: "memory \<Rightarrow> int \<Rightarrow> memory" where
  "unexpired m now = (\<lambda>a. case m a of None \<Rightarrow> None | Some s \<Rightarrow> if expired s now then None else Some s)"

lemma expired_touch [simp]: "expired (s\<lparr>s_heap_ix := i\<rparr>) now = expired s now"
  by (simp add: expired_def)

lemma unexpired_cong:
  assumes "but_slots m' = but_slots m"
  shows "but_slots (unexpired m' now) = but_slots (unexpired m now)"
proof
  fix a
  show "but_slots (unexpired m' now) a = but_slots (unexpired m now) a"
  proof (cases "m a")
    case None
    with but_slots_None [OF assms] show ?thesis by (simp add: but_slots_def unexpired_def)
  next
    case (Some s)
    from but_slots_eq_Some [OF assms Some] Some show ?thesis by (auto simp: but_slots_def unexpired_def)
  qed
qed

lemma unexpired_drop:
  "m a = Some s \<Longrightarrow> expired s now \<Longrightarrow> unexpired (m(a := None)) now = unexpired m now"
  by (auto simp: unexpired_def fun_eq_iff)

lemma unexpired_id: "(\<And>b t. m b = Some t \<Longrightarrow> \<not> expired t now) \<Longrightarrow> unexpired m now = m"
  by (auto simp: unexpired_def fun_eq_iff split: option.splits)

text \<open>Marking a connection and calling \<open>update_state\<close> removes it.\<close>

lemma discard_one:
  assumes inv: "server_inv w" and a: "mem w a = Some s"
  shows "\<exists>w'. update_state os (put_state w a (s\<lparr>s_state := STATE_ERROR\<rparr>)) a = Some (Inr (0, w')) \<and>
    server_inv w' \<and> but_slots (mem w') = but_slots ((mem w)(a := None)) \<and>
    Suc (heap_size (heap w')) = heap_size (heap w) \<and> capacity (heap w') = capacity (heap w) \<and>
    zodiac_prognosises w' = zodiac_prognosises w \<and> socks w' = (socks w)(conn_fd s := None)"
proof -
  let ?s = "s\<lparr>s_state := STATE_ERROR\<rparr>" and ?w = "put_state w a (s\<lparr>s_state := STATE_ERROR\<rparr>)"
  have ok: "conn_ok s" and q: "quiet s" using inv a by (auto simp: server_inv_def)
  have ok': "conn_ok ?s" using ok by (simp add: conn_ok_def phase_ok_def)
  have p: "proc_inv ?w a"
    using a by (intro proc_put(1) [OF server_proc [OF inv] a ok']) simp_all
  have m: "mem ?w a = Some ?s" by simp
  have nu: "\<not> unread ?s" using q by (simp add: quiet_def unread_def)
  have fin: "finished ?s" by (simp add: finished_def)
  have "update_loop os ?w a = Some (Inr ?w)"
    using nu by (simp add: update_loop.simps dispatch_finished [OF m fin])
  moreover from remove_conn [OF base_of(2) [OF p] m, of os] p obtain w' where
    "remove_server_state os ?w a = Inr w'" "removed ?w a ?s w'" "server_inv w'" by blast
  ultimately show ?thesis
    by (auto simp: update_state_def settle_state_def removed_def)
qed

lemma discard_loop_ok:
  assumes "server_inv w"
  shows "\<exists>w'. discard_loop os w now = Some (Inr w') \<and> server_inv w' \<and>
    but_slots (mem w') = but_slots (unexpired (mem w) now) \<and>
    capacity (heap w') = capacity (heap w) \<and> zodiac_prognosises w' = zodiac_prognosises w \<and>
    (\<forall>fd. socks w' fd = (if \<exists>a s. mem w a = Some s \<and> conn_fd s = fd \<and> expired s now then None else socks w fd))"
  using assms
proof (induction "heap_size (heap w)" arbitrary: w)
  case 0
  then have "mem w = Map.empty" using heap_empty_iff [OF base_of(1)] by simp
  then have "unexpired (mem w) now = mem w" by (simp add: unexpired_def)
  moreover have "discard_loop os w now = Some (Inr w)"
    using "0.hyps" by (subst discard_loop.simps) (simp add: binary_heap_top_def)
  ultimately show ?case using "0.prems" \<open>mem w = Map.empty\<close> by simp
next
  case (Suc n)
  note inv = Suc.prems
  from top_facts [OF base_of(1) [OF inv]] Suc.hyps(2) obtain a s where
    a: "mem w a = Some s" and top: "top_deadline w 0 = Inr (a, ACCUM_TIME_NS (s_ts s))" and
    least: "\<And>b t. mem w b = Some t \<Longrightarrow> ACCUM_TIME_NS (s_ts s) \<le> ACCUM_TIME_NS (s_ts t)" by auto
  have ht: "binary_heap_top (heap w) = (0, Some 0)" using Suc.hyps(2) by (simp add: binary_heap_top_def)
  show ?case
  proof (cases "expired s now")
    case False
    have none: "\<not> expired t now" if "mem w b = Some t" for b t
      using least [OF that] False by (simp add: expired_def)
    have "discard_loop os w now = Some (Inr w)"
      using False by (subst discard_loop.simps) (simp add: ht top expired_def)
    moreover have "unexpired (mem w) now = mem w" using none by (rule unexpired_id)
    ultimately show ?thesis using inv none by auto
  next
    case True
    from discard_one [OF inv a, of os] obtain w1 where
      up: "update_state os (put_state w a (s\<lparr>s_state := STATE_ERROR\<rparr>)) a = Some (Inr (0, w1))"
      and w1: "server_inv w1" "but_slots (mem w1) = but_slots ((mem w)(a := None))"
        "Suc (heap_size (heap w1)) = heap_size (heap w)" "capacity (heap w1) = capacity (heap w)"
        "zodiac_prognosises w1 = zodiac_prognosises w" "socks w1 = (socks w)(conn_fd s := None)" by blast
    have loop: "discard_loop os w now = discard_loop os w1 now"
      using True a by (subst discard_loop.simps) (simp add: ht top expired_def up)
    have size: "n = heap_size (heap w1)" using w1(3) Suc.hyps(2) by simp
    from Suc.hyps(1) [OF size w1(1)] obtain w' where
      w': "discard_loop os w1 now = Some (Inr w')" "server_inv w'"
        "but_slots (mem w') = but_slots (unexpired (mem w1) now)"
        "capacity (heap w') = capacity (heap w1)" "zodiac_prognosises w' = zodiac_prognosises w1"
      and so: "\<And>fd. socks w' fd = (if \<exists>a s. mem w1 a = Some s \<and> conn_fd s = fd \<and> expired s now
                                     then None else socks w1 fd)" by blast
    have "but_slots (mem w') = but_slots (unexpired (mem w) now)"
      using w'(3) unexpired_cong [OF w1(2)] unexpired_drop [of "mem w" a s now] a True by simp
    moreover have "socks w' fd = (if \<exists>a s. mem w a = Some s \<and> conn_fd s = fd \<and> expired s now
        then None else socks w fd)" for fd
    proof (cases "fd = conn_fd s")
      case eq: True
      then have "socks w' fd = None" using so [of fd] w1(6) by simp
      with a True eq show ?thesis by auto
    next
      case ne: False
      have same: "(\<exists>a s. mem w1 a = Some s \<and> conn_fd s = fd \<and> expired s now) \<longleftrightarrow>
          (\<exists>a s. mem w a = Some s \<and> conn_fd s = fd \<and> expired s now)" (is "?l \<longleftrightarrow> ?r")
      proof
        assume ?l
        then obtain b t' where t': "mem w1 b = Some t'" "conn_fd t' = fd" "expired t' now" by blast
        have "b \<noteq> a" using but_slots_None [OF w1(2), of a] t' by auto
        from other_conn [OF but_slots_upd_same [OF w1(2) this] t'(1)] obtain t i where
          "mem w b = Some t" "t' = t\<lparr>s_heap_ix := i\<rparr>" by blast
        with t' have "mem w b = Some t \<and> conn_fd t = fd \<and> expired t now" by simp
        then show ?r by blast
      next
        assume ?r
        then obtain b t where t: "mem w b = Some t" "conn_fd t = fd" "expired t now" by blast
        have "b \<noteq> a" using t a ne by auto
        from other_conn [OF but_slots_upd_same [OF w1(2) this, symmetric] t(1)] obtain t' i where
          "mem w1 b = Some t'" "t = t'\<lparr>s_heap_ix := i\<rparr>" by blast
        with t have "mem w1 b = Some t' \<and> conn_fd t' = fd \<and> expired t' now" by simp
        then show ?l by blast
      qed
      have "socks w1 fd = socks w fd" using w1(6) ne by simp
      then show ?thesis unfolding so [of fd] same by (simp only:)
    qed
    ultimately show ?thesis using loop w' w1 by metis
  qed
qed

section \<open>One round\<close>

text \<open>
  What \<open>epoll_wait\<close> reports: registered descriptors, each at most once, so live connections
  and at most one event of the listening socket.
\<close>

definition conns_of :: "ready_event list \<Rightarrow> addr list" where
  "conns_of evs = List.map_filter (\<lambda>ev. case ev of Ready_conn a \<Rightarrow> Some a | _ \<Rightarrow> None) evs"

definition accepts_of :: "ready_event list \<Rightarrow> accept_result list" where
  "accepts_of evs = List.map_filter (\<lambda>ev. case ev of Ready_listen acc \<Rightarrow> Some acc | _ \<Rightarrow> None) evs"

lemma conns_of_simps [simp]:
  "conns_of [] = []" "conns_of (Ready_conn a # evs) = a # conns_of evs"
  "conns_of (Ready_listen acc # evs) = conns_of evs"
  "accepts_of [] = []" "accepts_of (Ready_conn a # evs) = accepts_of evs"
  "accepts_of (Ready_listen acc # evs) = acc # accepts_of evs"
  by (simp_all add: conns_of_def accepts_of_def List.map_filter_simps)

definition events_ok :: "server \<Rightarrow> ready_event list \<Rightarrow> bool" where
  "events_ok w evs \<longleftrightarrow> distinct (conns_of evs) \<and> (\<forall>a \<in> set (conns_of evs). mem w a \<noteq> None) \<and>
     length (accepts_of evs) \<le> 1 \<and> (\<forall>acc \<in> set (accepts_of evs). accept_ok w acc)"

definition wait_ok :: "server \<Rightarrow> wait_result \<Rightarrow> bool" where
  "wait_ok w r \<longleftrightarrow> (case r of Wait_error \<Rightarrow> True | Wait_events evs \<Rightarrow> events_ok w evs)"

text \<open>After a round the process is in its invariant, or the loop is left for the cleanup.\<close>

definition round_post :: "server \<Rightarrow> bool \<times> server \<Rightarrow> bool" where
  "round_post w res \<longleftrightarrow> base_inv (snd res) \<and> (fst res \<longrightarrow> server_inv (snd res)) \<and> tracks w (snd res)"

lemma round_post_trans:
  assumes "tracks w w1" and "case res of None \<Rightarrow> True | Some r \<Rightarrow> safe r (round_post w1)"
  shows "case res of None \<Rightarrow> True | Some r \<Rightarrow> safe r (round_post w)"
  using assms
  by (auto simp: round_post_def split: option.splits elim!: safe_mono intro: tracks_trans)

lemma live_cong: "but_slots m' b = but_slots m b \<Longrightarrow> m' b = None \<longleftrightarrow> m b = None"
  by (auto simp: but_slots_def)

lemma conn_event_ok:
  assumes inv: "server_inv w" and a: "mem w a \<noteq> None"
  shows "case handle_event os w (Ready_conn a) of None \<Rightarrow> True
    | Some r \<Rightarrow> safe r (\<lambda>res. round_post w res \<and> others_same a w (snd res) \<and> no_new_socks w (snd res))"
proof -
  from a obtain s where s: "mem w a = Some s" by auto
  with inv have "armed w s" by (simp add: server_inv_def)
  from update_state_ok [OF server_proc [OF inv a] s this, of os] show ?thesis
    by (auto simp: handle_event_def round_post_def update_post_def base_of
        split: option.splits elim!: safe_mono)
qed

lemma listen_event_ok:
  assumes os: "malloc_ok os" and inv: "server_inv w" and acc: "accept_ok w acc"
  shows "\<exists>r. handle_event os w (Ready_listen acc) = Some r \<and>
    safe r (\<lambda>res. round_post w res \<and> (\<forall>b. mem w b \<noteq> None \<longrightarrow> mem (snd res) b \<noteq> None))"
proof -
  have live: "mem w' b \<noteq> None" if "added w1 fd w'" "mem w1 b \<noteq> None" for w1 fd w' b
  proof -
    from that(1) obtain a where a: "mem w1 a = None" "others_same a w1 w'" by (auto simp: added_def)
    then have "b \<noteq> a" using that(2) by auto
    with a live_cong [of "mem w'" b "mem w1"] that(2) show ?thesis by (simp add: others_same_def)
  qed
  have live': "mem w' b \<noteq> None" if "not_added w fd w'" "mem w b \<noteq> None" for fd w' b
    using that live_cong [of "mem w'" b "mem w"] by (simp add: not_added_def)
  have "safe (process_new_connection os w acc) (\<lambda>(r, w'). server_inv w' \<and> tracks w w' \<and>
      (\<forall>b. mem w b \<noteq> None \<longrightarrow> mem w' b \<noteq> None))"
    using process_new_ok [OF os inv acc]
  proof (rule safe_mono, clarify)
    fix r w' assume res: "case acc of
        Accept_error \<Rightarrow> r = -1 \<and> w' = w
      | Accepted fd sk \<Rightarrow>
          r = 0 \<and> heap_size (heap w) < capacity (heap w) \<and> added (w\<lparr>socks := (socks w)(fd \<mapsto> sk)\<rparr>) fd w' \<or>
          (r = 0 \<and> heap_size (heap w) \<ge> capacity (heap w) \<or> r = -1) \<and>
            not_added w fd w' \<and> socks w' fd = None"
    then show "server_inv w' \<and> tracks w w' \<and> (\<forall>b. mem w b \<noteq> None \<longrightarrow> mem w' b \<noteq> None)"
    proof (cases acc)
      case (Accepted fd sk)
      with res consider
        "added (w\<lparr>socks := (socks w)(fd \<mapsto> sk)\<rparr>) fd w'" | "not_added w fd w'" "socks w' fd = None" by auto
      then show ?thesis
      proof cases
        case 1
        with live [OF 1] tracks_added [OF 1] show ?thesis by (simp add: added_def)
      next
        case 2
        with live' [OF 2(1)] tracks_not_added [OF 2] show ?thesis by (simp add: not_added_def)
      qed
    qed (use inv in simp)
  qed
  then show ?thesis
    by (auto simp: handle_event_def round_post_def base_of elim!: safe_mono)
qed

lemma handle_events_ok:
  assumes "malloc_ok os" and "server_inv w" and "events_ok w evs"
  shows "case handle_events os w evs of None \<Rightarrow> True | Some r \<Rightarrow> safe r (round_post w)"
  using assms(2,3)
proof (induction evs arbitrary: w)
  case Nil
  then show ?case by (simp add: round_post_def base_of)
next
  case (Cons ev evs)
  note inv = Cons.prems(1)
  show ?case
  proof (cases ev)
    case (Ready_listen acc)
    then have ok: "accept_ok w acc" "accepts_of evs = []" using Cons.prems(2) by (auto simp: events_ok_def)
    from listen_event_ok [OF assms(1) inv ok(1)] obtain r where
      h: "handle_event os w ev = Some r" and
      r: "safe r (\<lambda>res. round_post w res \<and> (\<forall>b. mem w b \<noteq> None \<longrightarrow> mem (snd res) b \<noteq> None))"
      using Ready_listen by auto
    have next_ok: "events_ok w' evs" if "\<forall>b. mem w b \<noteq> None \<longrightarrow> mem w' b \<noteq> None" for w'
      using that Cons.prems(2) ok(2) Ready_listen by (simp add: events_ok_def)
    show ?thesis
      using r round_post_trans [OF _ Cons.IH [OF _ next_ok]]
      by (auto simp: h round_post_def split: sum.splits bool.splits)
  next
    case (Ready_conn a)
    then have a: "mem w a \<noteq> None" "a \<notin> set (conns_of evs)" using Cons.prems(2) by (auto simp: events_ok_def)
    note h = conn_event_ok [OF inv a(1), of os, folded Ready_conn]
    have next_ok: "events_ok w' evs" if o: "others_same a w w'" "no_new_socks w w'" for w'
    proof -
      have "mem w' b \<noteq> None" if "b \<in> set (conns_of evs)" for b
      proof -
        have "b \<noteq> a" "mem w b \<noteq> None" using that a(2) Cons.prems(2) Ready_conn by (auto simp: events_ok_def)
        with o(1) live_cong [of "mem w'" b "mem w"] show ?thesis by (simp add: others_same_def)
      qed
      moreover have "accept_ok w' acc" if "acc \<in> set (accepts_of evs)" for acc
      proof -
        have "accept_ok w acc" using that Cons.prems(2) Ready_conn by (simp add: events_ok_def)
        with o(2) show ?thesis by (cases acc) (simp_all add: accept_ok_def no_new_socks_def)
      qed
      ultimately show ?thesis using Cons.prems(2) Ready_conn by (simp add: events_ok_def)
    qed
    show ?thesis
    proof (cases "handle_event os w ev")
      case None
      then show ?thesis by simp
    next
      case (Some r)
      with h round_post_trans [OF _ Cons.IH [OF _ next_ok]] show ?thesis
        by (auto simp: round_post_def split: sum.splits bool.splits)
    qed
  qed
qed

end
