(* ===== verification/Server_Process.thy ===== *)
theory Server_Process
  imports Server_Rounds
begin

text \<open>
  The server as a process: every round keeps the invariant, so it holds in every state the server
  can reach; no round has undefined behaviour; and when the loop is left, the cleanup terminates
  and releases every connection and every descriptor.
\<close>

section \<open>One round\<close>

lemma tick_inv [simp]:
  "server_inv (w\<lparr>tick := n\<rparr>) = server_inv w" "base_inv (w\<lparr>tick := n\<rparr>) = base_inv w"
  "events_ok (w\<lparr>tick := n\<rparr>) evs = events_ok w evs" "tracks w (w\<lparr>tick := n\<rparr>)"
  by (simp_all add: server_inv_def base_inv_def heap_ok_def owned_def attached_def armed_def
      events_ok_def accept_ok_def tracks_same cong: accept_result.case_cong)

lemma min_timeout_ok:
  assumes "base_inv w"
  shows "safe (min_timeout os w) (\<lambda>(r, w'). w' = w\<lparr>tick := Suc (tick w)\<rparr> \<and>
    (\<exists>t. clock os (tick w) = Some t \<and>
      (if mem w = Map.empty then r = -1
       else \<exists>a s. mem w a = Some s \<and>
         (\<forall>b u. mem w b = Some u \<longrightarrow> ACCUM_TIME_NS (s_ts s) \<le> ACCUM_TIME_NS (s_ts u)) \<and>
         r = (if ACCUM_TIME_NS (s_ts s) \<le> ACCUM_TIME_NS t then 0
              else to_int32 ((ACCUM_TIME_NS (s_ts s) - ACCUM_TIME_NS t) div SEC_US_FACTOR)))))"
proof (cases "clock os (tick w)")
  case None
  then show ?thesis by (simp add: min_timeout_def get_cur_time_ns_def get_cur_time_def)
next
  case (Some t)
  let ?w = "w\<lparr>tick := Suc (tick w)\<rparr>"
  have now: "get_cur_time_ns os w = Inr (ACCUM_TIME_NS t, ?w)"
    using Some by (simp add: get_cur_time_ns_def get_cur_time_def)
  show ?thesis
  proof (cases "heap_size (heap w) = 0")
    case True
    with heap_empty_iff [OF assms] Some show ?thesis
      by (simp add: min_timeout_def now binary_heap_top_def)
  next
    case False
    have b: "base_inv ?w" "0 < heap_size (heap ?w)" using assms False by simp_all
    from top_facts [OF b] obtain a s where
      top: "top_deadline ?w 0 = Inr (a, ACCUM_TIME_NS (s_ts s))" and a: "mem w a = Some s" and
      least: "\<forall>b t. mem w b = Some t \<longrightarrow> ACCUM_TIME_NS (s_ts s) \<le> ACCUM_TIME_NS (s_ts t)" by auto
    have ne: "mem w \<noteq> Map.empty" using a by auto
    have "min_timeout os w = Inr (if ACCUM_TIME_NS (s_ts s) \<le> ACCUM_TIME_NS t then 0
        else to_int32 ((ACCUM_TIME_NS (s_ts s) - ACCUM_TIME_NS t) div SEC_US_FACTOR), ?w)"
      using False by (simp add: min_timeout_def now binary_heap_top_def top)
    with ne a least Some show ?thesis by auto
  qed
qed

lemma tracks_discard:
  assumes bs: "but_slots (mem w') = but_slots (unexpired (mem w) now)"
    and so: "\<And>fd. socks w' fd = (if \<exists>a s. mem w a = Some s \<and> conn_fd s = fd \<and> expired s now
                                   then None else socks w fd)"
  shows "tracks w w'"
  unfolding tracks_def tracked_def
proof (intro allI impI)
  fix fds f
  assume tr: "\<forall>fd. socks w fd \<noteq> None \<longrightarrow> fd \<in> fds \<or> (\<exists>a s. mem w a = Some s \<and> conn_fd s = fd)"
    and op: "socks w' f \<noteq> None"
  have op': "socks w f \<noteq> None" and ne: "\<And>a s. mem w a = Some s \<Longrightarrow> conn_fd s = f \<Longrightarrow> \<not> expired s now"
    using op so [of f] by (auto split: if_splits)
  from tr op' consider "f \<in> fds" | b t where "mem w b = Some t" "conn_fd t = f" by blast
  then show "f \<in> fds \<or> (\<exists>a s. mem w' a = Some s \<and> conn_fd s = f)"
  proof cases
    case 2
    then have "unexpired (mem w) now b = Some t" using ne by (simp add: unexpired_def)
    from but_slots_eq_Some [OF bs this] obtain i where "mem w' b = Some (t\<lparr>s_heap_ix := i\<rparr>)" ..
    moreover have "conn_fd (t\<lparr>s_heap_ix := i\<rparr>) = f" using 2(2) by simp
    ultimately show ?thesis by blast
  qed blast
qed

lemma discard_ok:
  assumes "server_inv w"
  shows "\<exists>r. discard_expired_connections os w = Some r \<and> safe r (\<lambda>w'. server_inv w' \<and> tracks w w' \<and>
    zodiac_prognosises w' = zodiac_prognosises w \<and>
    (\<exists>t. clock os (tick w) = Some t \<and>
      but_slots (mem w') = but_slots (unexpired (mem w) (ACCUM_TIME_NS t)) \<and>
      (\<forall>fd. socks w' fd = (if \<exists>a s. mem w a = Some s \<and> conn_fd s = fd \<and> expired s (ACCUM_TIME_NS t)
                           then None else socks w fd))))"
proof (cases "clock os (tick w)")
  case None
  then show ?thesis by (simp add: discard_expired_connections_def get_cur_time_ns_def get_cur_time_def)
next
  case (Some t)
  let ?w = "w\<lparr>tick := Suc (tick w)\<rparr>"
  have inv: "server_inv ?w" using assms by simp
  from discard_loop_ok [OF inv, of os "ACCUM_TIME_NS t"] obtain w' where
    w': "discard_loop os ?w (ACCUM_TIME_NS t) = Some (Inr w')" "server_inv w'"
      "but_slots (mem w') = but_slots (unexpired (mem w) (ACCUM_TIME_NS t))"
      "zodiac_prognosises w' = zodiac_prognosises w"
    and so': "\<And>fd. socks w' fd = (if \<exists>a s. mem ?w a = Some s \<and> conn_fd s = fd \<and> expired s (ACCUM_TIME_NS t)
                                   then None else socks ?w fd)" by auto
  have so: "socks w' fd = (if \<exists>a s. mem w a = Some s \<and> conn_fd s = fd \<and> expired s (ACCUM_TIME_NS t)
                           then None else socks w fd)" for fd
    unfolding so' by (simp cong: if_cong)
  have "discard_expired_connections os w = Some (Inr w')"
    using Some w'(1) by (simp add: discard_expired_connections_def get_cur_time_ns_def get_cur_time_def)
  with w' so Some tracks_discard [OF w'(3) so] show ?thesis by auto
qed

lemma server_round_ok:
  assumes os: "malloc_ok os" and inv: "server_inv w" and wt: "wait_ok w x"
  shows "case server_round os w x of None \<Rightarrow> True | Some r \<Rightarrow> safe r (round_post w)"
proof (cases "min_timeout os w")
  case (Inl e)
  with min_timeout_ok [OF base_of(1) [OF inv], of os] show ?thesis by (simp add: server_round_def)
next
  case (Inr p)
  let ?w = "w\<lparr>tick := Suc (tick w)\<rparr>"
  from Inr min_timeout_ok [OF base_of(1) [OF inv], of os] obtain r where
    mt: "min_timeout os w = Inr (r, ?w)" by (cases p) auto
  have inv': "server_inv ?w" using inv by simp
  have tk: "tracks w ?w" by simp
  show ?thesis
  proof (cases x)
    case Wait_error
    with inv tk show ?thesis by (simp add: server_round_def mt round_post_def base_of)
  next
    case (Wait_events evs)
    show ?thesis
    proof (cases "evs = []")
      case True
      from discard_ok [OF inv', of os] obtain r where
        r: "discard_expired_connections os ?w = Some r" "safe r (\<lambda>w'. server_inv w' \<and> tracks ?w w')"
        by (elim exE conjE) (rule that, assumption, erule safe_mono, blast)
      then have "safe (bindc r (\<lambda>w''. Inr (True, w''))) (round_post w)"
        by (auto simp: round_post_def base_of elim!: safe_mono intro: tracks_trans [OF tk])
      with True Wait_events r show ?thesis by (simp add: server_round_def mt)
    next
      case False
      have "events_ok ?w evs" using wt Wait_events by (simp add: wait_ok_def)
      from round_post_trans [OF tk handle_events_ok [OF os inv' this]] False Wait_events
      show ?thesis by (simp add: server_round_def mt)
    qed
  qed
qed

section \<open>Reachable states\<close>

inductive reachable :: "os \<Rightarrow> server \<Rightarrow> server \<Rightarrow> bool" for os :: os and w0 :: server where
  reach_start: "reachable os w0 w0"
| reach_round: "reachable os w0 w \<Longrightarrow> wait_ok w x \<Longrightarrow> server_round os w x = Some (Inr (True, w')) \<Longrightarrow>
    reachable os w0 w'"

lemma reachable_ok:
  assumes "reachable os w0 w" and "malloc_ok os" and "server_inv w0"
  shows "server_inv w \<and> tracks w0 w"
  using assms
proof (induction rule: reachable.induct)
  case reach_start
  then show ?case by simp
next
  case (reach_round w x w')
  then have inv: "server_inv w" and tk: "tracks w0 w" by simp_all
  from server_round_ok [OF reach_round.prems(1) inv reach_round.hyps(2)] reach_round.hyps(3)
  show ?case using tracks_trans [OF tk] by (auto simp: round_post_def)
qed

text \<open>A whole run of the loop, on results of \<open>epoll_wait\<close> that respect its contract.\<close>

fun waits_ok :: "os \<Rightarrow> server \<Rightarrow> wait_result list \<Rightarrow> bool" where
  "waits_ok os w [] = True"
| "waits_ok os w (x # xs) =
     (wait_ok w x \<and>
      (case server_round os w x of Some (Inr (True, w')) \<Rightarrow> waits_ok os w' xs | _ \<Rightarrow> True))"

lemma server_loop_ok:
  assumes "malloc_ok os" and "server_inv w" and "waits_ok os w xs"
  shows "case server_loop os w xs of None \<Rightarrow> True | Some r \<Rightarrow> safe r (round_post w)"
  using assms(2,3)
proof (induction xs arbitrary: w)
  case Nil
  then show ?case by (simp add: round_post_def base_of)
next
  case (Cons x xs)
  then have wt: "wait_ok w x" by simp
  note one = server_round_ok [OF assms(1) Cons.prems(1) wt]
  show ?case
  proof (cases "server_round os w x")
    case None
    then show ?thesis by simp
  next
    case (Some r)
    show ?thesis
    proof (cases r)
      case (Inl e)
      with Some one show ?thesis by simp
    next
      case (Inr p)
      obtain go w' where p: "p = (go, w')" by fastforce
      with one Some Inr have post: "round_post w (go, w')" by simp
      show ?thesis
      proof (cases go)
        case False
        with Some Inr p post show ?thesis by simp
      next
        case True
        have "server_inv w'" and tk: "tracks w w'" using post True by (simp_all add: round_post_def)
        moreover have "waits_ok os w' xs" using Cons.prems(2) Some Inr p True by simp
        ultimately have "case server_loop os w' xs of None \<Rightarrow> True | Some r \<Rightarrow> safe r (round_post w')"
          by (intro Cons.IH)
        from round_post_trans [OF tk this] Some Inr p True show ?thesis by simp
      qed
    qed
  qed
qed

section \<open>The cleanup\<close>

lemma free_heap_elems_ok:
  assumes "base_inv w"
  shows "\<exists>w'. free_heap_elems os w = Some (Inr w') \<and> mem w' = Map.empty \<and>
    heap_size (heap w') = 0 \<and> tracks w w'"
  using assms
proof (induction "heap_size (heap w)" arbitrary: w)
  case 0
  then have "free_heap_elems os w = Some (Inr w)" by (subst free_heap_elems.simps) simp
  with 0 heap_empty_iff [OF "0.prems"] show ?case by simp
next
  case (Suc n)
  let ?a = "arr (heap w) ! n"
  have n: "n < heap_size (heap w)" "heap_size (heap w) - 1 = n" using Suc.hyps(2) by simp_all
  have inv: "heap_inv compare_server_state swap_server_state is_live deadline (heap w) (mem w)"
    using Suc.prems by (simp add: base_inv_def heap_ok_def)
  then have "n < length (arr (heap w))" "is_live (mem w) ?a"
    using n(1) by (auto simp: heap_inv_def slots_ok_def)
  then obtain s where s: "mem w ?a = Some s" and get: "arr_get (arr (heap w)) n = Inr ?a"
    by (auto simp: is_live_def)
  from remove_conn [OF Suc.prems s, of os] obtain w1 where
    rem: "remove_server_state os w ?a = Inr w1" and r: "removed w ?a s w1" by blast
  have size: "n = heap_size (heap w1)" and b1: "base_inv w1"
    using r Suc.hyps(2) by (simp_all add: removed_def)
  have loop: "free_heap_elems os w = free_heap_elems os w1"
    using n get rem by (subst free_heap_elems.simps) (simp del: One_nat_def)
  from Suc.hyps(1) [OF size b1] tracks_trans [OF tracks_removed [OF r s]] show ?case
    unfolding loop by blast
qed

section \<open>The whole process\<close>

text \<open>\<open>malloc (n)\<close> for the heap returns a block of \<open>n div 8\<close> pointers.\<close>

definition startup_ok :: "startup \<Rightarrow> bool" where
  "startup_ok su \<longleftrightarrow> (\<forall>n xs. su_slots su n = Some xs \<longrightarrow> length xs = n div 8) \<and> su_epoll su \<noteq> su_socket su"

lemma blank_prognoses: "prognoses_ok (zodiac_prognosises blank_server)"
  by (simp add: blank_server_def prognoses_ok_def)

lemma main_setup_ok:
  assumes "startup_ok su"
  shows "case main_setup su os of
      Inl w \<Rightarrow> socks w = Map.empty \<and> mem w = Map.empty \<and> arr (heap w) = []
    | Inr w \<Rightarrow> server_inv w \<and> mem w = Map.empty \<and> tracked w {su_socket su, su_epoll su} \<and>
        capacity (heap w) = CLIENT_CON_NUM \<and> heap_size (heap w) = 0"
proof -
  let ?l = "su_socket su" and ?e = "su_epoll su"
  let ?w1 = "open_fd (open_fd blank_server ?l) ?e"
  obtain r w2 where ep: "configure_epoll os ?w1 EPOLL_CTL_ADD ?l EPOLLIN None = (r, w2)" by fastforce
  note cf = configure_frame [OF ep]
  have b: "mem w2 = Map.empty" "socks w2 = socks ?w1" "prognoses_ok (zodiac_prognosises w2)" "arr (heap w2) = []"
    using cf blank_prognoses by (simp_all add: open_fd_def blank_server_def)
  have so: "socks ?w1 fd = None" if "fd \<noteq> ?l" "fd \<noteq> ?e" for fd
    using that by (simp add: open_fd_def blank_server_def)
  have it: "interest w2 fd \<noteq> Some (ev, Some a)" for fd ev a
    using ep by (auto simp: configure_epoll_def epoll_ctl_def open_fd_def blank_server_def Let_def
        split: if_splits)
  have closed: "socks (close_fd (close_fd w2 ?e) ?l) = Map.empty \<and>
      mem (close_fd (close_fd w2 ?e) ?l) = Map.empty \<and> arr (heap (close_fd (close_fd w2 ?e) ?l)) = []"
    using so b by (auto simp: close_fd_def fun_eq_iff)
  have closed1: "socks (close_fd (open_fd blank_server ?l) ?l) = Map.empty"
    "mem (close_fd (open_fd blank_server ?l) ?l) = Map.empty"
    "arr (heap (close_fd (open_fd blank_server ?l) ?l)) = []"
    by (auto simp: close_fd_def open_fd_def blank_server_def)
  have ready: "server_inv (w2\<lparr>heap := h\<rparr>) \<and> tracked (w2\<lparr>heap := h\<rparr>) {?l, ?e} \<and>
      capacity h = CLIENT_CON_NUM \<and> heap_size h = 0"
    if "binary_heap_allocate (su_slots su) CLIENT_CON_NUM 8 compare_server_state swap_server_state =
          (r', Some h)" for r' h
  proof -
    from that obtain xs where xs: "su_slots su (CLIENT_CON_NUM * 8) = Some xs" and
      h: "h = \<lparr>arr = xs, capacity = CLIENT_CON_NUM, heap_size = 0, elem_size = 8,
               cmp_fn = compare_server_state, swap_fn = swap_server_state\<rparr>"
      by (auto simp: binary_heap_allocate_def heap_bytes_def CLIENT_CON_NUM_def split: option.splits)
    from xs assms have "length xs = CLIENT_CON_NUM * 8 div 8" unfolding startup_ok_def by blast
    then have "heap_ok (w2\<lparr>heap := h\<rparr>)"
      using b(1) by (simp add: heap_ok_def heap_inv_def slots_ok_def heap_ord_def indexed_def elems_def h)
    then have "server_inv (w2\<lparr>heap := h\<rparr>)"
      using b it by (simp add: server_inv_def owned_def)
    moreover have "tracked (w2\<lparr>heap := h\<rparr>) {?l, ?e}" using b(2) so by (auto simp: tracked_def)
    ultimately show ?thesis using h by simp
  qed
  have blank: "socks blank_server = Map.empty" "mem blank_server = Map.empty" "arr (heap blank_server) = []"
    by (simp_all add: blank_server_def)
  show ?thesis
    using closed closed1 ready b(1)
    by (simp add: main_setup_def Let_def ep blank split: prod.splits option.splits)
qed

end
