(* ===== verification/Server_Event.thy ===== *)
theory Server_Event
  imports Server_Process
begin

text \<open>
  One readiness event of a connection, from the bytes \<open>recv\<close> delivers to the state the connection
  is left in: \<open>update_state\<close> against \<open>consume\<close>.
\<close>

section \<open>The first iteration refills the buffer\<close>

lemma refill_chunk:
  assumes ok: "buffer_ok b" and e: "buf_pos b = buf_len b"
    and recv: "sock_recv sk ASTROLOG_BUF_LEN = (r, d, sk')" and r: "0 < r"
  shows "\<exists>b1. buffer_refill sk b = Inr (None, b1, sk') \<and> buffer_ok b1 \<and> buf_fd b1 = buf_fd b \<and>
    pending b1 = d \<and> d \<noteq> [] \<and> buf_pos b1 \<noteq> buf_len b1"
proof -
  have d: "length d = nat r" "length d \<le> ASTROLOG_BUF_LEN" "d \<noteq> []"
    using sock_recv_result [OF recv] r by auto
  let ?b1 = "b\<lparr>buf_pos := 0, buf_len := nat r, buf_data := blit (buf_data b) 0 d\<rparr>"
  have fits: "0 + length d \<le> length (buf_data b)" using ok d by (simp add: buffer_ok_def)
  then have "buffer_refill sk b = Inr (None, ?b1, sk')"
    using e recv r by (simp add: buffer_refill_def)
  moreover have "buffer_ok ?b1" using ok d fits by (simp add: buffer_ok_def)
  moreover have "pending ?b1 = d" by (simp add: pending_def subarray_from_0 flip: d(1))
  ultimately show ?thesis using d r by fastforce
qed

lemma recv_refilled:
  assumes fill: "buffer_refill sk b = Inr (None, b1, sk1)" and ne: "buf_pos b1 \<noteq> buf_len b1"
  shows "buffered_recv_until_delim sk1 b1 dst off n c = buffered_recv_until_delim sk b dst off n c"
proof -
  have "buffer_refill sk1 b1 = Inr (None, b1, sk1)" using ne by (simp add: buffer_refill_def)
  with fill show ?thesis by (simp add: buffered_recv_until_delim_def)
qed

lemma put_sock_twice:
  "socks w fd \<noteq> None \<Longrightarrow>
     put_state (put_sock (put_state (put_sock w fd sk1) a s1) fd sk2) a s2 = put_state (put_sock w fd sk2) a s2"
  by (auto simp: put_state_def put_sock_def put_at_def)

lemma dispatch_refilled:
  assumes a: "mem w a = Some s" and op: "socks w (conn_fd s) \<noteq> None"
    and rd: "reads (phase_of s)"
    and fill: "buffer_refill (fd_sock w (conn_fd s)) (s_interm_buf s) = Inr (None, b1, sk1)"
    and b1: "buf_pos b1 \<noteq> buf_len b1" "buf_fd b1 = conn_fd s"
  shows "dispatch os (put_state (put_sock w (conn_fd s) sk1) a (s\<lparr>s_interm_buf := b1\<rparr>)) a = dispatch os w a"
proof -
  let ?fd = "conn_fd s" and ?s1 = "s\<lparr>s_interm_buf := b1\<rparr>"
  let ?w1 = "put_state (put_sock w ?fd sk1) a ?s1"
  have sk: "fd_sock ?w1 ?fd = sk1" using op by (auto simp: fd_sock_def sock_at_def put_sock_def put_at_def)
  have "recv_to_state ?w1 a = recv_to_state w a"
    using a b1(2) op
    by (simp add: recv_to_state_def sk recv_refilled [OF fill b1(1)] put_sock_twice)
  moreover have "s_state s = STATE_RECV_FIRST_LINE \<or> s_state s = STATE_RECV_H"
    using rd by (cases "s_state s") (simp_all add: phase_of_def)
  ultimately show ?thesis
    using a by (auto simp: dispatch_def handle_first_line_def handle_recv_h_def)
qed

text \<open>A chunk that arrives for an idle connection is consumed as the protocol machine does.\<close>

lemma update_loop_chunk:
  assumes inv: "proc_inv w a" and a: "mem w a = Some s" and rd: "reads (phase_of s)" and nu: "\<not> unread s"
    and recv: "sock_recv (fd_sock w (conn_fd s)) ASTROLOG_BUF_LEN = (r, d, sk')" and r: "0 < r"
  shows "loop_end w a s (consume (phase_of s) (table w) d) (update_loop os w a)"
proof -
  let ?fd = "conn_fd s"
  have ok: "conn_ok s" by (rule proc_conn [OF inv a])
  note rf = reads_facts [OF ok rd]
  have bok: "buffer_ok (s_interm_buf s)" using ok by (simp add: conn_ok_def)
  have e: "buf_pos (s_interm_buf s) = buf_len (s_interm_buf s)" using nu rf(1) by (simp add: unread_def)
  from refill_chunk [OF bok e recv r] obtain b1 where
    fill: "buffer_refill (fd_sock w ?fd) (s_interm_buf s) = Inr (None, b1, sk')" and
    b1: "buffer_ok b1" "buf_fd b1 = ?fd" "pending b1 = d" "d \<noteq> []" "buf_pos b1 \<noteq> buf_len b1" by blast
  have op: "socks w ?fd \<noteq> None" using inv a by (auto simp: proc_inv_def attached_def)
  let ?s1 = "s\<lparr>s_interm_buf := b1\<rparr>" and ?w1 = "put_state (put_sock w ?fd sk') a (s\<lparr>s_interm_buf := b1\<rparr>)"
  have ok1: "conn_ok ?s1" using ok b1(1) by (simp add: conn_defs cong: server_state_type.case_cong)
  have p1: "proc_inv ?w1 a" by (rule proc_put(2) [OF inv a ok1]) (simp_all add: b1)
  have f1: "frame a w ?w1" by (rule frame_put(2) [OF a]) (simp add: b1)
  have m1: "mem ?w1 a = Some ?s1" by simp
  have ph1: "phase_of ?s1 = phase_of s" by (simp add: phase_of_def cong: server_state_type.case_cong)
  have u1: "unread ?s1" using rf(1) b1(5) by (simp add: unread_def)
  have "dispatch os ?w1 a = dispatch os w a" by (rule dispatch_refilled [OF a op rd fill b1(5,2)])
  then have loop: "update_loop os ?w1 a = update_loop os w a"
    by (simp add: update_loop.simps [of os w a] update_loop.simps [of os ?w1 a])
  have sk: "fd_sock ?w1 ?fd = sk'" using op by (auto simp: fd_sock_def sock_at_def put_sock_def put_at_def)
  have snt: "sent (fd_sock ?w1 ?fd) = sent (fd_sock w ?fd)" using sk sock_recv_frame [OF recv] by simp
  have "loop_end ?w1 a ?s1 (consume (phase_of ?s1) (table ?w1) (pending (s_interm_buf ?s1)))
      (update_loop os ?w1 a)"
    by (rule update_loop_consume [OF p1 m1 u1]) (simp add: ph1 rd)
  then have "loop_end ?w1 a ?s1 (consume (phase_of s) (table w) d) (update_loop os w a)"
    unfolding loop ph1 by (simp add: b1 table_def)
  from loop_end_trans [OF this f1 _ snt] show ?thesis by (simp add: b1)
qed

section \<open>After the loop\<close>

text \<open>
  What \<open>update_state\<close> makes of the result of the loop: a finished connection is gone and its
  descriptor closed, another one waits for what its phase needs.
\<close>

definition settles :: "server \<Rightarrow> addr \<Rightarrow> phase \<Rightarrow> prognoses \<Rightarrow> string \<Rightarrow> server \<Rightarrow> bool" where
  "settles w a ph ps rest w' \<longleftrightarrow> table w' = ps \<and>
     (if ph = Failed \<or> ph = Done then mem w' a = None \<and> socks w' (fd_of w a) = None
      else \<exists>s. mem w' a = Some s \<and> phase_of s = ph \<and> pending (s_interm_buf s) = rest \<and>
             conn_fd s = fd_of w a)"

lemma settle_result:
  assumes inv: "proc_inv w a" and a: "mem w a = Some s"
  shows "safe (settle_state os w a init)
    (\<lambda>(r, w'). settles w a (phase_of s) (table w) (pending (s_interm_buf s)) w' \<and>
       (mem w' a \<noteq> None \<longrightarrow> fd_sock w' (conn_fd s) = fd_sock w (conn_fd s)))"
proof (cases "finished s")
  case True
  from remove_conn [OF base_of(2) [OF inv] a, of os] obtain w' where
    rem: "remove_server_state os w a = Inr w'" "removed w a s w'" by blast
  have "but_slots (mem w') = but_slots ((mem w)(a := None))" using rem(2) by (simp add: removed_def)
  then have "mem w' a = None" by (rule but_slots_None) simp
  moreover have "socks w' (conn_fd s) = None" "table w' = table w"
    using rem(2) by (simp_all add: removed_def table_def)
  ultimately show ?thesis using True a rem(1) finished_phase [of s]
    by (auto simp: settle_state_def finished_def settles_def fd_of_def)
next
  case False
  obtain r w' where ep: "configure_epoll os w EPOLL_CTL_MOD (conn_fd s) (event_of (s_op s)) (Some a) = (r, w')"
    by fastforce
  have "settle_state os w a init = Inr (if s_op s = init then 0 else if r \<noteq> 0 then -1 else 0,
      if s_op s = init then w else w')"
    using a False ep by (auto simp: settle_state_def finished_def event_of_def)
  then show ?thesis using configure_frame [OF ep] a False finished_phase [of s]
    by (auto simp: settles_def table_def fd_of_def fd_sock_def sock_at_def)
qed

lemma update_state_loop:
  assumes inv: "proc_inv w a" and a: "mem w a = Some s"
    and f1: "frame a w w1" and s1: "mem w1 a = Some s1"
    and loop: "loop_end w1 a s1 (ph, ps, rest) (update_loop os w a)"
  shows "case update_state os w a of
      None \<Rightarrow> ph = Failed \<and> rest \<noteq> []
    | Some r \<Rightarrow> safe r (\<lambda>(_, w'). settles w a ph ps rest w' \<and>
        (mem w' a \<noteq> None \<longrightarrow> sent (fd_sock w' (conn_fd s)) = sent (fd_sock w1 (conn_fd s))))"
proof (cases "update_loop os w a")
  case None
  with loop a show ?thesis by (simp add: update_state_def loop_end_def)
next
  case (Some r)
  have fd1: "conn_fd s1 = conn_fd s" "fd_of w1 a = fd_of w a"
    using f1 s1 a by (simp_all add: frame_def fd_of_def)
  show ?thesis
  proof (cases r)
    case (Inl e)
    with loop Some a show ?thesis by (simp add: update_state_def loop_end_def)
  next
    case (Inr w2)
    with loop Some obtain s2 where w2: "proc_inv w2 a" "frame a w1 w2" "table w2 = ps"
      "sent (fd_sock w2 (conn_fd s1)) = sent (fd_sock w1 (conn_fd s1))" and s2: "mem w2 a = Some s2"
      "phase_of s2 = ph" "pending (s_interm_buf s2) = rest" by (auto simp: loop_end_def)
    have fd: "conn_fd s2 = conn_fd s" "fd_of w2 a = fd_of w a"
      using w2(2) s1 s2(1) fd1 by (simp_all add: frame_def fd_of_def)
    have "safe (settle_state os w2 a (s_op s)) (\<lambda>(_, w'). settles w a ph ps rest w' \<and>
        (mem w' a \<noteq> None \<longrightarrow> sent (fd_sock w' (conn_fd s)) = sent (fd_sock w1 (conn_fd s))))"
      using settle_result [OF w2(1) s2(1), of os "s_op s"]
      by (rule safe_mono) (use w2 s2 fd fd1 in \<open>auto simp: settles_def\<close>)
    with a Some Inr show ?thesis by (simp add: update_state_def)
  qed
qed

section \<open>Events that end the input, and events of a sending connection\<close>

lemma recv_nothing:
  assumes ok: "conn_ok s" and op: "s_op s = OP_READ" and nu: "\<not> unread s"
    and recv: "sock_recv (fd_sock w (conn_fd s)) ASTROLOG_BUF_LEN = (r, d, sk')" and r: "r \<le> 0"
  shows "conn_input w s = []"
proof -
  have "stream (rx (fd_sock w (conn_fd s))) = []"
    using sock_recv_end [OF recv r] by (simp add: ASTROLOG_BUF_LEN_def)
  moreover have "pending (s_interm_buf s) = []" using unread_pending [OF ok] op nu by simp
  ultimately show ?thesis by (simp add: conn_input_def input_def)
qed

lemma update_loop_stop:
  assumes inv: "proc_inv w a" and a: "mem w a = Some s" and rd: "reads (phase_of s)"
    and e: "conn_input w s = []"
  shows "loop_end w a s (Failed, table w, []) (update_loop os w a) \<or>
    phase_of s = Reading [] \<and> loop_end w a s (Done, table w, []) (update_loop os w a)"
proof (cases "dispatch os w a")
  case (Inl x)
  with dispatch_reads [OF inv a rd, of os] have "update_loop os w a = Some (Inl Exit_failure)"
    by (simp add: update_loop.simps)
  then show ?thesis by (simp add: loop_end_def)
next
  case (Inr w')
  with dispatch_reads [OF inv a rd, of os] obtain s' t where
    w': "proc_inv w' a" "frame a w w'" and s': "mem w' a = Some s'" and tk: "taken w s t w' s'"
    and st: "t = [] \<longrightarrow> table w' = table w \<and>
           (phase_of s' = Failed \<or> phase_of s' = Done \<and> phase_of s = Reading [])"
    by (auto simp: read_step_def)
  have t: "t = []" using tk e by (auto simp: taken_def)
  with tk have p: "pending (s_interm_buf s') = []" "sent (fd_sock w' (conn_fd s)) = sent (fd_sock w (conn_fd s))"
    by (simp_all add: taken_def)
  then have nu: "\<not> unread s'" using unread_pending [OF proc_conn [OF w'(1) s']] by simp
  then have "update_loop os w a = Some (Inr w')" using Inr s' by (simp add: update_loop.simps)
  with w' s' nu p st t show ?thesis by (auto simp: loop_end_def)
qed

text \<open>
  A sending connection: the socket accepts some of the bytes left; when all are sent the loop goes
  on with the bytes that are already in the buffer.
\<close>

lemma update_state_after:
  assumes inv: "proc_inv w a" and a: "mem w a = Some s"
    and w1: "proc_inv w1 a" "frame a w w1" and s1: "mem w1 a = Some s1"
    and loop: "update_loop os w a = (if unread s1 then update_loop os w1 a else Some (Inr w1))"
    and ph: "reads (phase_of s1) \<or> \<not> unread s1"
    and con: "consume (phase_of s1) (table w1) (pending (s_interm_buf s1)) = (ph, ps, rest)"
  shows "case update_state os w a of
      None \<Rightarrow> ph = Failed \<and> rest \<noteq> []
    | Some r \<Rightarrow> safe r (\<lambda>(_, w'). settles w a ph ps rest w' \<and>
        (mem w' a \<noteq> None \<longrightarrow> sent (fd_sock w' (conn_fd s)) = sent (fd_sock w1 (conn_fd s))))"
proof (cases "unread s1")
  case True
  with ph have rd: "reads (phase_of s1)" by blast
  have "loop_end w1 a s1 (ph, ps, rest) (update_loop os w a)"
    using update_loop_consume [OF w1(1) s1 True rd, of os] con True loop by simp
  from update_state_loop [OF inv a w1(2) s1 this] show ?thesis .
next
  case False
  have fd: "conn_fd s1 = conn_fd s" "fd_of w1 a = fd_of w a"
    using w1(2) s1 a by (simp_all add: frame_def fd_of_def)
  have ok1: "conn_ok s1" by (rule proc_conn [OF w1(1) s1])
  have stop: "room (phase_of s1) = 0 \<or> pending (s_interm_buf s1) = []"
    using False unread_pending [OF ok1] reads_facts(1) [OF ok1] not_reads_room by blast
  then have r: "ph = phase_of s1" "ps = table w1" "rest = pending (s_interm_buf s1)"
    using con by (auto simp: consume_stop)
  have "safe (settle_state os w1 a (s_op s)) (\<lambda>(_, w'). settles w a ph ps rest w' \<and>
      (mem w' a \<noteq> None \<longrightarrow> sent (fd_sock w' (conn_fd s)) = sent (fd_sock w1 (conn_fd s))))"
    using settle_result [OF w1(1) s1, of os "s_op s"]
    by (rule safe_mono) (use r fd in \<open>auto simp: settles_def\<close>)
  with a loop False show ?thesis by (simp add: update_state_def)
qed

lemma update_state_send:
  assumes inv: "proc_inv w a" and a: "mem w a = Some s" and op: "s_op s = OP_WRITE" and q: "\<not> finished s"
    and send: "sock_send (fd_sock w (conn_fd s)) (unsent (phase_of s)) = (r, sk')"
    and con: "consume (if r < 0 then Failed else on_sent (phase_of s) (nat r)) (table w)
                (pending (s_interm_buf s)) = (ph, ps, rest)"
  shows "case update_state os w a of
      None \<Rightarrow> 0 \<le> r \<and> ph = Failed \<and> rest \<noteq> []
    | Some res \<Rightarrow> safe res (\<lambda>(_, w'). settles w a ph ps rest w' \<and>
        (mem w' a \<noteq> None \<longrightarrow> sent (fd_sock w' (conn_fd s)) = sent sk'))"
proof -
  have ok: "conn_ok s" by (rule proc_conn [OF inv a])
  have nr: "\<not> reads (phase_of s)" using reads_facts(1) [OF ok] op by auto
  show ?thesis
  proof (cases "dispatch os w a")
    case (Inl e)
    with dispatch_sends [OF inv a nr q, of os] have "update_loop os w a = Some (Inl Exit_failure)"
      by (simp add: update_loop.simps)
    with a show ?thesis by (simp add: update_state_def)
  next
    case (Inr w1)
    with dispatch_sends [OF inv a nr q, of os] send obtain s1 where
      w1: "proc_inv w1 a" "frame a w w1" "table w1 = table w" and s1: "mem w1 a = Some s1"
      and b1: "s_interm_buf s1 = s_interm_buf s" and sk: "fd_sock w1 (conn_fd s) = sk'"
      and ph1: "if r < 0 then phase_of s1 = Failed \<and> s_op s1 = OP_WRITE
                else phase_of s1 = on_sent (phase_of s) (nat r)" by (auto simp: send_step_def)
    have ok1: "conn_ok s1" by (rule proc_conn [OF w1(1) s1])
    have loop: "update_loop os w a = (if unread s1 then update_loop os w1 a else Some (Inr w1))"
      using Inr s1 by (simp add: update_loop.simps)
    have nf: "\<not> finished s1" if "0 \<le> r"
      using ph1 that nr q finished_phase [of s] finished_phase [of s1] by (cases "phase_of s") auto
    have rd: "reads (phase_of s1) \<or> \<not> unread s1"
    proof (cases "r < 0")
      case True
      with ph1 show ?thesis by (simp add: unread_def)
    next
      case False
      with nf sends_op(1) [OF ok1] show ?thesis by (cases "reads (phase_of s1)") (auto simp: unread_def)
    qed
    have con1: "consume (phase_of s1) (table w1) (pending (s_interm_buf s1)) = (ph, ps, rest)"
      using con ph1 by (simp add: w1 b1 split: if_splits)
    have neg: "update_state os w a \<noteq> None" if "r < 0"
      using that ph1 loop a by (auto simp: update_state_def unread_def)
    have "update_state os w a = None \<Longrightarrow> 0 \<le> r" using neg by (rule_tac leI) blast
    with update_state_after [OF inv a w1(1,2) s1 loop rd con1] sk show ?thesis
      by (cases "update_state os w a") auto
  qed
qed

end
