(* ===== verification/Server_Clock.thy ===== *)
theory Server_Clock
  imports Server_Event
begin

text \<open>
  The only call of \<open>exit\<close> in the server is the one after a failed \<open>clock_gettime\<close>. With a clock that
  works, the end of the loop of \<open>update_state\<close> is decided by the protocol machine alone.
\<close>

named_theorems stay_intros \<open>operations that do not leave the process\<close>

definition stays :: "'a c_result \<Rightarrow> bool" where
  "stays r \<longleftrightarrow> r \<noteq> Inl Exit_failure"

lemma stays_Inr [stay_intros]: "stays (Inr x)" and stays_Undefined [stay_intros]: "stays (Inl Undefined)"
  by (simp_all add: stays_def)

lemma stays_bindc [stay_intros]:
  "stays r \<Longrightarrow> (\<And>x. r = Inr x \<Longrightarrow> stays (f x)) \<Longrightarrow> stays (bindc r f)"
  by (cases r) (simp_all add: stays_def)

lemma stays_access [stay_intros]:
  "stays (arr_get xs i)" "stays (arr_set xs i v)" "stays (mem_read xs i n)" "stays (memcpy d i y)"
  "stays (memchr xs i c n)" "stays (deref m a)" "stays (log_str z i)" "stays (last_byte s)"
  by (simp_all add: stays_def arr_get_def arr_set_def mem_read_def memcpy_def memchr_def deref_def
      log_str_def last_byte_def split: option.splits)

lemma stays_clear_last [stay_intros]: "stays (clear_last s)"
  by (simp add: clear_last_def stay_intros)

lemma stays_callbacks [stay_intros]: "stays (compare_server_state m x y)" "stays (swap_server_state m x y)"
  by (simp_all add: compare_server_state_def swap_server_state_def Let_def stay_intros)

text \<open>The heap of the server, whose callbacks do not exit.\<close>

definition calm :: "(addr, memory) binary_heap \<Rightarrow> bool" where
  "calm h \<longleftrightarrow> cmp_fn h = compare_server_state \<and> swap_fn h = swap_server_state"

lemma stays_heap_compare [stay_intros]: "calm h \<Longrightarrow> stays (heap_compare h m i j)"
  by (simp add: heap_compare_def calm_def stay_intros)

lemma stays_heap_swap [stay_intros]: "calm h \<Longrightarrow> stays (heap_swap h m i j)"
  by (auto simp: heap_swap_def calm_def intro!: stay_intros)

lemma calm_swap: "calm h \<Longrightarrow> heap_swap h m i j = Inr (h', m') \<Longrightarrow> calm h'"
  by (auto simp: heap_swap_def calm_def)

lemma stays_heapify_up [stay_intros]: "calm h \<Longrightarrow> stays (heapify_up h m ix)"
proof (induction h m ix rule: heapify_up.induct)
  case (1 h m ix)
  have "stays (heapify_up h' m' (PARENT ix))"
    if "0 < ix" "heap_compare h m ix (PARENT ix) = Inr False" "heap_swap h m ix (PARENT ix) = Inr (h', m')"
    for h' m'
    using "1.IH" [OF that(1,2) _ that(3) refl] calm_swap [OF "1.prems" that(3)] by simp
  with "1.prems" show ?case
    by (subst heapify_up.simps) (auto intro!: stay_intros)
qed

lemma stays_select_child [stay_intros]: "calm h \<Longrightarrow> stays (select_child h m ix)"
  by (simp add: select_child_def Let_def stay_intros)

lemma stays_heapify_down_loop [stay_intros]: "calm h \<Longrightarrow> stays (heapify_down_loop h m l ix)"
proof (induction h m l ix rule: heapify_down_loop.induct)
  case (1 h m l ix)
  have "stays (heapify_down_loop h' m' l c)"
    if "ix \<le> l" "select_child h m ix = Inr c" "heap_compare h m c ix = Inr False"
      "heap_swap h m ix c = Inr (h', m')" for c h' m'
    using "1.IH" [OF that(1-3) _ that(4) refl] calm_swap [OF "1.prems" that(4)] by simp
  with "1.prems" show ?case
    by (subst heapify_down_loop.simps) (auto intro!: stay_intros)
qed

lemma stays_heap_update [stay_intros]: "calm h \<Longrightarrow> stays (binary_heap_update h m ix)"
  by (auto simp: binary_heap_update_def heapify_down_def intro!: stay_intros)

lemma stays_refresh:
  assumes "clock os (tick w) \<noteq> None" and "calm (heap w)"
  shows "stays (update_server_state_ts os w a)"
  using assms
  by (auto simp: update_server_state_ts_def update_ts_def get_cur_time_def Let_def put_state_def
      intro!: stay_intros)

section \<open>The handlers\<close>

lemma stays_recv [stay_intros]: "stays (buffered_recv_until_delim sk b dst off n c)"
  by (auto simp: buffered_recv_until_delim_def buffer_refill_def Let_def intro!: stay_intros
      split: prod.splits option.splits)

lemma stays_recv_to_state [stay_intros]: "stays (recv_to_state w a)"
  by (auto simp: recv_to_state_def Let_def intro!: stay_intros)

lemma stays_find_zodiac [stay_intros]: "stays (find_zodiac z n)"
proof -
  have "stays (find_zodiac_loop names i z n)" for names i
    by (induction names arbitrary: i) (auto simp: Let_def intro!: stay_intros)
  then show ?thesis by (simp add: find_zodiac_def)
qed

lemma stays_client_reply [stay_intros]: "stays (client_reply p)"
  by (auto simp: client_reply_def intro!: stay_intros split: option.splits)

lemma heap_put: "heap (put_state w a s) = heap w" "heap (put_sock w fd sk) = heap w"
  by (simp_all add: put_state_def put_sock_def put_at_def)

lemma stays_parse:
  assumes "\<And>n. clock os n \<noteq> None" and "calm (heap w)"
  shows "stays (parse_star_first_line os w a)" and "stays (parse_client_first_line os w a)"
  using assms
  by (auto simp: parse_star_first_line_def parse_client_first_line_def Let_def heap_put
      intro!: stay_intros stays_refresh split: option.splits)

lemma calm_recv: "recv_to_state w a = Inr (r, w1) \<Longrightarrow> heap w1 = heap w"
  by (auto simp: recv_to_state_def Let_def heap_put)

lemma stays_dispatch:
  assumes "\<And>n. clock os n \<noteq> None" and "calm (heap w)"
  shows "stays (dispatch os w a)"
proof -
  have "stays (handle_first_line os w a)"
    using assms by (auto simp: handle_first_line_def Let_def heap_put calm_recv
        intro!: stay_intros stays_parse)
  moreover have "stays (handle_recv_h os w a)"
    using assms by (auto simp: handle_recv_h_def Let_def heap_put calm_recv
        intro!: stay_intros stays_refresh)
  moreover have "stays (handle_send_reply os w a)"
    using assms by (auto simp: handle_send_reply_def Let_def heap_put
        intro!: stay_intros stays_refresh split: prod.splits)
  ultimately show ?thesis
    by (auto simp: dispatch_def intro!: stay_intros split: server_state_type.splits)
qed

lemma calm_inv: "base_inv w \<Longrightarrow> calm (heap w)"
  by (simp add: base_inv_def heap_ok_def heap_inv_def slots_ok_def calm_def)

section \<open>The loop\<close>

lemma update_loop_stays:
  assumes clk: "\<And>n. clock os n \<noteq> None" and "update_loop os w a = Some y" and "proc_inv w a"
  shows "stays y"
proof -
  have "proc_inv w a \<longrightarrow> stays y"
  proof (rule update_loop.raw_induct [OF _ assms(2),
        where P = "\<lambda>os' w a y. os' = os \<longrightarrow> proc_inv w a \<longrightarrow> stays y", simplified])
    fix loop :: "os \<Rightarrow> server \<Rightarrow> addr \<Rightarrow> server c_result option" and os' w a y
    assume IH: "\<And>os' w a y. loop os' w a = Some y \<Longrightarrow> os' = os \<longrightarrow> proc_inv w a \<longrightarrow> stays y"
      and body: "(case dispatch os' w a of Inl e \<Rightarrow> Some (Inl e)
        | Inr w' \<Rightarrow> (case deref (mem w') a of Inl e \<Rightarrow> Some (Inl e)
            | Inr s \<Rightarrow> if unread s then loop os' w' a else Some (Inr w'))) = Some y"
    show "os' = os \<longrightarrow> proc_inv w a \<longrightarrow> stays y"
    proof (intro impI)
      assume os: "os' = os" and inv: "proc_inv w a"
      from proc_mem [OF inv] obtain s where s: "mem w a = Some s" ..
      have st: "stays (dispatch os w a)" by (rule stays_dispatch [OF clk calm_inv [OF base_of(2) [OF inv]]])
      show "stays y"
      proof (cases "dispatch os w a")
        case (Inl e)
        with st body os show ?thesis by (auto simp: stays_def)
      next
        case (Inr w')
        with one_step [OF inv s, of os] have inv': "proc_inv w' a" by simp
        from proc_mem [OF inv'] obtain s' where s': "mem w' a = Some s'" ..
        show ?thesis
        proof (cases "unread s'")
          case True
          then have "loop os w' a = Some y" using body os Inr s' by simp
          with IH inv' show ?thesis by blast
        next
          case False
          then show ?thesis using body os Inr s' by (auto simp: stays_def)
        qed
      qed
    qed
  qed
  with assms(3) show ?thesis by simp
qed

text \<open>With a working clock the loop ends exactly when the machine does not fail with bytes left.\<close>

lemma loop_end_clock:
  assumes clk: "\<And>n. clock os n \<noteq> None" and inv: "proc_inv w a"
    and le: "loop_end w a s (ph, ps, rest) (update_loop os w a)"
  shows "update_loop os w a = None \<longleftrightarrow> ph = Failed \<and> rest \<noteq> []"
proof (cases "update_loop os w a")
  case None
  with le show ?thesis by (simp add: loop_end_def)
next
  case (Some r)
  from update_loop_stays [OF clk Some inv] have "stays r" .
  with le Some show ?thesis
    by (cases r) (auto simp: loop_end_def stays_def)
qed

end
