(* ===== verification/Server_Example.thy ===== *)
theory Server_Example
  imports Server_Clock
begin

text \<open>
  A small concrete process on which the theorems about the server are exercised: an operating system
  whose calls succeed, and a server with a single connection in a heap with room for two.
\<close>

definition ex_state :: "int \<Rightarrow> server_state" where
  "ex_state fd =
     \<lparr>s_interm_buf = \<lparr>buf_fd = fd, buf_data = replicate (ASTROLOG_BUF_LEN + 1) NUL, buf_pos = 0, buf_len = 0\<rparr>,
      s_buf = replicate (ASTROLOG_BUF_LEN + 1) NUL, s_cur_pos = 0, s_rem = int ASTROLOG_BUF_LEN,
      s_zodiac_ix = ZODIAC_UNKOWN, s_state = STATE_RECV_FIRST_LINE, s_op = OP_READ,
      s_ts = \<lparr>tv_sec = 300, tv_nsec = 0\<rparr>, s_heap_ix = 0\<rparr>"

definition ex_os :: os where
  "ex_os = \<lparr>clock = \<lambda>_. Some \<lparr>tv_sec = 1, tv_nsec = 0\<rparr>,
            malloc = \<lambda>_ m. (if m 1 = None then Some (1, ex_state 0) else None),
            epoll_ctl_ok = \<lambda>_. True\<rparr>"

definition ex_server :: "server_state \<Rightarrow> sock \<Rightarrow> string list \<Rightarrow> server" where
  "ex_server s sk ps =
     \<lparr>mem = [0 \<mapsto> s],
      heap = \<lparr>arr = [0, 0], capacity = 2, heap_size = 1, elem_size = 8,
              cmp_fn = compare_server_state, swap_fn = swap_server_state\<rparr>,
      zodiac_prognosises = ps,
      socks = [conn_fd s \<mapsto> sk], interest = [conn_fd s \<mapsto> (event_of (s_op s), Some 0)], tick = 0\<rparr>"

definition ex_table :: "string list" where
  "ex_table = replicate ZODIAC_NUM (replicate (ASTROLOG_BUF_LEN + 1) NUL)"

definition ex_sock :: "recv_event list \<Rightarrow> sock" where
  "ex_sock es = \<lparr>rx = es, tx = [], sent = []\<rparr>"

lemma ex_os_ok: "malloc_ok ex_os" "clock ex_os n \<noteq> None"
  by (simp_all add: malloc_ok_def ex_os_def ex_state_def ASTROLOG_BUF_LEN_def split: if_splits)

lemma ex_table_ok: "prognoses_ok ex_table"
  by (simp add: ex_table_def prognoses_ok_def)

lemma ex_inv:
  assumes "conn_ok s" and "quiet s" and "s_heap_ix s = 0" and "prognoses_ok ps"
  shows "server_inv (ex_server s sk ps)"
proof -
  let ?w = "ex_server s sk ps"
  have "heap_ok ?w"
    using assms(3)
    by (simp add: heap_ok_def heap_inv_def slots_ok_def heap_ord_def indexed_def elems_def slot_of_def
        is_live_def ex_server_def)
  moreover have "owned ?w" by (auto simp: owned_def ex_server_def split: if_splits)
  moreover have "attached ?w 0 s" "armed ?w s" by (auto simp: attached_def armed_def ex_server_def)
  ultimately show ?thesis using assms by (auto simp: server_inv_def ex_server_def split: if_splits)
qed

lemma ex_mem [simp]: "mem (ex_server s sk ps) 0 = Some s"
  by (simp add: ex_server_def)

lemma ex_sk [simp]: "fd_sock (ex_server s sk ps) (conn_fd s) = sk"
  by (simp add: ex_server_def fd_sock_def sock_at_def)

lemma ex_state_new: "new_conn fd (ex_state fd)"
  by (simp add: new_conn_def ex_state_def del: replicate_Suc)

lemma ex_state_ok: "conn_ok (ex_state fd)" "quiet (ex_state fd)" "phase_of (ex_state fd) = Reading []"
  using new_conn_ok [OF ex_state_new] by simp_all

lemma ex_state_fields [simp]:
  "s_heap_ix (ex_state fd) = 0" "conn_fd (ex_state fd) = fd" "s_op (ex_state fd) = OP_READ"
  by (simp_all add: ex_state_def)

lemma ex_sk' [simp]: "fd_sock (ex_server (ex_state fd) sk ps) fd = sk"
  using ex_sk [of "ex_state fd" sk ps] by (simp only: ex_state_fields)

lemma ex_state_inv: "server_inv (ex_server (ex_state fd) sk ex_table)"
  by (rule ex_inv) (simp_all add: ex_state_ok ex_table_ok)

text \<open>A connection that has answered everything but \<open>THANKS!\<close>.\<close>

definition ex_thanks :: "int \<Rightarrow> server_state" where
  "ex_thanks fd = (ex_state fd)\<lparr>s_buf := blit (s_buf (ex_state fd)) 0 STAR_REPLY_SUCCESS,
     s_rem := 8, s_state := STATE_SEND_THANKS, s_op := OP_WRITE\<rparr>"

lemma ex_thanks_ok: "conn_ok (ex_thanks fd)" "quiet (ex_thanks fd)" "s_heap_ix (ex_thanks fd) = 0"
  "phase_of (ex_thanks fd) = Thanking STAR_REPLY_SUCCESS" "s_op (ex_thanks fd) = OP_WRITE"
  "conn_fd (ex_thanks fd) = fd"
proof -
  have r: "length STAR_REPLY_SUCCESS = 8" by (simp add: c_consts)
  then have "blit (s_buf (ex_state fd)) 0 STAR_REPLY_SUCCESS ! ASTROLOG_BUF_LEN = NUL"
    by (subst nth_blit) (simp_all add: ex_state_def ASTROLOG_BUF_LEN_def)
  then show "conn_ok (ex_thanks fd)" using r
    by (simp add: ex_thanks_def conn_ok_def phase_ok_def sending_def buffer_ok_def ASTROLOG_BUF_LEN_def)
       (simp add: ex_state_def ASTROLOG_BUF_LEN_def)
  show "quiet (ex_thanks fd)" by (simp add: ex_thanks_def quiet_def finished_def unread_def)
  show "s_heap_ix (ex_thanks fd) = 0" "s_op (ex_thanks fd) = OP_WRITE" "conn_fd (ex_thanks fd) = fd"
    by (simp_all add: ex_thanks_def)
  have "take 8 (blit (s_buf (ex_state fd)) 0 STAR_REPLY_SUCCESS) = STAR_REPLY_SUCCESS"
    using take_blit_0 [of STAR_REPLY_SUCCESS] by (simp add: r)
  then show "phase_of (ex_thanks fd) = Thanking STAR_REPLY_SUCCESS"
    by (simp add: ex_thanks_def phase_of_def subarray_from_0) (simp add: ex_state_def subarray_from_0)
qed

text \<open>A star that has named \<open>Aries\<close>.\<close>

definition ex_star :: "int \<Rightarrow> server_state" where
  "ex_star fd = (ex_state fd)\<lparr>s_zodiac_ix := 0, s_state := STATE_RECV_H\<rparr>"

lemma ex_star_ok: "conn_ok (ex_star fd)" "quiet (ex_star fd)" "s_heap_ix (ex_star fd) = 0"
  "phase_of (ex_star fd) = Awaiting 0 []" "conn_fd (ex_star fd) = fd"
  using ex_state_ok [of fd]
  by (simp_all add: ex_star_def conn_defs phase_of_def ZODIAC_NUM_def)
     (simp_all add: ex_state_def ASTROLOG_BUF_LEN_def)

lemma ex_star_inv: "server_inv (ex_server (ex_star fd) sk ex_table)"
  by (rule ex_inv) (simp_all add: ex_star_ok ex_table_ok)

end
