(* ===== verification/Server_Props.thy ===== *)
theory Server_Props
  imports Server_Example
begin

text \<open>
  The properties of the server: its invariant in every reachable state, the absence of undefined
  behaviour, the refinement of the protocol machine by one readiness event, the defect of the
  processing loop, timeouts, new connections and the cleanup.
\<close>

section \<open>The process\<close>










end
