(* ===== verification/Event_Props.thy ===== *)
theory Event_Props
  imports Server_Example
begin

text \<open>
  The properties of one readiness event of a connection: what arrives is consumed as the protocol
  machine says, what is sent is what the machine wants to send, a prognosis a star leaves is the one
  the next client gets, other connections are left alone, and the processing loop ends except in
  one situation.
\<close>

lemma idle_facts:
  assumes "server_inv w" and "mem w a = Some s"
  shows "proc_inv w a" and "conn_ok s" and "\<not> unread s" and "\<not> finished s"
    and "s_op s = OP_READ \<Longrightarrow> reads (phase_of s)" and "armed w s"
proof -
  show p: "proc_inv w a" using assms by (simp add: server_proc)
  show ok: "conn_ok s" and "\<not> unread s" and nf: "\<not> finished s" and "armed w s"
    using assms by (simp_all add: server_inv_def quiet_def)
  assume "s_op s = OP_READ"
  then show "reads (phase_of s)" using sends_op(1) [OF ok _ nf] by auto
qed

section \<open>Reading\<close>

text \<open>
  C3. When a chunk \<open>d\<close> arrives for an idle connection, \<open>update_state\<close> has the effect of the
  protocol machine on it: lines are completed and answered in order, the table of prognoses changes
  accordingly, bytes after a request to be answered stay in the buffer, and a failed connection is
  removed and closed. There is no undefined behaviour; the only way not to return is a connection
  that fails with bytes left.
\<close>
theorem read_event_refines:
  assumes "server_inv w" and "mem w a = Some s" and "s_op s = OP_READ"
    and "sock_recv (fd_sock w (conn_fd s)) ASTROLOG_BUF_LEN = (r, d, sk')" and "0 < r"
    and "consume (phase_of s) (table w) d = (ph, ps, rest)"
  shows "case update_state os w a of
      None \<Rightarrow> ph = Failed \<and> rest \<noteq> []
    | Some res \<Rightarrow> safe res (\<lambda>(_, w'). settles w a ph ps rest w' \<and>
        (mem w' a \<noteq> None \<longrightarrow> sent (fd_sock w' (conn_fd s)) = sent (fd_sock w (conn_fd s))))"
proof -
  note i = idle_facts [OF assms(1,2)]
  have "loop_end w a s (ph, ps, rest) (update_loop os w a)"
    using update_loop_chunk [OF i(1) assms(2) i(5) [OF assms(3)] i(3) assms(4,5), of os] assms(6) by simp
  from update_state_loop [OF i(1) assms(2) frame_refl assms(2) this] show ?thesis .
qed

text \<open>A client's request for \<open>Aries\<close>, which no star has set.\<close>

definition ex_request :: string where
  "ex_request = CLIENT_REQUEST_TYPE @ ''Aries'' @ [DELIMITER]"

lemma ex_request_line: "is_line ex_request" "length ex_request \<le> ASTROLOG_BUF_LEN" "0 < int (length ex_request)"
  by (simp_all add: ex_request_def is_line_def c_consts)

lemma ex_request_client: "classify ex_request = Client_request 0"
  using classify_client [of 0 "[]"] by (simp add: ex_request_def zodiac_names_def ZODIAC_NUM_def)

lemma ex_consume: "consume (Reading []) ps ex_request = (Answering (reply_of (ps ! 0)), ps, [])"
  using consume_line [OF _ ex_request_line(1,2), of "Reading []" ps "[]"]
    ex_request_line(1)
  by (simp add: is_line_def ex_request_client consume_end)

definition ex_reader :: "string \<Rightarrow> server" where
  "ex_reader d = ex_server (ex_state 5) (ex_sock [Chunk d]) ex_table"

lemma ex_reader_facts:
  "server_inv (ex_reader d)" "mem (ex_reader d) 0 = Some (ex_state 5)"
  "fd_sock (ex_reader d) (conn_fd (ex_state 5)) = ex_sock [Chunk d]"
  by (simp_all add: ex_reader_def ex_state_inv)

lemma ex_recv: "length d \<le> ASTROLOG_BUF_LEN \<Longrightarrow>
  sock_recv (ex_sock (Chunk d # es)) ASTROLOG_BUF_LEN = (int (length d), d, ex_sock es)"
  by (simp add: sock_recv_def ex_sock_def)

lemma ex_reader_event:
  "sock_recv (fd_sock (ex_reader ex_request) (conn_fd (ex_state 5))) ASTROLOG_BUF_LEN =
     (int (length ex_request), ex_request, ex_sock [])"
  "consume (phase_of (ex_state 5)) (table (ex_reader ex_request)) ex_request =
     (Answering (reply_of (table (ex_reader ex_request) ! 0)), table (ex_reader ex_request), [])"
  unfolding ex_reader_facts(3) ex_state_ok(3) by (rule ex_recv [OF ex_request_line(2)], rule ex_consume)

theorem read_event_refines_witness:
  "case update_state ex_os (ex_reader ex_request) 0 of
      None \<Rightarrow> False
    | Some res \<Rightarrow> safe res (\<lambda>(_, w').
        settles (ex_reader ex_request) 0 (Answering (reply_of (table (ex_reader ex_request) ! 0)))
          (table (ex_reader ex_request)) [] w')"
  using read_event_refines [OF ex_reader_facts(1,2) ex_state_fields(3) ex_reader_event(1)
      ex_request_line(3) ex_reader_event(2), of ex_os]
  by (auto split: option.splits elim!: safe_mono)

text \<open>
  C7. With a clock that works, the loop of \<open>update_state\<close> ends on a chunk if and only if the
  connection does not fail with bytes of the chunk left: the bound on its running time is the chunk,
  and there is no other way to make the server hang.
\<close>
theorem read_event_returns_iff:
  assumes "server_inv w" and "mem w a = Some s" and "s_op s = OP_READ" and "\<forall>n. clock os n \<noteq> None"
    and "sock_recv (fd_sock w (conn_fd s)) ASTROLOG_BUF_LEN = (r, d, sk')" and "0 < r"
    and "consume (phase_of s) (table w) d = (ph, ps, rest)"
  shows "(\<exists>res. update_state os w a = Some res) \<longleftrightarrow> \<not> (ph = Failed \<and> rest \<noteq> [])"
proof -
  note i = idle_facts [OF assms(1,2)]
  have le: "loop_end w a s (ph, ps, rest) (update_loop os w a)"
    using update_loop_chunk [OF i(1) assms(2) i(5) [OF assms(3)] i(3) assms(5,6), of os] assms(7) by simp
  have "update_loop os w a = None \<longleftrightarrow> ph = Failed \<and> rest \<noteq> []"
    by (rule loop_end_clock [OF _ i(1) le]) (use assms(4) in simp)
  then show ?thesis using assms(2)
    by (auto simp: update_state_def split: option.splits sum.splits)
qed

theorem read_event_returns_iff_witness:
  "\<exists>res. update_state ex_os (ex_reader ex_request) 0 = Some res"
proof -
  have clk: "\<forall>n. clock ex_os n \<noteq> None" by (simp add: ex_os_ok(2))
  from read_event_returns_iff [OF ex_reader_facts(1,2) ex_state_fields(3) clk ex_reader_event(1)
      ex_request_line(3) ex_reader_event(2)] show ?thesis by simp
qed

text \<open>
  C8. The defect this leaves: one segment that holds a line which is no request, and at least one
  byte after it, makes the single-threaded server loop for ever. No connection is served any more.
\<close>
theorem bad_request_hangs_server:
  assumes "server_inv w" and "mem w a = Some s" and "phase_of s = Reading []" and "\<forall>n. clock os n \<noteq> None"
    and "rx (fd_sock w (conn_fd s)) = Chunk (l @ rest) # es"
    and "is_line l" and "classify l = Bad_request" and "rest \<noteq> []"
    and "length (l @ rest) \<le> ASTROLOG_BUF_LEN"
  shows "update_state os w a = None"
proof -
  note i = idle_facts [OF assms(1,2)]
  have rd: "reads (phase_of s)" using assms(3) by simp
  have recv: "sock_recv (fd_sock w (conn_fd s)) ASTROLOG_BUF_LEN =
      (int (length (l @ rest)), l @ rest, (fd_sock w (conn_fd s))\<lparr>rx := es\<rparr>)"
    using assms(5,9) by (simp add: sock_recv_def)
  have pos: "0 < int (length (l @ rest))" using assms(8) by (cases rest) simp_all
  have "length l \<le> ASTROLOG_BUF_LEN" using assms(9) by simp
  then have "consume (phase_of s) (table w) (l @ rest) = (Failed, table w, rest)"
    using consume_line [OF _ assms(6), of "Reading []" "table w" rest]
      assms(6) by (simp add: assms(3,7) is_line_def consume_end)
  with update_loop_chunk [OF i(1) assms(2) rd i(3) recv pos, of os]
  have le: "loop_end w a s (Failed, table w, rest) (update_loop os w a)" by simp
  have "update_loop os w a = None"
    using loop_end_clock [OF _ i(1) le] assms(4,8) by simp
  then show ?thesis using assms(2) by (simp add: update_state_def)
qed

theorem bad_request_hangs_server_witness:
  "update_state ex_os (ex_reader ((''FOO'' @ [DELIMITER]) @ ''BAR'' @ [DELIMITER])) 0 = None"
proof -
  let ?l = "''FOO'' @ [DELIMITER]" and ?r = "''BAR'' @ [DELIMITER]"
  have rx: "rx (fd_sock (ex_reader (?l @ ?r)) (conn_fd (ex_state 5))) = Chunk (?l @ ?r) # []"
    unfolding ex_reader_facts(3) by (simp add: ex_sock_def)
  show ?thesis
    by (rule bad_request_hangs_server [OF ex_reader_facts(1,2) ex_state_ok(3) _ rx])
       (simp_all add: ex_os_ok(2) is_line_def classify_def c_consts)
qed

text \<open>
  C11. When \<open>recv\<close> reports the end of the stream or an error for an idle connection that reads, the
  connection is removed and its descriptor closed, and the table of prognoses is untouched.
\<close>
theorem end_of_stream_closes:
  assumes "server_inv w" and "mem w a = Some s" and "s_op s = OP_READ"
    and "sock_recv (fd_sock w (conn_fd s)) ASTROLOG_BUF_LEN = (r, d, sk')" and "r \<le> 0"
  shows "\<exists>res. update_state os w a = Some res \<and>
    safe res (\<lambda>(q, w'). q = 0 \<and> server_inv w' \<and> mem w' a = None \<and> socks w' (conn_fd s) = None \<and>
      table w' = table w)"
proof -
  note i = idle_facts [OF assms(1,2)]
  have e: "conn_input w s = []" by (rule recv_nothing [OF i(2) assms(3) i(3) assms(4,5)])
  from update_loop_stop [OF i(1) assms(2) i(5) [OF assms(3)] e, of os] obtain ph where
    ph: "ph = Failed \<or> ph = Done" and le: "loop_end w a s (ph, table w, []) (update_loop os w a)" by blast
  note res = update_state_loop [OF i(1) assms(2) frame_refl assms(2) le]
    and post = update_state_ok [OF i(1) assms(2) i(6), of os]
  have fd: "fd_of w a = conn_fd s" using assms(2) by (simp add: fd_of_def)
  show ?thesis
  proof (cases "update_state os w a")
    case None
    with res show ?thesis by simp
  next
    case (Some r)
    with res post ph fd show ?thesis
      by (cases r) (auto simp: settles_def update_post_def proc_inv_def)
  qed
qed

theorem end_of_stream_closes_witness:
  "\<exists>res. update_state ex_os (ex_server (ex_state 5) (ex_sock []) ex_table) 0 = Some res \<and>
    safe res (\<lambda>(q, w'). q = 0 \<and> server_inv w' \<and> mem w' 0 = None \<and> socks w' 5 = None \<and>
      table w' = table (ex_server (ex_state 5) (ex_sock []) ex_table))"
proof -
  let ?w = "ex_server (ex_state 5) (ex_sock []) ex_table"
  have "sock_recv (fd_sock ?w (conn_fd (ex_state 5))) ASTROLOG_BUF_LEN = (0, [], ex_sock [])"
    unfolding ex_sk by (simp add: sock_recv_def ex_sock_def)
  from end_of_stream_closes [OF ex_state_inv ex_mem ex_state_fields(3) this, of ex_os] show ?thesis
    by simp
qed

section \<open>Replying\<close>

text \<open>
  C4. When the socket of an idle sending connection accepts \<open>r\<close> bytes, these are the next bytes of
  the reply, exactly; after the last one the connection reads again, starting with the bytes its
  buffer already holds. A failed \<open>send\<close> removes the connection.
\<close>
theorem write_event_refines:
  assumes "server_inv w" and "mem w a = Some s" and "s_op s = OP_WRITE"
    and "sock_send (fd_sock w (conn_fd s)) (unsent (phase_of s)) = (r, sk')"
    and "consume (if r < 0 then Failed else on_sent (phase_of s) (nat r)) (table w)
           (pending (s_interm_buf s)) = (ph, ps, rest)"
  shows "(case update_state os w a of
      None \<Rightarrow> 0 \<le> r \<and> ph = Failed \<and> rest \<noteq> []
    | Some res \<Rightarrow> safe res (\<lambda>(_, w'). settles w a ph ps rest w' \<and>
        (mem w' a \<noteq> None \<longrightarrow> sent (fd_sock w' (conn_fd s)) = sent sk'))) \<and>
    (0 \<le> r \<longrightarrow> sent sk' = sent (fd_sock w (conn_fd s)) @ take (nat r) (unsent (phase_of s)))"
proof -
  note i = idle_facts [OF assms(1,2)]
  from update_state_send [OF i(1) assms(2,3) i(4) assms(4,5), of os] sock_send_result [OF assms(4)]
  show ?thesis by simp
qed

theorem write_event_refines_witness:
  "(case update_state ex_os (ex_server (ex_thanks 5) (ex_sock []) ex_table) 0 of
      None \<Rightarrow> 0 \<le> (8::int) \<and> Reading [] = Failed \<and> [] \<noteq> ([] :: string)
    | Some res \<Rightarrow> safe res (\<lambda>(_, w').
        settles (ex_server (ex_thanks 5) (ex_sock []) ex_table) 0 (Reading [])
          (table (ex_server (ex_thanks 5) (ex_sock []) ex_table)) [] w' \<and>
        (mem w' 0 \<noteq> None \<longrightarrow> sent (fd_sock w' 5) = STAR_REPLY_SUCCESS)))"
proof -
  let ?s = "ex_thanks 5" and ?w = "ex_server (ex_thanks 5) (ex_sock []) ex_table"
  let ?sk = "(ex_sock [])\<lparr>sent := STAR_REPLY_SUCCESS\<rparr>"
  have inv: "server_inv ?w" by (rule ex_inv) (simp_all add: ex_thanks_ok ex_table_ok)
  have send: "sock_send (fd_sock ?w (conn_fd ?s)) (unsent (phase_of ?s)) = (8, ?sk)"
    unfolding ex_sk ex_thanks_ok(4) by (simp add: sock_send_def ex_sock_def c_consts)
  have p: "pending (s_interm_buf ?s) = []"
    by (simp add: ex_thanks_def ex_state_def pending_def)
  have "on_sent (phase_of ?s) (nat 8) = Reading []" by (simp add: ex_thanks_ok(4) c_consts)
  then have "consume (if (8::int) < 0 then Failed else on_sent (phase_of ?s) (nat 8)) (table ?w)
      (pending (s_interm_buf ?s)) = (Reading [], table ?w, [])" by (simp add: p consume_end)
  note ev = write_event_refines [OF inv ex_mem ex_thanks_ok(5) send this, of ex_os]
  have "sent ?sk = STAR_REPLY_SUCCESS" by simp
  with ev show ?thesis unfolding ex_thanks_ok(6) by (simp only:)
qed

end
