(* ===== verification/Conn_Props.thy ===== *)
theory Conn_Props
  imports Server_Example
begin

text \<open>
  Properties that span connections: a stored prognosis reaches the clients, connections do not
  disturb each other, deadlines and the timeout computed from them, new and expired connections.
\<close>

lemma idle_conn:
  assumes "server_inv w" and "mem w a = Some s"
  shows "proc_inv w a" and "conn_ok s" and "\<not> unread s" and "quiet s" and "armed w s"
  using assms by (simp_all add: server_proc server_inv_def quiet_def)

lemma line_event:
  assumes inv: "server_inv w" and a: "mem w a = Some s" and rm: "room (phase_of s) = ASTROLOG_BUF_LEN"
    and rx: "rx (fd_sock w (conn_fd s)) = Chunk l # es" and l: "is_line l" "length l \<le> ASTROLOG_BUF_LEN"
    and on: "on_bytes (phase_of s) (table w) l = (ph, ps)" and ok: "ph \<noteq> Failed"
  shows "\<exists>res. update_state os w a = Some res \<and>
    safe res (\<lambda>(q, w'). settles w a ph ps [] w' \<and> (q = 0 \<longrightarrow> server_inv w'))"
proof -
  note i = idle_conn [OF inv a]
  have rd: "reads (phase_of s)" using rm by (cases "phase_of s") (simp_all add: ASTROLOG_BUF_LEN_def)
  have recv: "sock_recv (fd_sock w (conn_fd s)) ASTROLOG_BUF_LEN =
      (int (length l), l, (fd_sock w (conn_fd s))\<lparr>rx := es\<rparr>)"
    using rx l(2) by (simp add: sock_recv_def)
  have pos: "0 < int (length l)" using l(1) by (simp add: is_line_def)
  have "consume (phase_of s) (table w) (l @ []) = (ph, ps, [])"
    using consume_line [OF rm l, of "table w" "[]"] by (simp add: on consume_end)
  then have le: "loop_end w a s (ph, ps, []) (update_loop os w a)"
    using update_loop_chunk [OF i(1) a rd i(3) recv pos, of os] by simp
  from update_state_loop [OF i(1) a frame_refl a le] update_state_ok [OF i(1) a i(5), of os] ok
  show ?thesis by (auto simp: update_post_def safe_def split: option.splits sum.splits)
qed

section \<open>The prognosis of a star reaches the clients\<close>

lemma zodiac_name_short:
  "i < ZODIAC_NUM \<Longrightarrow> DELIMITER \<notin> set (zodiac_names ! i) \<and> length (zodiac_names ! i) \<le> 6"
  by (auto simp: less_ZODIAC_NUM zodiac_names_def DELIMITER_def)

text \<open>
  C6. A client whose line asks for zodiac \<open>i\<close>, with or without padding after the name, is answered
  with the stored prognosis of \<open>i\<close>, byte for byte, or with the refusal if there is none; the table does not
  change.
\<close>
theorem client_gets_stored:
  assumes "server_inv w" and "mem w b = Some t" and "phase_of t = Reading []" and "i < ZODIAC_NUM"
    and "rx (fd_sock w (conn_fd t)) = Chunk (CLIENT_REQUEST_TYPE @ zodiac_names ! i @ pad @ [DELIMITER]) # es"
    and "DELIMITER \<notin> set pad"
    and "length (CLIENT_REQUEST_TYPE @ zodiac_names ! i @ pad @ [DELIMITER]) \<le> ASTROLOG_BUF_LEN"
  shows "\<exists>res. update_state os w b = Some res \<and> safe res (\<lambda>(_, w'). table w' = table w \<and>
    (\<exists>t'. mem w' b = Some t' \<and> phase_of t' = Answering (reply_of (table w ! i))))"
proof -
  let ?l = "CLIENT_REQUEST_TYPE @ zodiac_names ! i @ pad @ [DELIMITER]"
  have "DELIMITER \<notin> set (zodiac_names ! i)" using zodiac_name_short [OF assms(4)] by simp
  then have l: "is_line ?l" using assms(6) types_ok(2) by (simp add: is_line_def butlast_append)
  have "on_bytes (phase_of t) (table w) ?l = (Answering (reply_of (table w ! i)), table w)"
    unfolding assms(3) on_line(1) [OF l] classify_client [OF assms(4)] by simp
  from line_event [OF assms(1,2) _ assms(5) l assms(7) this, of os] show ?thesis
    by (auto simp: assms(3) settles_def elim!: safe_mono)
qed

theorem client_gets_stored_witness:
  "\<exists>res. update_state ex_os (ex_server (ex_state 5)
       (ex_sock [Chunk (CLIENT_REQUEST_TYPE @ zodiac_names ! 1 @ ''!'' @ [DELIMITER])]) ex_table) 0 = Some res"
proof -
  let ?l = "CLIENT_REQUEST_TYPE @ zodiac_names ! 1 @ ''!'' @ [DELIMITER]"
  let ?w = "ex_server (ex_state 5) (ex_sock [Chunk ?l]) ex_table"
  have rx: "rx (fd_sock ?w (conn_fd (ex_state 5))) = Chunk ?l # []" unfolding ex_sk by (simp add: ex_sock_def)
  have "1 < ZODIAC_NUM" "DELIMITER \<notin> set ''!''" "length ?l \<le> ASTROLOG_BUF_LEN"
    by (simp_all add: c_consts zodiac_names_def)
  from client_gets_stored [OF ex_state_inv ex_mem ex_state_ok(3) this(1) rx this(2,3), of ex_os]
  show ?thesis by blast
qed



section \<open>Connections do not disturb each other\<close>

text \<open>
  C9. Processing one connection leaves every other one as it is, its buffers, its state, its deadline
  and its socket (only its position in the heap may move), and ends in the invariant, or with -1
  after a failed \<open>EPOLL_CTL_MOD\<close> in a state the cleanup can work on.
\<close>
theorem update_state_isolated:
  assumes "server_inv w" and "mem w a = Some s"
  shows "case update_state os w a of
      None \<Rightarrow> True
    | Some res \<Rightarrow> safe res (\<lambda>(q, w').
        (q = 0 \<and> server_inv w' \<or> q = -1 \<and> base_inv w') \<and>
        (\<forall>b. b \<noteq> a \<longrightarrow> map_option (\<lambda>t. t\<lparr>s_heap_ix := 0\<rparr>) (mem w' b) =
                        map_option (\<lambda>t. t\<lparr>s_heap_ix := 0\<rparr>) (mem w b)) \<and>
        (\<forall>fd. fd \<noteq> conn_fd s \<longrightarrow> socks w' fd = socks w fd))"
proof -
  note i = idle_conn [OF assms]
  have fd: "fd_of w a = conn_fd s" using assms(2) by (simp add: fd_of_def)
  from update_state_ok [OF i(1) assms(2) i(5), of os] show ?thesis
    by (auto simp: update_post_def others_same_def but_slots_def fd base_of
        split: option.splits elim!: safe_mono)
qed

theorem update_state_isolated_witness:
  "case update_state ex_os (ex_server (ex_state 5) (ex_sock []) ex_table) 0 of
      None \<Rightarrow> True
    | Some res \<Rightarrow> safe res (\<lambda>(q, w'). q = 0 \<and> server_inv w' \<or> q = -1 \<and> base_inv w')"
  using update_state_isolated [OF ex_state_inv [of 5 "ex_sock []"] ex_mem, of ex_os]
  by (auto split: option.splits elim!: safe_mono)

section \<open>Deadlines\<close>

text \<open>
  \<open>update_server_state_ts\<close> sets the deadline of the connection to 300 seconds from now if it reads
  and 180 seconds if it sends, restores the order of the heap, and changes nothing else.
\<close>
lemma deadline_refreshed:
  assumes "server_inv w" and "mem w a = Some s"
  shows "safe (update_server_state_ts os w a) (\<lambda>w'. server_inv w' \<and> socks w' = socks w \<and>
    (\<exists>t s'. clock os (tick w) = Some t \<and> mem w' a = Some s' \<and>
       s' = s\<lparr>s_ts := s_ts s', s_heap_ix := s_heap_ix s'\<rparr> \<and>
       ACCUM_TIME_NS (s_ts s') = ACCUM_TIME_NS t + (if s_op s = OP_READ then 300 else 180) * SEC_NS_FACTOR))"
proof -
  note i = idle_conn [OF assms]
  from refresh_safe [OF i(1) assms(2), of os] show ?thesis
  proof (rule safe_mono, elim conjE exE)
    fix w' s' w1
    assume w': "proc_inv w' a" "frame a w w'" "socks w' = socks w" and s': "mem w' a = Some s'"
      and same: "same_conn s s'" and ts: "update_ts os w (s_op s) = Inr (s_ts s', w1)"
    have q: "quiet s'" "s_op s' = s_op s" "conn_fd s' = conn_fd s"
      using i(4) same by (auto simp: same_conn_def)
    have "armed w' s'" using i(5) w'(2) q by (simp add: armed_def frame_def)
    with settled_inv [OF w'(1) s' q(1)] have inv: "server_inv w'" by simp
    have eq: "s' = s\<lparr>s_ts := s_ts s', s_heap_ix := s_heap_ix s'\<rparr>" using same by (auto simp: same_conn_def)
    have "\<exists>t. clock os (tick w) = Some t \<and>
        ACCUM_TIME_NS (s_ts s') = ACCUM_TIME_NS t + (if s_op s = OP_READ then 300 else 180) * SEC_NS_FACTOR"
    proof -
      from ts obtain t where t: "clock os (tick w) = Some t"
        by (auto simp: update_ts_def get_cur_time_def split: option.splits)
      have "Inr (s_ts s', w1) = update_ts os w (s_op s)" using ts by (rule sym)
      then have "s_ts s' =
          (if s_op s = OP_READ then t\<lparr>tv_sec := tv_sec t + 300, tv_nsec := tv_nsec t + 0\<rparr>
           else t\<lparr>tv_sec := tv_sec t + 180, tv_nsec := tv_nsec t + 0\<rparr>)"
        by (simp add: update_ts_def get_cur_time_def t RECV_TIMEOUT_SEC_def RECV_TIMEOUT_NSEC_def
            SEND_TIMEOUT_SEC_def SEND_TIMEOUT_NSEC_def split: if_splits)
      with t show ?thesis by (simp add: ACCUM_TIME_NS_def algebra_simps)
    qed
    with inv w'(3) s' eq show "server_inv w' \<and> socks w' = socks w \<and>
        (\<exists>t s'. clock os (tick w) = Some t \<and> mem w' a = Some s' \<and>
           s' = s\<lparr>s_ts := s_ts s', s_heap_ix := s_heap_ix s'\<rparr> \<and>
           ACCUM_TIME_NS (s_ts s') = ACCUM_TIME_NS t + (if s_op s = OP_READ then 300 else 180) * SEC_NS_FACTOR)"
      by blast
  qed
qed



end
