(* ===== verification/Accept_Props.thy ===== *)
theory Accept_Props
  imports Server_Example
begin

text \<open>
  The properties of the operations on the set of connections: what \<open>process_new_connection\<close> admits,
  what \<open>discard_expired_connections\<close> closes and what the cleanup of \<open>main\<close> releases.
\<close>



text \<open>
  C14. When \<open>epoll_wait\<close> times out, \<open>discard_expired_connections\<close> returns; exactly the connections
  whose deadline has passed are freed and closed, every other connection and descriptor stays as it
  is, and the invariant holds.
\<close>
theorem expired_discarded:
  assumes "server_inv w"
  shows "\<exists>res. discard_expired_connections os w = Some res \<and> safe res (\<lambda>w'. server_inv w' \<and>
    zodiac_prognosises w' = zodiac_prognosises w \<and>
    (\<exists>t. clock os (tick w) = Some t \<and>
      (\<forall>a. map_option (\<lambda>s. s\<lparr>s_heap_ix := 0\<rparr>) (mem w' a) =
           (case mem w a of
              None \<Rightarrow> None
            | Some s \<Rightarrow> if ACCUM_TIME_NS (s_ts s) \<le> ACCUM_TIME_NS t then None else Some (s\<lparr>s_heap_ix := 0\<rparr>))) \<and>
      (\<forall>fd. socks w' fd =
           (if \<exists>a s. mem w a = Some s \<and> conn_fd s = fd \<and> ACCUM_TIME_NS (s_ts s) \<le> ACCUM_TIME_NS t
            then None else socks w fd))))"
proof -
  have same: "map_option (\<lambda>s. s\<lparr>s_heap_ix := 0\<rparr>) (m' a) =
      (case m a of None \<Rightarrow> None | Some s \<Rightarrow> if expired s n then None else Some (s\<lparr>s_heap_ix := 0\<rparr>))"
    if "but_slots m' = but_slots (unexpired m n)" for m m' n a
    using fun_cong [OF that, of a] by (simp add: but_slots_def unexpired_def split: option.splits if_splits)
  from discard_ok [OF assms, of os] obtain res where
    res: "discard_expired_connections os w = Some res" and safe: "safe res (\<lambda>w'. server_inv w' \<and> tracks w w' \<and>
      zodiac_prognosises w' = zodiac_prognosises w \<and>
      (\<exists>t. clock os (tick w) = Some t \<and>
        but_slots (mem w') = but_slots (unexpired (mem w) (ACCUM_TIME_NS t)) \<and>
        (\<forall>fd. socks w' fd = (if \<exists>a s. mem w a = Some s \<and> conn_fd s = fd \<and> expired s (ACCUM_TIME_NS t)
                             then None else socks w fd))))" by blast
  have same': "\<forall>a. map_option (\<lambda>s. s\<lparr>s_heap_ix := 0\<rparr>) (m' a) =
      (case m a of None \<Rightarrow> None
       | Some s \<Rightarrow> if ACCUM_TIME_NS (s_ts s) \<le> n then None else Some (s\<lparr>s_heap_ix := 0\<rparr>))"
    if "but_slots m' = but_slots (unexpired m n)" for m m' n
    using same [OF that] unfolding expired_def by blast
  show ?thesis unfolding res
    by (intro exI conjI, rule refl, rule safe_mono [OF safe], unfold expired_def) (use same' in blast)
qed

theorem expired_discarded_witness:
  "\<exists>res. discard_expired_connections ex_os (ex_server (ex_state 5) (ex_sock []) ex_table) = Some res"
  using expired_discarded [OF ex_state_inv] by blast

end
