(* ===== verification/Heap_Props.thy ===== *)
theory Heap_Props
  imports Server_Example
begin

text \<open>
  The properties of the heap as the server uses it, a queue of the connections ordered by deadline, from
  the interpretation of the heap's contract on the server's callbacks. The queue is given by the
  multiset of its elements; every operation also keeps the positions the connections record.
\<close>

definition conn_queue :: "(addr, memory) binary_heap \<Rightarrow> memory \<Rightarrow> bool" where
  "conn_queue h m \<longleftrightarrow>
     heap_inv compare_server_state swap_server_state is_live deadline h m \<and>
     indexed slot_of (heap_size h) h m"

text \<open>The common part of what the operations keep.\<close>

definition requeued :: "(addr, memory) binary_heap \<Rightarrow> memory \<Rightarrow> (addr, memory) binary_heap \<Rightarrow> memory \<Rightarrow> bool" where
  "requeued h m h' m' \<longleftrightarrow> conn_queue h' m' \<and> capacity h' = capacity h \<and> but_slots m' = but_slots m"

lemma conn_queueD:
  assumes "conn_queue h m"
  shows "heap_inv compare_server_state swap_server_state is_live deadline h m"
    and "indexed slot_of (heap_size h) h m"
    and "slots_ok compare_server_state swap_server_state is_live (heap_size h) h m"
    and "length (arr h) = capacity h" and "heap_ord (deadline m) (arr h) (heap_size h)"
  using assms by (simp_all add: conn_queue_def heap_inv_def)

lemma requeuedI:
  assumes "heap_inv compare_server_state swap_server_state is_live deadline h' m'"
    and "same_view is_live deadline but_slots h m h' m'" and "indexed slot_of (heap_size h') h' m'"
  shows "requeued h m h' m'"
  using assms by (simp add: requeued_def conn_queue_def same_view_def)

definition ex_queue :: "(addr, memory) binary_heap" where
  "ex_queue = heap (ex_server (ex_state 5) (ex_sock []) ex_table)"

lemma ex_queue_ok: "conn_queue ex_queue [0 \<mapsto> ex_state 5]" "heap_size ex_queue = 1" "elems ex_queue = [0]"
  using ex_state_inv [of 5 "ex_sock []"]
  by (auto simp: server_inv_def heap_ok_def conn_queue_def ex_queue_def elems_def ex_server_def)

text \<open>
  \<open>binary_heap_push\<close> with room adds exactly the new element; on a full heap it returns -1 and
  changes nothing.
\<close>
lemma heap_push_adds:
  assumes "conn_queue h m" and "m e = Some s" and "s_heap_ix s = heap_size h"
  shows "if heap_size h < capacity h
    then \<exists>h' m'. binary_heap_push h m e = Inr (0, h', m') \<and> requeued h m h' m' \<and>
      mset (elems h') = add_mset e (mset (elems h))
    else binary_heap_push h m e = Inr (-1, h, m)"
proof (cases "heap_size h < capacity h")
  case True
  have e: "is_live m e" "slot_of m e = heap_size h" using assms(2,3) by (simp_all add: is_live_def slot_of_def)
  note q = conn_queueD [OF assms(1)]
  from server_heap.push_swaps [OF q(1) True e(1)] obtain h' m' where
    push: "binary_heap_push h m e = Inr (0, h', m')" and
    h': "heap_inv compare_server_state swap_server_state is_live deadline h' m'"
    "mset (elems h') = add_mset e (mset (elems h))" "same_view is_live deadline but_slots h m h' m'" by blast
  from server_heap.push_indexed [OF q(1) True e(1) q(2) e(2) push] requeuedI [OF h'(1,3)] push h'(2) True
  show ?thesis by simp
next
  case False
  then show ?thesis by (simp add: server_heap.push_full)
qed

text \<open>
  C32. \<open>binary_heap_pop\<close> removes the element \<open>binary_heap_top\<close> shows, one whose deadline is the earliest
  of all, and nothing else; both return -1 on an empty heap.
\<close>
theorem heap_pop_least:
  assumes "conn_queue h m"
  shows "if heap_size h = 0
    then binary_heap_top h = (-1, None) \<and> binary_heap_pop h m = Inr (-1, None, h, m)
    else \<exists>e h' m'. binary_heap_top h = (0, Some 0) \<and> arr h ! 0 = e \<and>
      binary_heap_pop h m = Inr (0, Some e, h', m') \<and> requeued h m h' m' \<and>
      mset (elems h) = add_mset e (mset (elems h')) \<and> (\<forall>x\<in>set (elems h). deadline m e \<le> deadline m x)"
proof (cases "heap_size h = 0")
  case True
  then show ?thesis by (simp add: server_heap.top_empty server_heap.pop_empty)
next
  case False
  then have ne: "0 < heap_size h" by simp
  note q = conn_queueD [OF assms]
  from server_heap.pop_ok [OF q(1) ne] obtain h' m' where
    pop: "binary_heap_pop h m = Inr (0, Some (arr h ! 0), h', m')" and
    h': "heap_inv compare_server_state swap_server_state is_live deadline h' m'"
    "add_mset (arr h ! 0) (mset (elems h')) = mset (elems h)" "same_view is_live deadline but_slots h m h' m'"
    by blast
  from server_heap.pop_indexed [OF q(1) ne q(2) pop] requeuedI [OF h'(1,3)] have "requeued h m h' m'" by simp
  with pop h'(2) server_heap.top_least [OF q(1) ne] False show ?thesis by simp
qed

theorem heap_pop_least_witness:
  "\<exists>h' m'. binary_heap_pop ex_queue [0 \<mapsto> ex_state 5] = Inr (0, Some 0, h', m') \<and> elems h' = []"
  using heap_pop_least [OF ex_queue_ok(1)] ex_queue_ok(2,3) by (auto simp: ex_queue_def ex_server_def)

text \<open>
  C33. \<open>binary_heap_remove\<close> with the position a queued connection records removes that connection
  and nothing else; a position outside the heap is refused with -1.
\<close>
theorem heap_remove_own:
  assumes "conn_queue h m" and "a \<in> set (elems h)" and "m a = Some s"
  shows "(\<exists>h' m'. binary_heap_remove h m (s_heap_ix s) = Inr (0, Some a, h', m') \<and> requeued h m h' m' \<and>
      mset (elems h) = add_mset a (mset (elems h')) \<and> a \<notin> set (elems h')) \<and>
    (\<forall>ix. heap_size h \<le> ix \<longrightarrow> binary_heap_remove h m ix = Inr (-1, None, h, m))"
proof -
  note q = conn_queueD [OF assms(1)]
  have slot: "s_heap_ix s < heap_size h" "arr h ! s_heap_ix s = a"
    using indexed_slot [OF q(2) assms(2)] assms(3) by (simp_all add: slot_of_def)
  from server_heap.remove_ok [OF q(1) slot(1)] obtain h' m' where
    rem: "binary_heap_remove h m (s_heap_ix s) = Inr (0, Some a, h', m')" and
    h': "heap_inv compare_server_state swap_server_state is_live deadline h' m'"
    "add_mset a (mset (elems h')) = mset (elems h)" "same_view is_live deadline but_slots h m h' m'"
    unfolding slot(2) by blast
  from server_heap.remove_indexed [OF q(1) slot(1) q(2) rem] requeuedI [OF h'(1,3)]
  have req: "requeued h m h' m'" by simp
  have "distinct (elems h)" using indexed_distinct [OF q(2)] q(3) by (simp add: elems_def slots_ok_def)
  with h'(2) have "distinct (a # elems h')" by (metis mset.simps(2) mset_eq_imp_distinct_iff)
  with rem h'(2) req show ?thesis by (simp add: server_heap.remove_out)
qed

theorem heap_remove_own_witness:
  "\<exists>h' m'. binary_heap_remove ex_queue [0 \<mapsto> ex_state 5] 0 = Inr (0, Some 0, h', m') \<and> 0 \<notin> set (elems h')"
  using heap_remove_own [OF ex_queue_ok(1), of 0 "ex_state 5"] by (auto simp: ex_queue_ok)

text \<open>
  C34. After the deadline of one queued connection has changed in any way, earlier or later,
  \<open>binary_heap_update\<close> with its position restores the queue, with the same elements.
\<close>
theorem heap_update_restores:
  assumes "conn_queue h m" and "a \<in> set (elems h)" and "m a = Some s"
  shows "\<exists>h' m'. binary_heap_update h (m(a \<mapsto> s\<lparr>s_ts := t\<rparr>)) (s_heap_ix s) = Inr (h', m') \<and>
    requeued h (m(a \<mapsto> s\<lparr>s_ts := t\<rparr>)) h' m' \<and> mset (elems h') = mset (elems h)"
proof -
  let ?m = "m(a \<mapsto> s\<lparr>s_ts := t\<rparr>)" and ?n = "heap_size h"
  note q = conn_queueD [OF assms(1)]
  have slot: "s_heap_ix s < ?n" "arr h ! s_heap_ix s = a"
    using indexed_slot [OF q(2) assms(2)] assms(3) by (simp_all add: slot_of_def)
  have same: "is_live ?m = is_live m" "slot_of ?m = slot_of m"
    using assms(3) by (auto simp: is_live_def slot_of_def fun_eq_iff)
  have ok: "slots_ok compare_server_state swap_server_state is_live ?n h ?m" "indexed slot_of ?n h ?m"
    using q(2,3) by (simp_all add: slots_ok_def indexed_def same)
  have near: "near_ord (deadline ?m) (arr h) ?n (s_heap_ix s)"
  proof (rule heap_ord_near [OF q(5)])
    fix i assume i: "i < ?n" "i \<noteq> s_heap_ix s"
    then have "arr h ! i \<noteq> a" using q(2) assms(3) by (auto simp: indexed_def slot_of_def)
    then show "deadline ?m (arr h ! i) = deadline m (arr h ! i)" by (simp add: deadline_def)
  qed
  from server_heap.update_ok [OF ok(1) q(4) near slot(1)] obtain h' m' where
    up: "binary_heap_update h ?m (s_heap_ix s) = Inr (h', m')" and
    h': "heap_inv compare_server_state swap_server_state is_live deadline h' m'"
    "mset (elems h') = mset (elems h)" "same_view is_live deadline but_slots h ?m h' m'" by blast
  from server_heap.update_indexed [OF ok(1) q(4) near slot(1) ok(2) up] requeuedI [OF h'(1,3)] up h'(2)
  show ?thesis by simp
qed

theorem heap_update_restores_witness:
  "\<exists>h' m'. binary_heap_update ex_queue [0 \<mapsto> (ex_state 5)\<lparr>s_ts := \<lparr>tv_sec = 9, tv_nsec = 0\<rparr>\<rparr>] 0 = Inr (h', m') \<and>
     mset (elems h') = {#0#}"
  using heap_update_restores [OF ex_queue_ok(1), of 0 "ex_state 5" "\<lparr>tv_sec = 9, tv_nsec = 0\<rparr>"]
  by (auto simp: ex_queue_ok)

text \<open>
  \<open>binary_heap_validate\<close> decides the heap order: on an array of queued connections it returns 0 if
  no slot holds an earlier deadline than its parent, -1 otherwise.
\<close>
lemma heap_validate_decides:
  assumes "slots_ok compare_server_state swap_server_state is_live (heap_size h) h m"
  shows "binary_heap_validate h m =
    Inr (if \<forall>i. 0 < i \<longrightarrow> i < heap_size h \<longrightarrow> deadline m (arr h ! PARENT i) \<le> deadline m (arr h ! i)
         then 0 else -1)"
  using server_heap.validate_iff [OF assms] by (simp add: heap_ord_def)

text \<open>
  C35. The size of the array is computed in \<open>size_t\<close> without a check: for \<open>2 ^ 61\<close> or more elements of 8
  bytes the product wraps, \<open>binary_heap_allocate\<close> reports success with an array that is too short,
  and the push that meets its end writes outside it.
\<close>
theorem heap_allocate_wraps:
  assumes "2 ^ 61 \<le> cap" and "malloc_fn (heap_bytes cap 8) = Some slots" and "length slots = heap_bytes cap 8 div 8"
  shows "\<exists>h. binary_heap_allocate malloc_fn cap 8 compare_server_state swap_server_state = (0, Some h) \<and>
    length (arr h) < capacity h \<and>
    binary_heap_push (h\<lparr>heap_size := length (arr h)\<rparr>) m e = Inl Undefined"
proof -
  have "heap_bytes cap 8 div 8 < 2 ^ 61" by (simp add: heap_bytes_def less_mult_imp_div_less)
  with assms(1,3) have "length slots < cap" by linarith
  then show ?thesis
    using assms(2) by (simp add: binary_heap_allocate_def binary_heap_push_def arr_set_def)
qed

theorem heap_allocate_wraps_witness:
  "\<exists>h. binary_heap_allocate (\<lambda>_. Some []) (2 ^ 61) 8 compare_server_state swap_server_state = (0, Some h) \<and>
     capacity h = 2 ^ 61 \<and> binary_heap_push h Map.empty 0 = Inl Undefined"
proof -
  have "heap_bytes (2 ^ 61) 8 = 0" by (simp add: heap_bytes_def)
  with heap_allocate_wraps [of "2 ^ 61" "\<lambda>_. Some []" "[]" Map.empty 0] show ?thesis
    by (auto simp: binary_heap_allocate_def)
qed

end
