(* ===== verification/C_Library.thy ===== *)
theory C_Library
  imports Prelude
begin

text \<open>
  The conversions of the C library that the command lines and the prognoses go through: \<open>strtoul\<close> with base
  10 and \<open>sprintf\<close> with \<open>%d\<close> on a number that is not negative, and the round trip between them.
\<close>

definition is_space :: "char \<Rightarrow> bool" where
  "is_space c \<longleftrightarrow> c \<in> {CHR '' '', CHR 0x09, CHR 0x0A, CHR 0x0B, CHR 0x0C, CHR 0x0D}"

definition is_digit :: "char \<Rightarrow> bool" where
  "is_digit c \<longleftrightarrow> 48 \<le> (of_char c :: nat) \<and> (of_char c :: nat) \<le> 57"

definition digit_val :: "char \<Rightarrow> nat" where
  "digit_val c = of_char c - 48"

definition digits_val :: "string \<Rightarrow> nat" where
  "digits_val ds = foldl (\<lambda>n c. 10 * n + digit_val c) 0 ds"

definition ULONG_MAX :: nat where "ULONG_MAX = 2 ^ 64 - 1"

text \<open>An optional sign.\<close>

fun sign :: "string \<Rightarrow> bool \<times> string" where
  "sign [] = (False, [])"
| "sign (c # s) = (if c = CHR ''-'' then (True, s) else if c = CHR ''+'' then (False, s) else (False, c # s))"

text \<open>The value, what \<open>endptr\<close> points to, and whether \<open>errno\<close> is set to \<open>ERANGE\<close>.\<close>

definition strtoul :: "string \<Rightarrow> nat \<times> string \<times> bool" where
  "strtoul s =
     (case sign (dropWhile is_space s) of (neg, u) \<Rightarrow>
        let ds = takeWhile is_digit u; n = digits_val ds in
        if ds = [] then (0, s, False)
        else if n > ULONG_MAX then (ULONG_MAX, dropWhile is_digit u, True)
        else ((if neg then (2 ^ 64 - n) mod 2 ^ 64 else n), dropWhile is_digit u, False))"

definition digit :: "nat \<Rightarrow> char" where
  "digit n = char_of (48 + n)"

fun decimal :: "nat \<Rightarrow> string" where
  "decimal n = (if n < 10 then [digit n] else decimal (n div 10) @ [digit (n mod 10)])"

declare decimal.simps [simp del]

lemma of_digit: "n < 10 \<Longrightarrow> of_char (digit n) = 48 + n"
  by (simp add: digit_def)

lemma digit_facts:
  assumes "n < 10"
  shows "is_digit (digit n)" and "digit_val (digit n) = n" and "\<not> is_space (digit n)"
    and "digit n \<noteq> CHR ''-''" and "digit n \<noteq> CHR ''+''" and "digit n \<noteq> CHR 0x0A"
proof -
  note o = of_digit [OF assms]
  show "is_digit (digit n)" "digit_val (digit n) = n" using assms o by (simp_all add: is_digit_def digit_val_def)
  have ne: "digit n \<noteq> c" if "(of_char c :: nat) < 48" for c
    using that o by (metis add.commute leD le_add2)
  show "\<not> is_space (digit n)" using ne by (auto simp: is_space_def)
  show "digit n \<noteq> CHR ''-''" "digit n \<noteq> CHR ''+''" "digit n \<noteq> CHR 0x0A" by (simp_all add: ne)
qed

lemma decimal_digits: "\<forall>c\<in>set (decimal n). \<exists>k<10. c = digit k"
proof (induction n rule: decimal.induct)
  case (1 n)
  have "n mod 10 < 10" by simp
  with 1 show ?case by (subst decimal.simps) (auto intro: exI [of _ "n mod 10"])
qed

lemma decimal_nonempty: "decimal n \<noteq> []"
  by (simp add: decimal.simps)

lemma digits_val_decimal: "digits_val (decimal n) = n"
proof (induction n rule: decimal.induct)
  case (1 n)
  show ?case
  proof (cases "n < 10")
    case True
    then show ?thesis by (subst decimal.simps) (simp add: digits_val_def digit_facts)
  next
    case False
    have "digits_val (decimal (n div 10) @ [digit (n mod 10)]) = 10 * digits_val (decimal (n div 10)) + n mod 10"
      by (simp add: digits_val_def digit_facts)
    with 1 False show ?thesis by (subst decimal.simps) simp
  qed
qed

lemma length_decimal: "n < 10 ^ k \<Longrightarrow> 0 < k \<Longrightarrow> length (decimal n) \<le> k"
proof (induction k arbitrary: n)
  case (Suc k)
  show ?case
  proof (cases "n < 10")
    case True
    then show ?thesis by (simp add: decimal.simps)
  next
    case False
    then have "0 < k" using Suc.prems by (cases k) auto
    moreover have "n div 10 < 10 ^ k" using Suc.prems(1) by (simp add: less_mult_imp_div_less mult.commute)
    ultimately have "length (decimal (n div 10)) \<le> k" using Suc.IH by blast
    with False show ?thesis by (subst decimal.simps) simp
  qed
qed simp

lemma strtoul_decimal:
  assumes "n \<le> ULONG_MAX"
  shows "strtoul (decimal n) = (n, [], False)"
proof -
  let ?d = "decimal n"
  obtain k ds where d: "?d = digit k # ds" "k < 10"
    using decimal_digits [of n] decimal_nonempty [of n] by (cases ?d) auto
  have head: "dropWhile is_space ?d = ?d" "sign ?d = (False, ?d)" using d digit_facts [OF d(2)] by simp_all
  have "\<forall>c\<in>set ?d. is_digit c" using decimal_digits [of n] digit_facts(1) by auto
  then have all: "takeWhile is_digit ?d = ?d" "dropWhile is_digit ?d = []"
    by (simp_all add: takeWhile_eq_all_conv)
  show ?thesis
    unfolding strtoul_def head split all Let_def digits_val_decimal using assms decimal_nonempty [of n] by simp
qed

end
