(* ===== verification/Heap_Test.thy ===== *)
theory Heap_Test
  imports Heap_Index Generic C_Library
begin

text \<open>
  The test program of the heap, \<open>unix_socket_api/binary_heap/binary_heap_test.c\<close>: its elements with the two
  callbacks it gives to the heap, the four phases of the test and \<open>main\<close>. The heap is the one of
  \<open>Binary_Heap\<close>, interpreted here on a second pair of callbacks; \<open>printf\<close> and \<open>perror\<close> have no effect on
  the model. \<open>rand\<close>, \<open>malloc\<close> are parameters; what the test does with their results, the count of
  its live allocations included, is the model.
\<close>

section \<open>Elements\<close>

record testing_elem =
  e_ts :: timespec
  e_heap_ix :: nat

text \<open>Address 0 is the null pointer, which no block of the memory has.\<close>

type_synonym elem_memory = "addr \<Rightarrow> testing_elem option"

definition elem_at :: "elem_memory \<Rightarrow> addr \<Rightarrow> testing_elem c_result" where
  "elem_at m a = (case m a of None \<Rightarrow> Inl Undefined | Some s \<Rightarrow> Inr s)"

lemma elem_at_Some [simp]: "m a = Some s \<Longrightarrow> elem_at m a = Inr s"
  by (simp add: elem_at_def)

text \<open>\<open>ACCUM_TIME_NS\<close> in the arithmetic of \<open>long\<close>, whose overflow is undefined.\<close>

definition accum_time :: "timespec \<Rightarrow> int c_result" where
  "accum_time ts =
     bindc (to_long (tv_sec ts * SEC_NS_FACTOR)) (\<lambda>ns. to_long (ns + tv_nsec ts))"

definition elem_less_ts :: "timespec \<Rightarrow> timespec \<Rightarrow> bool c_result" where
  "elem_less_ts a b = bindc (accum_time a) (\<lambda>x. bindc (accum_time b) (\<lambda>y. Inr (x \<ge> y)))"

definition compare_elem :: "elem_memory \<Rightarrow> addr \<Rightarrow> addr \<Rightarrow> bool c_result" where
  "compare_elem m lhs rhs =
     bindc (elem_at m lhs) (\<lambda>a. bindc (elem_at m rhs) (\<lambda>b. elem_less_ts (e_ts a) (e_ts b)))"

definition swap_elem :: "elem_memory \<Rightarrow> addr \<Rightarrow> addr \<Rightarrow> (elem_memory \<times> addr \<times> addr) c_result" where
  "swap_elem m elem_a elem_b =
     (let tmp = elem_a; new_a = elem_b; new_b = tmp in
      bindc (elem_at m new_a) (\<lambda>sa.
      let tmp_heap_ix = e_heap_ix sa in
      bindc (elem_at m new_b) (\<lambda>sb.
      let m1 = m(new_a \<mapsto> sa\<lparr>e_heap_ix := e_heap_ix sb\<rparr>) in
      bindc (elem_at m1 new_b) (\<lambda>sb1.
      Inr (m1(new_b \<mapsto> sb1\<lparr>e_heap_ix := tmp_heap_ix\<rparr>), new_a, new_b)))))"

section \<open>The contract of the callbacks\<close>

text \<open>An element the comparison may be called on: its time in nanoseconds is a \<open>long\<close>.\<close>

definition timed :: "testing_elem \<Rightarrow> bool" where
  "timed s \<longleftrightarrow> long_ok (tv_sec (e_ts s) * SEC_NS_FACTOR) \<and> long_ok (ACCUM_TIME_NS (e_ts s))"

definition elem_live :: "elem_memory \<Rightarrow> addr \<Rightarrow> bool" where
  "elem_live m a \<longleftrightarrow> (case m a of None \<Rightarrow> False | Some s \<Rightarrow> timed s)"

definition elem_time :: "elem_memory \<Rightarrow> addr \<Rightarrow> int" where
  "elem_time m a = ACCUM_TIME_NS (e_ts (the (m a)))"

definition elem_slot :: "elem_memory \<Rightarrow> addr \<Rightarrow> nat" where
  "elem_slot m a = e_heap_ix (the (m a))"

definition but_ix :: "elem_memory \<Rightarrow> elem_memory" where
  "but_ix m = (\<lambda>a. map_option (\<lambda>s. s\<lparr>e_heap_ix := 0\<rparr>) (m a))"

lemma accum_timed [simp]: "timed s \<Longrightarrow> accum_time (e_ts s) = Inr (ACCUM_TIME_NS (e_ts s))"
  by (simp add: accum_time_def timed_def ACCUM_TIME_NS_def)

lemma elem_liveE:
  assumes "elem_live m a"
  obtains s where "m a = Some s" and "timed s"
  using assms by (auto simp: elem_live_def split: option.splits)

lemma timed_ix [simp]: "timed (s\<lparr>e_heap_ix := i\<rparr>) = timed s"
  by (simp add: timed_def)

lemma swap_elem_eq:
  assumes "m x = Some sx" and "m y = Some sy"
  shows "swap_elem m x y =
    Inr (m(y \<mapsto> sy\<lparr>e_heap_ix := e_heap_ix sx\<rparr>, x \<mapsto> sx\<lparr>e_heap_ix := e_heap_ix sy\<rparr>), y, x)"
  using assms by (cases "x = y") (simp_all add: swap_elem_def elem_at_def)

interpretation test_heap:
  heap_indexed compare_elem swap_elem elem_live elem_time but_ix elem_slot
proof (unfold_locales, goal_cases)
  case (1 m x y)
  then obtain sx sy where "m x = Some sx" "m y = Some sy" "timed sx" "timed sy" by (metis elem_liveE)
  then show ?case by (simp add: compare_elem_def elem_less_ts_def elem_time_def)
next
  case (2 m x y)
  then obtain sx sy where "m x = Some sx" "m y = Some sy" by (metis elem_liveE)
  then show ?case
    by (simp add: swap_elem_eq)
       (auto simp: elem_live_def elem_time_def but_ix_def fun_eq_iff)
next
  case (3 m x y m' a b)
  then obtain sx sy where s: "m x = Some sx" "m y = Some sy" by (metis elem_liveE)
  with 3(3) have "m' = m(y \<mapsto> sy\<lparr>e_heap_ix := e_heap_ix sx\<rparr>, x \<mapsto> sx\<lparr>e_heap_ix := e_heap_ix sy\<rparr>)"
    by (auto simp: swap_elem_eq)
  with s show ?case by (auto simp: elem_slot_def fun_eq_iff)
qed

section \<open>The process\<close>

text \<open>
  What the environment gives: the successive results of \<open>rand\<close>, and of \<open>malloc\<close> for an element (a free
  address with the indeterminate contents of the block, or the null pointer) and for the two arrays.
\<close>

record test_env =
  te_rand :: "nat \<Rightarrow> int"
  te_malloc :: "nat \<Rightarrow> elem_memory \<Rightarrow> (addr \<times> testing_elem) option"
  te_heap_slots :: "nat \<Rightarrow> addr list option"
  te_popped_slots :: "nat \<Rightarrow> addr list option"

text \<open>\<open>t_tick\<close> numbers the calls of \<open>rand\<close> and \<open>malloc\<close>.\<close>

record test_state =
  t_mem :: elem_memory
  t_heap :: "(addr, elem_memory) binary_heap"
  active_allocations :: int
  t_tick :: nat

definition UPDATE_TIME_STEP :: int where "UPDATE_TIME_STEP = 10"

text \<open>The remainder of C, with the sign of the dividend.\<close>

definition c_rem :: "int \<Rightarrow> int \<Rightarrow> int c_result" where
  "c_rem a b = (if b = 0 then Inl Undefined else Inr (sgn a * (\<bar>a\<bar> mod \<bar>b\<bar>)))"

text \<open>\<open>None\<close> is the null pointer. \<open>tv_nsec\<close> keeps the indeterminate value it has.\<close>

definition create_elem :: "test_env \<Rightarrow> nat \<Rightarrow> nat \<Rightarrow> test_state \<Rightarrow> (addr option \<times> test_state) c_result" where
  "create_elem te heap_ix limit w =
     (case te_malloc te (t_tick w) (t_mem w) of
        None \<Rightarrow> Inr (None, w\<lparr>t_tick := Suc (t_tick w)\<rparr>)
      | Some (ptr, s) \<Rightarrow>
          let s1 = s\<lparr>e_heap_ix := heap_ix\<rparr> in
          bindc (c_rem (te_rand te (Suc (t_tick w))) (to_int32 (int limit))) (\<lambda>sec.
          let s2 = s1\<lparr>e_ts := (e_ts s1)\<lparr>tv_sec := sec\<rparr>\<rparr> in
          Inr (Some ptr, w\<lparr>t_mem := (t_mem w)(ptr \<mapsto> s2), active_allocations := active_allocations w + 1,
                           t_tick := t_tick w + 2\<rparr>)))"

definition free_elem :: "addr \<Rightarrow> test_state \<Rightarrow> test_state c_result" where
  "free_elem e w =
     (if e \<noteq> 0 \<and> t_mem w e = None then Inl Undefined
      else Inr (w\<lparr>t_mem := (t_mem w)(e := None), active_allocations := active_allocations w - 1\<rparr>))"

section \<open>The phases\<close>

text \<open>\<open>binary_heap_validate (heap)\<close> in a state.\<close>

definition validate_now :: "test_state \<Rightarrow> int c_result" where
  "validate_now w = binary_heap_validate (t_heap w) (t_mem w)"

text \<open>The loop of \<open>test_heap_push\<close> over the values of \<open>i\<close>.\<close>

fun test_heap_push_loop :: "test_env \<Rightarrow> nat list \<Rightarrow> test_state \<Rightarrow> (int \<times> test_state) c_result" where
  "test_heap_push_loop te [] w = Inr (0, w)"
| "test_heap_push_loop te (i # is) w =
     bindc (create_elem te i (capacity (t_heap w)) w) (\<lambda>(elem, w1).
     case elem of
       None \<Rightarrow> Inr (-1, w1)
     | Some e \<Rightarrow>
         bindc (binary_heap_push (t_heap w1) (t_mem w1) e) (\<lambda>(r, h, m).
         let w2 = w1\<lparr>t_heap := h, t_mem := m\<rparr> in
         if r \<noteq> 0 then bindc (free_elem e w2) (\<lambda>w3. Inr (-1, w3))
         else
           bindc (validate_now w2) (\<lambda>v.
           if v \<noteq> 0 then Inr (-1, w2) else test_heap_push_loop te is w2)))"

definition test_heap_push :: "test_env \<Rightarrow> test_state \<Rightarrow> (int \<times> test_state) c_result" where
  "test_heap_push te w = test_heap_push_loop te [0..<capacity (t_heap w)] w"

text \<open>\<open>ix = rand () % heap->size\<close>, in \<open>size_t\<close>.\<close>

definition random_ix :: "test_env \<Rightarrow> test_state \<Rightarrow> (nat \<times> test_state) c_result" where
  "random_ix te w =
     (if heap_size (t_heap w) = 0 then Inl Undefined
      else Inr (size_t (te_rand te (t_tick w)) mod heap_size (t_heap w), w\<lparr>t_tick := Suc (t_tick w)\<rparr>))"

text \<open>Half a turn of \<open>test_heap_update\<close>: one element is moved by \<open>step\<close> seconds and put in place.\<close>

definition shift_random :: "test_env \<Rightarrow> int \<Rightarrow> test_state \<Rightarrow> (int \<times> test_state) c_result" where
  "shift_random te step w =
     bindc (random_ix te w) (\<lambda>(ix, w1).
     bindc (arr_get (arr (t_heap w1)) ix) (\<lambda>e.
     bindc (elem_at (t_mem w1) e) (\<lambda>s.
     bindc (to_long (tv_sec (e_ts s) + step)) (\<lambda>sec.
     let m1 = (t_mem w1)(e \<mapsto> s\<lparr>e_ts := (e_ts s)\<lparr>tv_sec := sec\<rparr>\<rparr>) in
     bindc (binary_heap_update (t_heap w1) m1 ix) (\<lambda>(h, m).
     let w2 = w1\<lparr>t_heap := h, t_mem := m\<rparr> in
     bindc (validate_now w2) (\<lambda>v. Inr (if v \<noteq> 0 then -1 else 0, w2)))))))"

fun test_heap_update :: "test_env \<Rightarrow> nat \<Rightarrow> test_state \<Rightarrow> (int \<times> test_state) c_result" where
  "test_heap_update te 0 w = Inr (0, w)"
| "test_heap_update te (Suc n) w =
     bindc (shift_random te UPDATE_TIME_STEP w) (\<lambda>(r1, w1).
     if r1 \<noteq> 0 then Inr (-1, w1)
     else
       bindc (shift_random te (- UPDATE_TIME_STEP) w1) (\<lambda>(r2, w2).
       if r2 \<noteq> 0 then Inr (-1, w2) else test_heap_update te n w2))"

fun test_heap_remove :: "test_env \<Rightarrow> nat \<Rightarrow> test_state \<Rightarrow> (int \<times> test_state) c_result" where
  "test_heap_remove te 0 w = Inr (0, w)"
| "test_heap_remove te (Suc n) w =
     bindc (random_ix te w) (\<lambda>(ix, w1).
     bindc (binary_heap_remove (t_heap w1) (t_mem w1) ix) (\<lambda>(r, removed, h, m).
     let w2 = w1\<lparr>t_heap := h, t_mem := m\<rparr> in
     if r \<noteq> 0 then Inr (-1, w2)
     else
       case removed of
         None \<Rightarrow> Inl Undefined
       | Some e \<Rightarrow>
           bindc (free_elem e w2) (\<lambda>w3.
           bindc (validate_now w3) (\<lambda>v.
           if v \<noteq> 0 then Inr (-1, w3) else test_heap_remove te n w3))))"

text \<open>The cleanup loops: the elements in the given slots are freed.\<close>

fun free_slots :: "addr list \<Rightarrow> nat list \<Rightarrow> test_state \<Rightarrow> test_state c_result" where
  "free_slots xs [] w = Inr w"
| "free_slots xs (i # is) w =
     bindc (arr_get xs i) (\<lambda>e. bindc (free_elem e w) (\<lambda>w'. free_slots xs is w'))"

text \<open>The \<open>while\<close> loop of \<open>test_heap_pop\<close>, with the number of turns left; \<open>i\<close> elements have been popped.\<close>

fun test_heap_pop_loop ::
  "nat \<Rightarrow> nat \<Rightarrow> addr list \<Rightarrow> test_state \<Rightarrow> (int \<times> nat \<times> addr list \<times> test_state) c_result" where
  "test_heap_pop_loop 0 i popped w = Inr (0, i, popped, w)"
| "test_heap_pop_loop (Suc n) i popped w =
     (if fst (binary_heap_top (t_heap w)) \<noteq> 0 then Inr (-1, i, popped, w)
      else
        bindc (binary_heap_pop (t_heap w) (t_mem w)) (\<lambda>(r, elem, h, m).
        let w1 = w\<lparr>t_heap := h, t_mem := m\<rparr> in
        if r \<noteq> 0 then Inr (-1, i, popped, w1)
        else
          case elem of
            None \<Rightarrow> Inl Undefined
          | Some e \<Rightarrow>
              bindc (arr_set popped i e) (\<lambda>popped1.
              bindc (validate_now w1) (\<lambda>v.
              if v \<noteq> 0 then Inr (-1, Suc i, popped1, w1)
              else test_heap_pop_loop n (Suc i) popped1 w1))))"

definition test_heap_pop :: "addr list \<Rightarrow> nat \<Rightarrow> test_state \<Rightarrow> (int \<times> addr list \<times> test_state) c_result" where
  "test_heap_pop elem_arr n w =
     bindc (test_heap_pop_loop n 0 elem_arr w) (\<lambda>(r, i, popped, w1).
     if r = 0 then Inr (0, popped, w1)
     else bindc (free_slots popped (rev [0..<i]) w1) (\<lambda>w2. Inr (-1, popped, w2)))"

text \<open>The loop of \<open>is_sorted\<close> over the values of \<open>i\<close>.\<close>

fun is_sorted_loop :: "elem_memory \<Rightarrow> addr list \<Rightarrow> nat list \<Rightarrow> int c_result" where
  "is_sorted_loop m xs [] = Inr 0"
| "is_sorted_loop m xs (i # is) =
     bindc (arr_get xs i) (\<lambda>a. bindc (elem_at m a) (\<lambda>sa.
     bindc (arr_get xs (i - 1)) (\<lambda>b. bindc (elem_at m b) (\<lambda>sb.
     bindc (elem_less_ts (e_ts sa) (e_ts sb)) (\<lambda>ge.
     if \<not> ge then Inr (-1) else is_sorted_loop m xs is)))))"

definition is_sorted :: "elem_memory \<Rightarrow> addr list \<Rightarrow> nat \<Rightarrow> int c_result" where
  "is_sorted m xs n = is_sorted_loop m xs [1..<n]"

section \<open>main\<close>

definition parse_heap_size :: "string \<Rightarrow> nat" where
  "parse_heap_size s =
     (case strtoul s of (result, endptr, err) \<Rightarrow> if err then 0 else if endptr \<noteq> [] then 0 else result)"

text \<open>\<open>FREE_HEAP_ELEMS\<close> and the rest of \<open>main\<close>: the exit code and the final state.\<close>

definition test_cleanup :: "int \<Rightarrow> test_state \<Rightarrow> (int \<times> test_state) c_result" where
  "test_cleanup result w =
     bindc (free_slots (arr (t_heap w)) [0..<heap_size (t_heap w)] w) (\<lambda>w1.
     let w2 = w1\<lparr>t_heap := binary_heap_free (t_heap w1)\<rparr> in
     Inr (if result = 0 \<and> active_allocations w2 \<noteq> 0 then 1 else result, w2))"

text \<open>The part of \<open>main\<close> in which the array of the popped elements is allocated.\<close>

definition test_drain :: "addr list \<Rightarrow> nat \<Rightarrow> test_state \<Rightarrow> (int \<times> test_state) c_result" where
  "test_drain slots elem_to_pop w =
     bindc (test_heap_pop slots elem_to_pop w) (\<lambda>(r, popped, w1).
     if r \<noteq> 0 then Inr (1, w1)
     else
       let free_popped = \<lambda>result w. bindc (free_slots popped [0..<elem_to_pop] w) (\<lambda>w'. Inr (result, w')) in
       if fst (binary_heap_top (t_heap w1)) = 0 then free_popped 1 w1
       else
         bindc (binary_heap_pop (t_heap w1) (t_mem w1)) (\<lambda>(r, _, h, m).
         let w2 = w1\<lparr>t_heap := h, t_mem := m\<rparr> in
         if r = 0 then free_popped 1 w2
         else
           bindc (is_sorted (t_mem w2) popped elem_to_pop) (\<lambda>v.
           free_popped (if v \<noteq> 0 then 1 else 0) w2)))"

text \<open>The test from the filled heap on: \<open>elem\<close> is still the null pointer.\<close>

definition test_phases :: "test_env \<Rightarrow> nat \<Rightarrow> test_state \<Rightarrow> (int \<times> test_state) c_result" where
  "test_phases te n w =
     bindc (test_heap_push te w) (\<lambda>(r1, w1).
     if r1 \<noteq> 0 then Inr (1, w1)
     else
       bindc (binary_heap_push (t_heap w1) (t_mem w1) 0) (\<lambda>(r2, h, m).
       let w2 = w1\<lparr>t_heap := h, t_mem := m\<rparr> in
       if r2 = 0 then Inr (1, w2)
       else
         bindc (test_heap_update te n w2) (\<lambda>(r3, w3).
         if r3 \<noteq> 0 then Inr (1, w3)
         else
           bindc (test_heap_remove te (n div 2) w3) (\<lambda>(r4, w4).
           if r4 \<noteq> 0 then Inr (1, w4)
           else
             case te_popped_slots te (heap_bytes (n - n div 2) 8) of
               None \<Rightarrow> Inr (1, w4)
             | Some slots \<Rightarrow> test_drain slots (n - n div 2) w4))))"

definition test_main :: "test_env \<Rightarrow> string list \<Rightarrow> (int \<times> test_state option) c_result" where
  "test_main te argv =
     (if length argv \<noteq> 2 then Inr (1, None)
      else
        let n = parse_heap_size (argv ! 1) in
        if n = 0 then Inr (1, None)
        else
          (case binary_heap_allocate (te_heap_slots te) n 8 compare_elem swap_elem of
             (_, None) \<Rightarrow> Inr (1, None)
           | (_, Some h) \<Rightarrow>
               bindc (test_phases te n \<lparr>t_mem = Map.empty, t_heap = h, active_allocations = 0, t_tick = 0\<rparr>)
                 (\<lambda>(result, w). bindc (test_cleanup result w) (\<lambda>(result', w'). Inr (result', Some w')))))"

end
