(* ===== verification/Heap_Test_Correct.thy ===== *)
theory Heap_Test_Correct
  imports Heap_Test
begin

text \<open>
  The test program keeps its books: \<open>held\<close> are the elements it has allocated and not freed, those in the
  heap and those it has popped. Every phase keeps that list equal to the memory, the heap in order and the
  times of all elements small enough for the arithmetic of \<open>long\<close>.
\<close>

section \<open>The memory\<close>

definition elem_ok :: "int \<Rightarrow> testing_elem \<Rightarrow> bool" where
  "elem_ok B s \<longleftrightarrow> \<bar>tv_sec (e_ts s)\<bar> \<le> B \<and> 0 \<le> tv_nsec (e_ts s) \<and> tv_nsec (e_ts s) < SEC_NS_FACTOR"

definition within :: "int \<Rightarrow> elem_memory \<Rightarrow> bool" where
  "within B m \<longleftrightarrow> (\<forall>a. pred_option (elem_ok B) (m a))"

lemma elem_ok_ix [simp]: "elem_ok B (s\<lparr>e_heap_ix := i\<rparr>) = elem_ok B s"
  by (simp add: elem_ok_def)

lemma elem_ok_mono: "elem_ok B s \<Longrightarrow> B \<le> B' \<Longrightarrow> elem_ok B' s"
  by (simp add: elem_ok_def)

lemma withinD: "within B m \<Longrightarrow> m a = Some s \<Longrightarrow> elem_ok B s"
  by (metis option.pred_inject(2) within_def)

lemma within_mono: "within B m \<Longrightarrow> B \<le> B' \<Longrightarrow> within B' m"
  unfolding within_def by (meson elem_ok_mono option.pred_mono_strong)

lemma within_upd: "within B m \<Longrightarrow> elem_ok B s \<Longrightarrow> within B (m(a \<mapsto> s))"
  by (simp add: within_def)

lemma within_del: "within B m \<Longrightarrow> within B (m(a := None))"
  by (simp add: within_def)

definition mem_inv :: "addr list \<Rightarrow> int \<Rightarrow> int \<Rightarrow> elem_memory \<Rightarrow> bool" where
  "mem_inv held B act m \<longleftrightarrow>
     distinct held \<and> dom m = set held \<and> 0 \<notin> set held \<and> act = int (length held) \<and> within B m"

text \<open>The times of all elements stay far from the bounds of \<open>long\<close> up to this number of seconds.\<close>

definition SAFE_SEC :: int where "SAFE_SEC = 9000000000"

lemma elem_ok_timed:
  assumes "elem_ok B s" and "B \<le> SAFE_SEC"
  shows "timed s"
proof -
  have "- SAFE_SEC \<le> tv_sec (e_ts s)" "tv_sec (e_ts s) \<le> SAFE_SEC"
    "0 \<le> tv_nsec (e_ts s)" "tv_nsec (e_ts s) < SEC_NS_FACTOR"
    using assms unfolding elem_ok_def by linarith+
  then show ?thesis by (simp add: timed_def long_ok_def ACCUM_TIME_NS_def SEC_NS_FACTOR_def SAFE_SEC_def)
qed

lemma within_live: "within B m \<Longrightarrow> B \<le> SAFE_SEC \<Longrightarrow> elem_live m a \<longleftrightarrow> m a \<noteq> None"
  by (auto simp: elem_live_def dest: withinD elem_ok_timed split: option.splits)

lemma within_but_ix: "within B (but_ix m) = within B m"
  by (simp add: within_def but_ix_def option.pred_map comp_def)

lemma dom_but_ix: "dom (but_ix m) = dom m"
  by (auto simp: but_ix_def)

lemma but_ix_same:
  assumes "but_ix m' = but_ix m"
  shows "dom m' = dom m" and "within B m' = within B m"
  using assms dom_but_ix [of m] dom_but_ix [of m'] within_but_ix [of B m] within_but_ix [of B m'] by simp_all

lemma mem_inv_same:
  assumes "mem_inv held B act m" and "but_ix m' = but_ix m" and "mset held' = mset held"
  shows "mem_inv held' B act m'"
  using assms but_ix_same [OF assms(2)] mset_eq_imp_distinct_iff [OF assms(3)] mset_eq_setD [OF assms(3)]
    mset_eq_length [OF assms(3)]
  by (simp add: mem_inv_def)

lemma mem_inv_add:
  assumes "mem_inv held B act m" and "m p = None" and "p \<noteq> 0" and "elem_ok B s"
  shows "mem_inv (p # held) B (act + 1) (m(p \<mapsto> s))"
proof -
  have "p \<notin> set held" using assms(1,2) by (auto simp: mem_inv_def)
  with assms within_upd [of B m s p] show ?thesis by (auto simp: mem_inv_def)
qed

lemma mem_inv_change:
  assumes "mem_inv held B act m" and "m a \<noteq> None" and "elem_ok B' s" and "B \<le> B'"
  shows "mem_inv held B' act (m(a \<mapsto> s))"
proof -
  have "within B' m" using assms(1,4) by (auto simp: mem_inv_def intro: within_mono)
  with assms(1-3) within_upd [of B' m s a] show ?thesis by (auto simp: mem_inv_def)
qed

lemma mem_inv_free:
  assumes "mem_inv (a # held) B act m"
  shows "mem_inv held B (act - 1) (m(a := None))"
  using assms within_del [of B m a] by (auto simp: mem_inv_def)

lemma free_elem_ok:
  assumes "mem_inv (a # held) B (active_allocations w) (t_mem w)"
  shows "\<exists>w'. free_elem a w = Inr w' \<and> mem_inv held B (active_allocations w') (t_mem w') \<and>
    t_heap w' = t_heap w \<and> (\<forall>b. b \<noteq> a \<longrightarrow> t_mem w' b = t_mem w b)"
proof -
  have "t_mem w a \<noteq> None" using assms by (auto simp: mem_inv_def)
  then show ?thesis using mem_inv_free [OF assms] by (simp add: free_elem_def)
qed

lemma free_slots_ok:
  assumes "mem_inv (map ((!) xs) is @ rest) B (active_allocations w) (t_mem w)"
    and "\<forall>i\<in>set is. i < length xs"
  shows "\<exists>w'. free_slots xs is w = Inr w' \<and> mem_inv rest B (active_allocations w') (t_mem w') \<and>
    t_heap w' = t_heap w \<and> (\<forall>b\<in>set rest. t_mem w' b = t_mem w b)"
  using assms
proof (induction "is" arbitrary: w)
  case (Cons i js)
  from free_elem_ok [OF Cons.prems(1) [simplified]] obtain w1 where
    w1: "free_elem (xs ! i) w = Inr w1" "t_heap w1 = t_heap w" "\<forall>b. b \<noteq> xs ! i \<longrightarrow> t_mem w1 b = t_mem w b" and
    m1: "mem_inv (map ((!) xs) js @ rest) B (active_allocations w1) (t_mem w1)" by blast
  from Cons.IH [OF m1] Cons.prems(2) obtain w2 where "free_slots xs js w1 = Inr w2"
    "mem_inv rest B (active_allocations w2) (t_mem w2)" "t_heap w2 = t_heap w1"
    "\<forall>b\<in>set rest. t_mem w2 b = t_mem w1 b" by auto
  moreover have "xs ! i \<notin> set rest" using Cons.prems(1) by (auto simp: mem_inv_def)
  then have "\<forall>b\<in>set rest. t_mem w1 b = t_mem w b" using w1(3) by metis
  ultimately show ?case using w1(1,2) Cons.prems(2) by simp
qed simp

section \<open>The heap\<close>

abbreviation heap_fine :: "(addr, elem_memory) binary_heap \<Rightarrow> elem_memory \<Rightarrow> bool" where
  "heap_fine \<equiv> heap_inv compare_elem swap_elem elem_live elem_time"

abbreviation view_kept ::
  "(addr, elem_memory) binary_heap \<Rightarrow> elem_memory \<Rightarrow> (addr, elem_memory) binary_heap \<Rightarrow> elem_memory \<Rightarrow> bool" where
  "view_kept \<equiv> same_view elem_live elem_time but_ix"

definition test_inv :: "addr list \<Rightarrow> int \<Rightarrow> test_state \<Rightarrow> bool" where
  "test_inv out B w \<longleftrightarrow> heap_fine (t_heap w) (t_mem w) \<and> B \<le> SAFE_SEC \<and>
     mem_inv (out @ elems (t_heap w)) B (active_allocations w) (t_mem w)"

lemma heap_fine_cong:
  assumes "heap_fine h m" and "\<And>a. a \<in> set (elems h) \<Longrightarrow> m' a = m a"
  shows "heap_fine h m'"
proof -
  have in_elems: "arr h ! i \<in> set (elems h)" if "i < heap_size h" for i
    using that length_elems [OF assms(1)] nth_elems [of i h] by (metis nth_mem)
  have same: "elem_live m' (arr h ! i) = elem_live m (arr h ! i)" "elem_time m' (arr h ! i) = elem_time m (arr h ! i)"
    if "i < heap_size h" for i
    using assms(2) [OF in_elems [OF that]] by (simp_all add: elem_live_def elem_time_def)
  show ?thesis
    using assms(1) same by (simp add: heap_inv_def slots_ok_def heap_ord_def PARENT_lt)
qed

lemma test_inv_step:
  assumes "mem_inv (out @ elems h) B act m" and "B \<le> SAFE_SEC" and "heap_fine h' m'" and "view_kept h m h' m'"
    and "mset (out' @ elems h') = mset (out @ elems h)"
  shows "test_inv out' B (w\<lparr>t_heap := h', t_mem := m', active_allocations := act\<rparr>)"
proof -
  have "but_ix m' = but_ix m" using assms(4) by (simp add: same_view_def)
  from mem_inv_same [OF assms(1) this assms(5)] assms(2,3) show ?thesis by (simp add: test_inv_def)
qed

lemma test_inv_free:
  assumes "test_inv (a # out) B w"
  shows "\<exists>w'. free_elem a w = Inr w' \<and> test_inv out B w' \<and> t_heap w' = t_heap w"
proof -
  have m: "mem_inv (a # out @ elems (t_heap w)) B (active_allocations w) (t_mem w)"
    using assms by (simp add: test_inv_def)
  from free_elem_ok [OF m] obtain w' where w': "free_elem a w = Inr w'" "t_heap w' = t_heap w"
    "mem_inv (out @ elems (t_heap w)) B (active_allocations w') (t_mem w')"
    "\<forall>b. b \<noteq> a \<longrightarrow> t_mem w' b = t_mem w b" by blast
  have "a \<notin> set (elems (t_heap w))" using m by (simp add: mem_inv_def)
  then have same: "t_mem w' b = t_mem w b" if "b \<in> set (elems (t_heap w))" for b
    using that w'(4) by metis
  have "heap_fine (t_heap w) (t_mem w)" using assms unfolding test_inv_def by (rule conjunct1)
  from heap_fine_cong [OF this same] have "heap_fine (t_heap w) (t_mem w')" .
  with w'(1-3) assms show ?thesis by (simp add: test_inv_def)
qed

lemma test_inv_free_slots:
  assumes "test_inv (map ((!) xs) is) B w" and "\<forall>i\<in>set is. i < length xs"
  shows "\<exists>w'. free_slots xs is w = Inr w' \<and> test_inv [] B w' \<and> t_heap w' = t_heap w"
  using assms
proof (induction "is" arbitrary: w)
  case (Cons i js)
  from test_inv_free [OF Cons.prems(1) [simplified]] obtain w1 where
    w1: "free_elem (xs ! i) w = Inr w1" "test_inv (map ((!) xs) js) B w1" "t_heap w1 = t_heap w" by blast
  from Cons.IH [OF w1(2)] Cons.prems(2) w1(1,3) show ?case by simp
qed simp

lemma test_inv_size: "test_inv out B w \<Longrightarrow> heap_size (t_heap w) \<le> capacity (t_heap w)"
  using heap_inv_size [of compare_elem swap_elem elem_live elem_time "t_heap w" "t_mem w"]
  by (simp add: test_inv_def)

lemma test_inv_elem:
  assumes "test_inv out B w" and "i < heap_size (t_heap w)"
  obtains s where "t_mem w (arr (t_heap w) ! i) = Some s" and "i < length (arr (t_heap w))"
proof -
  have "elem_live (t_mem w) (arr (t_heap w) ! i)" "i < length (arr (t_heap w))"
    using assms by (auto simp: test_inv_def heap_inv_def slots_ok_def)
  then show thesis using that by (metis elem_liveE)
qed

lemma validate_fine: "heap_fine h m \<Longrightarrow> binary_heap_validate h m = Inr 0"
  using test_heap.validate_iff [of h m] by (simp add: heap_inv_def)

lemma validate_now_ok: "test_inv out B w \<Longrightarrow> validate_now w = Inr 0"
  by (simp add: validate_now_def test_inv_def validate_fine)

end
