(* ===== verification/Heap_Test_Phases.thy ===== *)
theory Heap_Test_Phases
  imports Heap_Test_Correct
begin

text \<open>
  The phases of the test program, one lemma each: with a well-behaved environment no phase fails but for an
  exhausted memory, and every one leaves the books in order.
\<close>

section \<open>The environment\<close>

text \<open>
  \<open>rand\<close> is between 0 and \<open>RAND_MAX\<close>; \<open>malloc\<close> gives a free block of the size asked for. The nanoseconds
  of a fresh element are those of some time: \<open>create_elem\<close> does not initialise them.
\<close>

definition env_ok :: "test_env \<Rightarrow> bool" where
  "env_ok te \<longleftrightarrow>
     (\<forall>k. 0 \<le> te_rand te k \<and> te_rand te k < 2 ^ 31) \<and>
     (\<forall>k m ptr s. te_malloc te k m = Some (ptr, s) \<longrightarrow>
        m ptr = None \<and> ptr \<noteq> 0 \<and> 0 \<le> tv_nsec (e_ts s) \<and> tv_nsec (e_ts s) < SEC_NS_FACTOR) \<and>
     (\<forall>n xs. te_heap_slots te n = Some xs \<longrightarrow> length xs = n div 8) \<and>
     (\<forall>n xs. te_popped_slots te n = Some xs \<longrightarrow> length xs = n div 8)"

definition no_memory :: "test_env \<Rightarrow> bool" where
  "no_memory te \<longleftrightarrow> (\<exists>k m. te_malloc te k m = None) \<or> (\<exists>n. te_popped_slots te n = None)"

lemma c_rem_nonneg: "0 \<le> a \<Longrightarrow> 0 < b \<Longrightarrow> c_rem a b = Inr (a mod b)"
  by (cases "a = 0") (simp_all add: c_rem_def)

section \<open>Filling the heap\<close>

lemma create_elem_ok:
  assumes te: "env_ok te" and inv: "test_inv [] B w" and lim: "0 < limit" "limit < 2 ^ 31" "int limit \<le> B"
  shows "\<exists>p w'. create_elem te i limit w = Inr (p, w') \<and> t_heap w' = t_heap w \<and>
    (case p of None \<Rightarrow> test_inv [] B w' \<and> no_memory te | Some e \<Rightarrow> test_inv [e] B w')"
proof (cases "te_malloc te (t_tick w) (t_mem w)")
  case None
  then have "no_memory te" by (auto simp: no_memory_def)
  with None inv show ?thesis by (simp add: create_elem_def test_inv_def)
next
  case (Some x)
  obtain e s where x: "x = (e, s)" by fastforce
  let ?r = "te_rand te (Suc (t_tick w))"
  let ?s = "s\<lparr>e_heap_ix := i, e_ts := (e_ts s)\<lparr>tv_sec := ?r mod int limit\<rparr>\<rparr>"
  have fresh: "t_mem w e = None" "e \<noteq> 0" and ns: "0 \<le> tv_nsec (e_ts s)" "tv_nsec (e_ts s) < SEC_NS_FACTOR"
    using te Some x by (auto simp: env_ok_def)
  have r: "0 \<le> ?r" using te by (simp add: env_ok_def)
  have "0 \<le> ?r mod int limit" "?r mod int limit < int limit" using lim(1) by simp_all
  then have ok: "elem_ok B ?s" using lim(3) ns by (simp add: elem_ok_def)
  have "mem_inv (elems (t_heap w)) B (active_allocations w) (t_mem w)" using inv by (simp add: test_inv_def)
  from mem_inv_add [OF this fresh ok]
  have m: "mem_inv (e # elems (t_heap w)) B (active_allocations w + 1) ((t_mem w)(e \<mapsto> ?s))" .
  have fine: "heap_fine (t_heap w) (t_mem w)" using inv by (simp add: test_inv_def)
  have "e \<notin> set (elems (t_heap w))" using m by (simp add: mem_inv_def)
  then have "((t_mem w)(e \<mapsto> ?s)) b = t_mem w b" if "b \<in> set (elems (t_heap w))" for b
    using that by auto
  from heap_fine_cong [OF fine this] have f: "heap_fine (t_heap w) ((t_mem w)(e \<mapsto> ?s))" .
  have "c_rem ?r (to_int32 (int limit)) = Inr (?r mod int limit)"
    using lim(1,2) r by (simp add: c_rem_nonneg)
  with Some x m f inv show ?thesis by (simp add: create_elem_def Let_def test_inv_def)
qed

lemma push_one:
  assumes inv: "test_inv [e] B w" and room: "heap_size (t_heap w) < capacity (t_heap w)"
  shows "\<exists>h m. binary_heap_push (t_heap w) (t_mem w) e = Inr (0, h, m) \<and>
    test_inv [] B (w\<lparr>t_heap := h, t_mem := m\<rparr>) \<and> heap_size h = Suc (heap_size (t_heap w)) \<and>
    capacity h = capacity (t_heap w)"
proof -
  have fine: "heap_fine (t_heap w) (t_mem w)" and B: "B \<le> SAFE_SEC" and
    m: "mem_inv ([e] @ elems (t_heap w)) B (active_allocations w) (t_mem w)"
    using inv by (simp_all add: test_inv_def)
  have "t_mem w e \<noteq> None" "within B (t_mem w)" using m by (auto simp: mem_inv_def)
  then have "elem_live (t_mem w) e" using B by (simp add: within_live)
  from test_heap.push_swaps [OF fine room this] obtain h m' where
    p: "binary_heap_push (t_heap w) (t_mem w) e = Inr (0, h, m')" "heap_fine h m'"
      "heap_size h = Suc (heap_size (t_heap w))" "mset (elems h) = add_mset e (mset (elems (t_heap w)))" and
    v: "view_kept (t_heap w) (t_mem w) h m'" by blast
  have "mset ([] @ elems h) = mset ([e] @ elems (t_heap w))" using p(4) by simp
  from test_inv_step [OF m B p(2) v this, of w] p(1,3) v show ?thesis by (simp add: same_view_def)
qed

lemma push_loop_ok:
  assumes "env_ok te" and "test_inv [] B w" and "heap_size (t_heap w) + length is \<le> capacity (t_heap w)"
    and "0 < capacity (t_heap w)" "capacity (t_heap w) < 2 ^ 31" "int (capacity (t_heap w)) \<le> B"
  shows "\<exists>r w'. test_heap_push_loop te is w = Inr (r, w') \<and> test_inv [] B w' \<and>
    capacity (t_heap w') = capacity (t_heap w) \<and>
    (if r = 0 then heap_size (t_heap w') = heap_size (t_heap w) + length is else no_memory te)"
  using assms(2-)
proof (induction "is" arbitrary: w)
  case Nil
  then show ?case by simp
next
  case (Cons i js)
  from create_elem_ok [OF assms(1) Cons.prems(1,3,4,5)] obtain p w1 where
    c: "create_elem te i (capacity (t_heap w)) w = Inr (p, w1)" and h1: "t_heap w1 = t_heap w" and
    p: "case p of None \<Rightarrow> test_inv [] B w1 \<and> no_memory te | Some e \<Rightarrow> test_inv [e] B w1" by blast
  show ?case
  proof (cases p)
    case None
    with c p h1 show ?thesis by simp
  next
    case (Some e)
    with p have inv: "test_inv [e] B w1" by simp
    have room: "heap_size (t_heap w1) < capacity (t_heap w1)" using Cons.prems(2) h1 by simp
    from push_one [OF inv room] obtain h m where
      push: "binary_heap_push (t_heap w1) (t_mem w1) e = Inr (0, h, m)" and
      w2: "test_inv [] B (w1\<lparr>t_heap := h, t_mem := m\<rparr>)" and
      h: "heap_size h = Suc (heap_size (t_heap w))" "capacity h = capacity (t_heap w)" using h1 by auto
    let ?w2 = "w1\<lparr>t_heap := h, t_mem := m\<rparr>"
    have "test_heap_push_loop te (i # js) w = test_heap_push_loop te js ?w2"
      using c Some push validate_now_ok [OF w2] by simp
    moreover from Cons.IH [of ?w2] w2 h Cons.prems obtain r w' where
      "test_heap_push_loop te js ?w2 = Inr (r, w')" "test_inv [] B w'"
      "capacity (t_heap w') = capacity (t_heap w)"
      "if r = 0 then heap_size (t_heap w') = Suc (heap_size (t_heap w)) + length js else no_memory te" by auto
    ultimately show ?thesis by (intro exI [of _ r] exI [of _ w']) simp
  qed
qed

section \<open>Moving and removing random elements\<close>

lemma random_ix_ok:
  assumes "0 < heap_size (t_heap w)"
  shows "\<exists>ix. random_ix te w = Inr (ix, w\<lparr>t_tick := Suc (t_tick w)\<rparr>) \<and> ix < heap_size (t_heap w)"
  using assms by (simp add: random_ix_def)

lemma test_inv_tick [simp]: "test_inv out B (w\<lparr>t_tick := k\<rparr>) = test_inv out B w"
  by (simp add: test_inv_def)

lemma shift_random_ok:
  assumes inv: "test_inv [] B w" and ne: "0 < heap_size (t_heap w)" and step: "\<bar>step\<bar> \<le> 10"
    and B: "B + 10 \<le> SAFE_SEC"
  shows "\<exists>w'. shift_random te step w = Inr (0, w') \<and> test_inv [] (B + 10) w' \<and>
    heap_size (t_heap w') = heap_size (t_heap w) \<and> capacity (t_heap w') = capacity (t_heap w)"
proof -
  let ?h = "t_heap w"
  let ?n = "heap_size ?h"
  from random_ix_ok [OF ne] obtain ix where
    rnd: "random_ix te w = Inr (ix, w\<lparr>t_tick := Suc (t_tick w)\<rparr>)" and ix: "ix < ?n" by blast
  let ?e = "arr ?h ! ix"
  from test_inv_elem [OF inv ix] obtain s where s: "t_mem w ?e = Some s" and len: "ix < length (arr ?h)" .
  let ?s = "s\<lparr>e_ts := (e_ts s)\<lparr>tv_sec := tv_sec (e_ts s) + step\<rparr>\<rparr>"
  let ?m = "(t_mem w)(?e \<mapsto> ?s)"
  have mi: "mem_inv (elems ?h) B (active_allocations w) (t_mem w)" and fine: "heap_fine ?h (t_mem w)"
    using inv by (simp_all add: test_inv_def)
  have "elem_ok B s" using mi s by (auto simp: mem_inv_def dest: withinD)
  then have sec: "\<bar>tv_sec (e_ts s) + step\<bar> \<le> B + 10" using step unfolding elem_ok_def by linarith
  with \<open>elem_ok B s\<close> have ok: "elem_ok (B + 10) ?s" by (simp add: elem_ok_def)
  have lng: "long_ok (tv_sec (e_ts s) + step)" 
  proof -
    have "- SAFE_SEC \<le> tv_sec (e_ts s) + step" "tv_sec (e_ts s) + step \<le> SAFE_SEC" using sec B by linarith+
    then show ?thesis by (simp add: long_ok_def SAFE_SEC_def)
  qed
  from mem_inv_change [OF mi _ ok] s have mi': "mem_inv ([] @ elems ?h) (B + 10) (active_allocations w) ?m" by simp
  then have wi: "within (B + 10) ?m" and dom: "dom ?m = set (elems ?h)" by (simp_all add: mem_inv_def)
  have "?m (arr ?h ! i) \<noteq> None" if "i < ?n" for i
    using test_inv_elem [OF inv that] by fastforce
  then have slots: "slots_ok compare_elem swap_elem elem_live ?n ?h ?m"
    using fine within_live [OF wi B] by (simp add: heap_inv_def slots_ok_def)
  have dist: "distinct (elems ?h)" using mi by (simp add: mem_inv_def)
  have near: "near_ord (elem_time ?m) (arr ?h) ?n ix"
  proof (rule heap_ord_near)
    show "heap_ord (elem_time (t_mem w)) (arr ?h) ?n" using fine by (simp add: heap_inv_def)
    fix i assume i: "i < ?n" "i \<noteq> ix"
    have "elems ?h ! i \<noteq> elems ?h ! ix"
      using dist i ix length_elems [OF fine] by (simp add: nth_eq_iff_index_eq)
    then show "elem_time ?m (arr ?h ! i) = elem_time (t_mem w) (arr ?h ! i)"
      using i ix by (simp add: elem_time_def nth_elems)
  qed
  have cap: "length (arr ?h) = capacity ?h" using fine by (simp add: heap_inv_def)
  from test_heap.update_ok [OF slots cap near ix] obtain h' m' where
    up: "binary_heap_update ?h ?m ix = Inr (h', m')" "heap_fine h' m'" "heap_size h' = ?n"
      "mset (elems h') = mset (elems ?h)" and v: "view_kept ?h ?m h' m'" by blast
  have "mset ([] @ elems h') = mset ([] @ elems ?h)" using up(4) by simp
  from test_inv_step [OF mi' B up(2) v this, of "w\<lparr>t_tick := Suc (t_tick w)\<rparr>"]
  have inv': "test_inv [] (B + 10) (w\<lparr>t_tick := Suc (t_tick w), t_heap := h', t_mem := m'\<rparr>)" by simp
  have "shift_random te step w = Inr (0, w\<lparr>t_tick := Suc (t_tick w), t_heap := h', t_mem := m'\<rparr>)"
    using rnd len s lng up(1) validate_now_ok [OF inv'] by (simp add: shift_random_def)
  with inv' up(3) v show ?thesis by (simp add: same_view_def)
qed

lemma test_heap_update_ok:
  assumes "test_inv [] B w" and "0 < heap_size (t_heap w)" and "B + 20 * int n \<le> SAFE_SEC"
  shows "\<exists>w'. test_heap_update te n w = Inr (0, w') \<and> test_inv [] (B + 20 * int n) w' \<and>
    heap_size (t_heap w') = heap_size (t_heap w) \<and> capacity (t_heap w') = capacity (t_heap w)"
  using assms
proof (induction n arbitrary: B w)
  case 0
  then show ?case by simp
next
  case (Suc n)
  have st: "\<bar>UPDATE_TIME_STEP\<bar> \<le> 10" "\<bar>- UPDATE_TIME_STEP\<bar> \<le> 10" by (simp_all add: UPDATE_TIME_STEP_def)
  have B: "B + 10 \<le> SAFE_SEC" "B + 10 + 10 \<le> SAFE_SEC" "B + 20 + 20 * int n \<le> SAFE_SEC"
    using Suc.prems(3) by simp_all
  from shift_random_ok [OF Suc.prems(1,2) st(1) B(1)] obtain w1 where
    w1: "shift_random te UPDATE_TIME_STEP w = Inr (0, w1)" "test_inv [] (B + 10) w1"
      "heap_size (t_heap w1) = heap_size (t_heap w)" "capacity (t_heap w1) = capacity (t_heap w)" by blast
  have ne: "0 < heap_size (t_heap w1)" using w1(3) Suc.prems(2) by simp
  from shift_random_ok [OF w1(2) ne st(2) B(2)] obtain w2 where
    w2: "shift_random te (- UPDATE_TIME_STEP) w1 = Inr (0, w2)" "test_inv [] (B + 10 + 10) w2"
      "heap_size (t_heap w2) = heap_size (t_heap w1)" "capacity (t_heap w2) = capacity (t_heap w1)" by blast
  have inv2: "test_inv [] (B + 20) w2" using w2(2) by (simp add: add.assoc)
  have ne2: "0 < heap_size (t_heap w2)" using w2(3) ne by simp
  from Suc.IH [OF inv2 ne2 B(3)] w1(1,3,4) w2(1,3,4) show ?case by (simp add: algebra_simps)
qed

lemma test_heap_remove_ok:
  assumes "test_inv [] B w" and "n \<le> heap_size (t_heap w)"
  shows "\<exists>w'. test_heap_remove te n w = Inr (0, w') \<and> test_inv [] B w' \<and>
    heap_size (t_heap w') = heap_size (t_heap w) - n \<and> capacity (t_heap w') = capacity (t_heap w)"
  using assms
proof (induction n arbitrary: w)
  case 0
  then show ?case by simp
next
  case (Suc n)
  let ?h = "t_heap w"
  have ne: "0 < heap_size ?h" using Suc.prems(2) by simp
  from random_ix_ok [OF ne] obtain ix where
    rnd: "random_ix te w = Inr (ix, w\<lparr>t_tick := Suc (t_tick w)\<rparr>)" and ix: "ix < heap_size ?h" by blast
  have fine: "heap_fine ?h (t_mem w)" and B: "B \<le> SAFE_SEC" and
    mi: "mem_inv ([] @ elems ?h) B (active_allocations w) (t_mem w)"
    using Suc.prems(1) by (simp_all add: test_inv_def)
  from test_heap.remove_ok [OF fine ix] obtain h' m' where
    rem: "binary_heap_remove ?h (t_mem w) ix = Inr (0, Some (arr ?h ! ix), h', m')" "heap_fine h' m'"
      "Suc (heap_size h') = heap_size ?h" "add_mset (arr ?h ! ix) (mset (elems h')) = mset (elems ?h)" and
    v: "view_kept ?h (t_mem w) h' m'" by blast
  let ?w2 = "w\<lparr>t_tick := Suc (t_tick w), t_heap := h', t_mem := m'\<rparr>"
  have "mset ([arr ?h ! ix] @ elems h') = mset ([] @ elems ?h)" using rem(4) by simp
  from test_inv_step [OF mi B rem(2) v this, of "w\<lparr>t_tick := Suc (t_tick w)\<rparr>"]
  have "test_inv [arr ?h ! ix] B ?w2" by simp
  from test_inv_free [OF this] obtain w3 where
    w3: "free_elem (arr ?h ! ix) ?w2 = Inr w3" "test_inv [] B w3" "t_heap w3 = h'" by auto
  have "test_heap_remove te (Suc n) w = test_heap_remove te n w3"
    using rnd rem(1) w3(1) validate_now_ok [OF w3(2)] by simp
  moreover have "n \<le> heap_size (t_heap w3)" using w3(3) rem(3) Suc.prems(2) by simp
  from Suc.IH [OF w3(2) this] obtain w' where
    "test_heap_remove te n w3 = Inr (0, w')" "test_inv [] B w'"
    "heap_size (t_heap w') = heap_size h' - n" "capacity (t_heap w') = capacity h'" unfolding w3(3) by blast
  moreover have "capacity h' = capacity ?h" using v by (simp add: same_view_def)
  ultimately show ?case using rem(3) by (simp del: test_heap_remove.simps)
qed

section \<open>Draining the heap\<close>

text \<open>What has been popped is in order, and nothing left in the heap is earlier.\<close>

definition drained :: "addr list \<Rightarrow> test_state \<Rightarrow> bool" where
  "drained out w \<longleftrightarrow> sorted (map (elem_time (t_mem w)) out) \<and>
     (\<forall>x\<in>set out. \<forall>y\<in>set (elems (t_heap w)). elem_time (t_mem w) x \<le> elem_time (t_mem w) y)"

lemma pop_one:
  assumes inv: "test_inv out B w" and dr: "drained out w" and ne: "0 < heap_size (t_heap w)"
  shows "\<exists>e h m. binary_heap_pop (t_heap w) (t_mem w) = Inr (0, Some e, h, m) \<and>
    test_inv (out @ [e]) B (w\<lparr>t_heap := h, t_mem := m\<rparr>) \<and> drained (out @ [e]) (w\<lparr>t_heap := h, t_mem := m\<rparr>) \<and>
    Suc (heap_size h) = heap_size (t_heap w) \<and> add_mset e (mset (elems h)) = mset (elems (t_heap w)) \<and>
    elem_time m = elem_time (t_mem w) \<and> capacity h = capacity (t_heap w)"
proof -
  let ?h = "t_heap w"
  have fine: "heap_fine ?h (t_mem w)" and B: "B \<le> SAFE_SEC" and
    mi: "mem_inv (out @ elems ?h) B (active_allocations w) (t_mem w)"
    using inv by (simp_all add: test_inv_def)
  from test_heap.pop_ok [OF fine ne] obtain h m where
    p: "binary_heap_pop ?h (t_mem w) = Inr (0, Some (arr ?h ! 0), h, m)" "heap_fine h m"
      "Suc (heap_size h) = heap_size ?h" "add_mset (arr ?h ! 0) (mset (elems h)) = mset (elems ?h)" and
    v: "view_kept ?h (t_mem w) h m" by blast
  have "mset ((out @ [arr ?h ! 0]) @ elems h) = mset (out @ elems ?h)" using p(4) by simp
  from test_inv_step [OF mi B p(2) v this, of w] have
    "test_inv (out @ [arr ?h ! 0]) B (w\<lparr>t_heap := h, t_mem := m\<rparr>)" by simp
  moreover have t: "elem_time m = elem_time (t_mem w)" "capacity h = capacity ?h" using v by (simp_all add: same_view_def)
  have "set (elems ?h) = insert (arr ?h ! 0) (set (elems h))"
    using p(4) by (metis set_mset_add_mset_insert set_mset_mset)
  then have "drained (out @ [arr ?h ! 0]) (w\<lparr>t_heap := h, t_mem := m\<rparr>)"
    using dr test_heap.top_least(3) [OF fine ne] t(1) by (auto simp: drained_def sorted_append)
  ultimately show ?thesis using p(1,3,4) t by blast
qed

lemma pop_loop_ok:
  assumes "test_inv (take i popped) B w" and "drained (take i popped) w" and "n \<le> heap_size (t_heap w)"
    and "i + n \<le> length popped"
  shows "\<exists>popped' w'. test_heap_pop_loop n i popped w = Inr (0, i + n, popped', w') \<and>
    length popped' = length popped \<and> test_inv (take (i + n) popped') B w' \<and>
    drained (take (i + n) popped') w' \<and> heap_size (t_heap w') = heap_size (t_heap w) - n \<and>
    mset (take (i + n) popped' @ elems (t_heap w')) = mset (take i popped @ elems (t_heap w)) \<and>
    elem_time (t_mem w') = elem_time (t_mem w) \<and> capacity (t_heap w') = capacity (t_heap w)"
  using assms
proof (induction n arbitrary: i popped w)
  case 0
  then show ?case by auto
next
  case (Suc n)
  have ne: "0 < heap_size (t_heap w)" using Suc.prems(3) by simp
  from pop_one [OF Suc.prems(1,2) ne] obtain e h m where
    p: "binary_heap_pop (t_heap w) (t_mem w) = Inr (0, Some e, h, m)" and
    inv: "test_inv (take i popped @ [e]) B (w\<lparr>t_heap := h, t_mem := m\<rparr>)"
      "drained (take i popped @ [e]) (w\<lparr>t_heap := h, t_mem := m\<rparr>)" and
    sz: "Suc (heap_size h) = heap_size (t_heap w)" and ms: "add_mset e (mset (elems h)) = mset (elems (t_heap w))" and
    t: "elem_time m = elem_time (t_mem w)" "capacity h = capacity (t_heap w)" by blast
  let ?w1 = "w\<lparr>t_heap := h, t_mem := m\<rparr>" and ?q = "popped[i := e]"
  have i: "i < length popped" using Suc.prems(4) by simp
  have tk: "take (Suc i) ?q = take i popped @ [e]" using i by (simp add: take_Suc_conv_app_nth)
  have step: "test_heap_pop_loop (Suc n) i popped w = test_heap_pop_loop n (Suc i) ?q ?w1"
    using ne p i validate_now_ok [OF inv(1)] by (simp add: binary_heap_top_def)
  have n: "n \<le> heap_size (t_heap ?w1)" "Suc i + n \<le> length ?q" using sz Suc.prems(3,4) by simp_all
  from Suc.IH [OF inv [folded tk] n] obtain q' w' where
    r: "test_heap_pop_loop n (Suc i) ?q ?w1 = Inr (0, Suc i + n, q', w')" "length q' = length ?q"
      "test_inv (take (Suc i + n) q') B w'" "drained (take (Suc i + n) q') w'"
      "heap_size (t_heap w') = heap_size h - n"
      "mset (take (Suc i + n) q' @ elems (t_heap w')) = mset (take (Suc i) ?q @ elems h)"
      "elem_time (t_mem w') = elem_time m" "capacity (t_heap w') = capacity h" by auto
  show ?case
    unfolding step using r sz ms t tk by (intro exI [of _ q'] exI [of _ w']) simp
qed

lemma test_heap_pop_ok:
  assumes "test_inv [] B w" and "n \<le> heap_size (t_heap w)" and "n \<le> length slots"
  shows "\<exists>popped w'. test_heap_pop slots n w = Inr (0, popped, w') \<and> n \<le> length popped \<and>
    test_inv (take n popped) B w' \<and> drained (take n popped) w' \<and>
    heap_size (t_heap w') = heap_size (t_heap w) - n \<and>
    mset (take n popped @ elems (t_heap w')) = mset (elems (t_heap w)) \<and>
    elem_time (t_mem w') = elem_time (t_mem w) \<and> capacity (t_heap w') = capacity (t_heap w)"
proof -
  have "test_inv (take 0 slots) B w" "drained (take 0 slots) w" "0 + n \<le> length slots"
    using assms by (simp_all add: drained_def)
  from pop_loop_ok [OF this(1,2) assms(2) this(3)] assms(3) show ?thesis by (auto simp: test_heap_pop_def)
qed

end
