(* ===== verification/Heap_Test_Props.thy ===== *)
theory Heap_Test_Props
  imports Heap_Test_Phases
begin



lemma is_sorted_loop_iff:
  assumes "\<forall>i\<in>set is. 0 < i \<and> i < n" and "n \<le> length xs" and "\<forall>i<n. elem_live m (xs ! i)"
  shows "is_sorted_loop m xs is =
    Inr (if \<forall>i\<in>set is. elem_time m (xs ! (i - 1)) \<le> elem_time m (xs ! i) then 0 else -1)"
  using assms(1)
proof (induction "is")
  case (Cons i js)
  then have i: "i < n" "i - 1 < n" "i < length xs" "i - 1 < length xs" using assms(2) by auto
  then have "elem_live m (xs ! i)" "elem_live m (xs ! (i - 1))" using assms(3) by simp_all
  then obtain sa sb where "m (xs ! i) = Some sa" "timed sa" "m (xs ! (i - 1)) = Some sb" "timed sb"
    by (metis elem_liveE)
  with Cons i show ?case by (simp add: elem_less_ts_def elem_time_def)
qed simp

lemma pred_steps: "(\<forall>i\<in>set [1..<n]. P (i - 1) i) \<longleftrightarrow> (\<forall>i. Suc i < n \<longrightarrow> P i (Suc i))"
proof
  assume l: "\<forall>i\<in>set [1..<n]. P (i - 1) i"
  show "\<forall>i. Suc i < n \<longrightarrow> P i (Suc i)"
  proof (intro allI impI)
    fix i assume "Suc i < n"
    with l have "P (Suc i - 1) (Suc i)" by (intro bspec [OF l]) simp
    then show "P i (Suc i)" by simp
  qed
next
  assume r: "\<forall>i. Suc i < n \<longrightarrow> P i (Suc i)"
  show "\<forall>i\<in>set [1..<n]. P (i - 1) i"
  proof
    fix i assume "i \<in> set [1..<n]"
    then have "Suc (i - 1) = i" "i < n" by auto
    with r show "P (i - 1) i" by metis
  qed
qed

lemma is_sorted_iff:
  assumes "n \<le> length xs" and "\<forall>i<n. elem_live m (xs ! i)"
  shows "is_sorted m xs n = Inr (if sorted (map (elem_time m) (take n xs)) then 0 else -1)"
proof -
  have "sorted (map (elem_time m) (take n xs)) \<longleftrightarrow>
      (\<forall>i. Suc i < n \<longrightarrow> elem_time m (xs ! i) \<le> elem_time m (xs ! Suc i))"
    using assms(1) by (simp add: sorted_iff_nth_Suc)
  also have "\<dots> \<longleftrightarrow> (\<forall>i\<in>set [1..<n]. elem_time m (xs ! (i - 1)) \<le> elem_time m (xs ! i))"
    by (rule pred_steps [symmetric])
  finally have "sorted (map (elem_time m) (take n xs)) \<longleftrightarrow>
    (\<forall>i\<in>set [1..<n]. elem_time m (xs ! (i - 1)) \<le> elem_time m (xs ! i))" .
  with is_sorted_loop_iff [of "[1..<n]" n xs m] assms show ?thesis by (simp add: is_sorted_def)
qed

section \<open>The end of the run\<close>





section \<open>Properties\<close>





text \<open>
  C37. \<open>test_heap_pop\<close> sorts: popping \<open>n\<close> elements of a heap fills the first \<open>n\<close> slots of its array with
  elements in the order of their times, none of them later than what is left in the heap, and loses or
  duplicates none; \<open>is_sorted\<close> accepts the array.
\<close>
theorem heap_test_pop_sorts:
  assumes "test_inv [] B w" and "n \<le> heap_size (t_heap w)" and "n \<le> length slots"
  shows "\<exists>popped w'. test_heap_pop slots n w = Inr (0, popped, w') \<and>
    mset (take n popped @ elems (t_heap w')) = mset (elems (t_heap w)) \<and>
    sorted (map (elem_time (t_mem w)) (take n popped)) \<and>
    (\<forall>x\<in>set (take n popped). \<forall>y\<in>set (elems (t_heap w')). elem_time (t_mem w) x \<le> elem_time (t_mem w) y) \<and>
    is_sorted (t_mem w') popped n = Inr 0"
proof -
  from test_heap_pop_ok [OF assms] obtain q w' where
    q: "test_heap_pop slots n w = Inr (0, q, w')" "n \<le> length q" "test_inv (take n q) B w'" "drained (take n q) w'"
      "mset (take n q @ elems (t_heap w')) = mset (elems (t_heap w))" "elem_time (t_mem w') = elem_time (t_mem w)"
    by blast
  have mi: "mem_inv (take n q @ elems (t_heap w')) B (active_allocations w') (t_mem w')" and B: "B \<le> SAFE_SEC"
    using q(3) by (simp_all add: test_inv_def)
  then have wi: "within B (t_mem w')" and dom: "dom (t_mem w') = set (take n q @ elems (t_heap w'))"
    by (simp_all add: mem_inv_def)
  have "q ! i \<in> set (take n q)" if "i < n" for i using that q(2) by (auto simp: in_set_conv_nth)
  then have "elem_live (t_mem w') (q ! i)" if "i < n" for i
    using that dom within_live [OF wi B, of "q ! i"] by auto
  with is_sorted_iff [OF q(2)] q(4) have "is_sorted (t_mem w') q n = Inr 0" by (simp add: drained_def)
  with q show ?thesis unfolding drained_def by metis
qed

definition ex_test_elem :: "int \<Rightarrow> nat \<Rightarrow> testing_elem" where
  "ex_test_elem t i = \<lparr>e_ts = \<lparr>tv_sec = t, tv_nsec = 0\<rparr>, e_heap_ix = i\<rparr>"

definition ex_test_state :: test_state where
  "ex_test_state =
     \<lparr>t_mem = [1 \<mapsto> ex_test_elem 5 1, 2 \<mapsto> ex_test_elem 3 0],
      t_heap = \<lparr>arr = [2, 1], capacity = 2, heap_size = 2, elem_size = 8, cmp_fn = compare_elem, swap_fn = swap_elem\<rparr>,
      active_allocations = 2, t_tick = 0\<rparr>"

lemma ex_test_state_inv: "test_inv [] 10 ex_test_state"
proof -
  have "elem_ok 10 (ex_test_elem 5 1)" "elem_ok 10 (ex_test_elem 3 0)"
    by (simp_all add: elem_ok_def ex_test_elem_def SEC_NS_FACTOR_def)
  then have w: "within 10 (t_mem ex_test_state)" by (simp add: within_def ex_test_state_def)
  then have live: "elem_live (t_mem ex_test_state) a \<longleftrightarrow> t_mem ex_test_state a \<noteq> None" for a
    by (rule within_live) (simp add: SAFE_SEC_def)
  have "elem_live (t_mem ex_test_state) 1" "elem_live (t_mem ex_test_state) 2"
    unfolding live by (simp_all add: ex_test_state_def)
  then have "heap_fine (t_heap ex_test_state) (t_mem ex_test_state)"
    by (auto simp: heap_inv_def slots_ok_def heap_ord_def ex_test_state_def ex_test_elem_def elem_time_def
        ACCUM_TIME_NS_def SEC_NS_FACTOR_def PARENT_def less_Suc_eq numeral_2_eq_2)
  moreover have "mem_inv ([] @ elems (t_heap ex_test_state)) 10 (active_allocations ex_test_state) (t_mem ex_test_state)"
    using w by (auto simp: mem_inv_def ex_test_state_def elems_def)
  ultimately show ?thesis by (simp add: test_inv_def SAFE_SEC_def)
qed

theorem heap_test_pop_sorts_witness:
  "\<exists>popped w'. test_heap_pop [0, 0] 2 ex_test_state = Inr (0, popped, w') \<and> is_sorted (t_mem w') popped 2 = Inr 0"
proof -
  have "2 \<le> heap_size (t_heap ex_test_state)" by (simp add: ex_test_state_def)
  from heap_test_pop_sorts [OF ex_test_state_inv this, of "[0, 0]"] show ?thesis by auto
qed

text \<open>
  Where the arithmetic of the test itself is undefined. For a size that is a multiple of \<open>2 ^ 32\<close> the
  conversion \<open>(int)limit\<close> is 0 and the program divides by zero as soon as it has its first element; and since
  \<open>create_elem\<close> leaves \<open>tv_nsec\<close> as \<open>malloc\<close> returned it, an element whose block held the largest
  \<open>long\<close> there makes the first comparison overflow.
\<close>
lemma heap_test_undefined:
  assumes "te_malloc te (t_tick w) (t_mem w) = Some (e, s)"
  shows "(limit mod 2 ^ 32 = 0 \<longrightarrow> create_elem te i limit w = Inl Undefined) \<and>
    (\<forall>w' x b. create_elem te i limit w = Inr (Some e, w') \<longrightarrow> t_mem w' e = Some x \<longrightarrow>
       tv_nsec (e_ts s) = 2 ^ 63 - 1 \<longrightarrow> 0 < tv_sec (e_ts x) \<longrightarrow> compare_elem (t_mem w') e b = Inl Undefined)"
proof (intro conjI impI allI)
  assume "limit mod 2 ^ 32 = 0"
  then obtain k where "limit = 2 ^ 32 * k" by (auto elim: dvdE simp: mod_eq_0_iff_dvd)
  then have "to_int32 (int limit) = 0" by (simp add: to_int32_def)
  with assms show "create_elem te i limit w = Inl Undefined" by (simp add: create_elem_def c_rem_def Let_def)
next
  fix w' x b
  assume c: "create_elem te i limit w = Inr (Some e, w')" and x: "t_mem w' e = Some x"
    and ns: "tv_nsec (e_ts s) = 2 ^ 63 - 1" and sec: "0 < tv_sec (e_ts x)"
  have kept: "tv_nsec (e_ts x) = 2 ^ 63 - 1" using c x ns assms by (auto simp: create_elem_def Let_def)
  have over: "accum_time (e_ts x) = Inl Undefined"
  proof (cases "long_ok (tv_sec (e_ts x) * SEC_NS_FACTOR)")
    case True
    have "\<not> long_ok (tv_sec (e_ts x) * SEC_NS_FACTOR + tv_nsec (e_ts x))"
      using sec by (simp add: long_ok_def kept SEC_NS_FACTOR_def)
    with True show ?thesis by (simp add: accum_time_def to_long_def)
  qed (simp add: accum_time_def to_long_def)
  show "compare_elem (t_mem w') e b = Inl Undefined"
    by (simp add: compare_elem_def x elem_less_ts_def over elem_at_def [of _ b] split: option.split)
qed

end
