(* ===== verification/Processes.thy ===== *)
theory Processes
  imports Generic
begin

text \<open>
  The loop over \<open>fork\<close> that the proxy and the harmful client share, and what it leaves for
  \<open>kill_children_procs\<close>.
\<close>

text \<open>
  How the loop ends: in the child, or in the parent with the loop variable, the array of the children and
  the last result.
\<close>

datatype fork_result = In_child | In_parent nat "int list" int

fun fork_loop :: "(nat \<Rightarrow> int) \<Rightarrow> nat \<Rightarrow> nat \<Rightarrow> int list \<Rightarrow> int \<Rightarrow> fork_result c_result" where
  "fork_loop fork 0 i child_pids ret = Inr (In_parent i child_pids ret)"
| "fork_loop fork (Suc n) i child_pids ret =
     (let ret' = fork i in
      if ret' < 0 then Inr (In_parent i child_pids ret')
      else if ret' \<noteq> 0 then
        bindc (arr_set child_pids i ret') (\<lambda>child_pids'. fork_loop fork n (i + 1) child_pids' ret')
      else Inr In_child)"

definition forked :: "(nat \<Rightarrow> int) \<Rightarrow> nat \<Rightarrow> nat \<Rightarrow> int list \<Rightarrow> fork_result \<Rightarrow> bool" where
  "forked fork i n pids res \<longleftrightarrow> (case res of
     In_child \<Rightarrow> \<exists>j. i \<le> j \<and> j < i + n \<and> fork j = 0 \<and> (\<forall>k. i \<le> k \<longrightarrow> k < j \<longrightarrow> 0 < fork k)
   | In_parent j pids' r \<Rightarrow> i \<le> j \<and> j \<le> i + n \<and> (\<forall>k. i \<le> k \<longrightarrow> k < j \<longrightarrow> 0 < fork k) \<and>
       (j < i + n \<longrightarrow> fork j < 0 \<and> r = fork j) \<and> j \<le> length pids' \<and>
       take j pids' = take i pids @ map fork [i..<j])"

lemma fork_loop_ok:
  "i + n \<le> length pids \<Longrightarrow> \<exists>res. fork_loop fork n i pids ret = Inr res \<and> forked fork i n pids res"
proof (induction n arbitrary: i pids ret)
  case 0
  then show ?case by (simp add: forked_def)
next
  case (Suc n)
  consider "fork i < 0" | "fork i = 0" | "0 < fork i" by linarith
  then show ?case
  proof cases
    case 1
    with Suc.prems show ?thesis by (simp add: forked_def Let_def)
  next
    case 2
    then have "fork_loop fork (Suc n) i pids ret = Inr In_child" by simp
    with 2 show ?thesis by (auto simp: forked_def intro!: exI [of _ i])
  next
    case 3
    let ?pids = "pids[i := fork i]"
    from Suc.IH [of "i + 1" ?pids "fork i"] Suc.prems obtain res where
      res: "fork_loop fork n (i + 1) ?pids (fork i) = Inr res" "forked fork (i + 1) n ?pids res" by auto
    have run: "fork_loop fork (Suc n) i pids ret = Inr res" using 3 Suc.prems res(1) by (simp add: Let_def)
    have pos: "0 < fork k" if "i \<le> k" "i + 1 \<le> k \<longrightarrow> 0 < fork k" for k
      using that 3 by (cases "k = i") auto
    have pre: "take (i + 1) ?pids = take i pids @ [fork i]"
      using Suc.prems by (simp add: take_Suc_conv_app_nth)
    have "forked fork i (Suc n) pids res"
    proof (cases res)
      case In_child
      with res(2) obtain j where "i + 1 \<le> j" "j < i + 1 + n" "fork j = 0"
        "\<forall>k. i + 1 \<le> k \<longrightarrow> k < j \<longrightarrow> 0 < fork k" by (auto simp: forked_def)
      then show ?thesis using In_child pos by (auto simp: forked_def intro!: exI [of _ j])
    next
      case (In_parent j pids' r)
      with res(2) have p: "i + 1 \<le> j" "j \<le> i + 1 + n" "\<forall>k. i + 1 \<le> k \<longrightarrow> k < j \<longrightarrow> 0 < fork k"
        "j < i + 1 + n \<longrightarrow> fork j < 0 \<and> r = fork j" "j \<le> length pids'"
        "take j pids' = take (i + 1) ?pids @ map fork [i + 1..<j]" by (simp_all add: forked_def)
      have "[i..<j] = i # [i + 1..<j]" using p(1) by (simp add: upt_conv_Cons)
      then have "take j pids' = take i pids @ map fork [i..<j]" using p(6) pre by simp
      moreover have "\<forall>k. i \<le> k \<longrightarrow> k < j \<longrightarrow> 0 < fork k"
      proof (intro allI impI)
        fix k assume "i \<le> k" "k < j"
        then show "0 < fork k" using p(3) 3 by (cases "k = i") auto
      qed
      ultimately show ?thesis using p In_parent by (simp add: forked_def)
    qed
    with run show ?thesis by blast
  qed
qed

lemma kill_children_ok:
  "n \<le> length pids \<Longrightarrow> \<exists>rep. kill_children_procs kill pids n = Inr (take n pids, rep)"
proof (induction n arbitrary: pids)
  case (Suc n)
  then obtain p ps where "pids = p # ps" by (cases pids) auto
  with Suc show ?case by fastforce
qed simp

end
