(* ===== verification/Proxy.thy ===== *)
theory Proxy
  imports Processes
begin

text \<open>
  The proxy of \<open>unix_socket_api/src/proxy.c\<close>: a process that forwards the requests of ordinary clients
  to the server over one connection and answers everything else with a refusal. The machine that
  serves one client, the loop of a child process over its clients, and the parent that forks the
  children.
\<close>

section \<open>State\<close>

datatype disconnect_type = DISCONNECT_ASTROLOG | DISCONNECT_CLIENT

datatype proxy_state_type =
  STATE_RECV_REQUEST | STATE_SEND_DENIED | STATE_SEND_REQUEST | STATE_RECV_REPLY | STATE_SEND_REPLY |
  STATE_CLIENT_ERROR | STATE_ASTROLOG_ERROR | STATE_SUCCESS

record proxy_state =
  p_astrolog_fd :: int
  p_con_fd :: int
  p_buf :: string
  p_len :: nat
  p_state :: proxy_state_type

text \<open>\<open>recv_line\<close> and \<open>send_all\<close> on a descriptor of the process.\<close>

definition fd_recv_line :: "fds \<Rightarrow> int \<Rightarrow> string \<Rightarrow> nat \<Rightarrow> (int \<times> string \<times> fds) c_result" where
  "fd_recv_line ss fd buf n =
     bindc (recv_line (sock_at ss fd) buf n) (\<lambda>(bytes, buf', sk'). Inr (bytes, buf', put_at ss fd sk'))"

definition fd_send_all :: "fds \<Rightarrow> int \<Rightarrow> string \<Rightarrow> nat \<Rightarrow> (int \<times> fds) c_result" where
  "fd_send_all ss fd buf n =
     bindc (send_all (sock_at ss fd) buf n) (\<lambda>(r, sk'). Inr (r, put_at ss fd sk'))"

section \<open>The handlers\<close>

text \<open>The test of \<open>handle_recv_request\<close>; \<open>memcmp\<close> is only called when the line is long enough.\<close>

definition is_client_request :: "string \<Rightarrow> int \<Rightarrow> bool c_result" where
  "is_client_request buf bytes =
     (if size_t bytes > length CLIENT_REQUEST_TYPE then
        bindc (mem_read buf 0 (length CLIENT_REQUEST_TYPE)) (\<lambda>d. Inr (d = CLIENT_REQUEST_TYPE))
      else Inr False)"

definition handle_recv_request :: "proxy_state \<Rightarrow> fds \<Rightarrow> (proxy_state \<times> fds) c_result" where
  "handle_recv_request s ss =
     bindc (fd_recv_line ss (p_con_fd s) (p_buf s) ASTROLOG_BUF_LEN) (\<lambda>(bytes, buf, ss').
     if bytes < 0 then Inr (s\<lparr>p_buf := buf, p_state := STATE_CLIENT_ERROR\<rparr>, ss')
     else if bytes = 0 then Inr (s\<lparr>p_buf := buf, p_state := STATE_SUCCESS\<rparr>, ss')
     else
       bindc (arr_set buf (nat bytes - 1) NUL) (\<lambda>buf1.
       bindc (is_client_request buf1 bytes) (\<lambda>is_request.
       bindc (log_str buf1 0) (\<lambda>_.
       if is_request then
         bindc (arr_set buf1 (nat bytes - 1) DELIMITER) (\<lambda>buf2.
         Inr (s\<lparr>p_buf := buf2, p_len := size_t bytes, p_state := STATE_SEND_REQUEST\<rparr>, ss'))
       else
         bindc (memcpy buf1 0 STAR_REPLY_FAILURE) (\<lambda>buf2.
         Inr (s\<lparr>p_buf := buf2, p_len := length STAR_REPLY_FAILURE, p_state := STATE_SEND_DENIED\<rparr>, ss'))))))"

text \<open>\<open>s->buf[s->len - 1] = '\0'\<close>, \<open>LOG\<close> and \<open>s->len = 0\<close> after a message has been sent.\<close>

definition message_sent :: "proxy_state \<Rightarrow> proxy_state_type \<Rightarrow> proxy_state c_result" where
  "message_sent s next_state =
     bindc (arr_set (p_buf s) (size_t (int (p_len s) - 1)) NUL) (\<lambda>buf.
     bindc (log_str buf 0) (\<lambda>_.
     Inr (s\<lparr>p_buf := buf, p_len := 0, p_state := next_state\<rparr>)))"

text \<open>There is no \<open>return\<close> on the failure of \<open>send_all\<close>.\<close>

definition handle_send_request :: "proxy_state \<Rightarrow> fds \<Rightarrow> (proxy_state \<times> fds) c_result" where
  "handle_send_request s ss =
     bindc (fd_send_all ss (p_astrolog_fd s) (p_buf s) (p_len s)) (\<lambda>(r, ss').
     let s1 = (if r \<noteq> 0 then s\<lparr>p_state := STATE_ASTROLOG_ERROR\<rparr> else s) in
     bindc (message_sent s1 STATE_RECV_REPLY) (\<lambda>s2. Inr (s2, ss')))"

definition handle_recv_reply :: "proxy_state \<Rightarrow> fds \<Rightarrow> (proxy_state \<times> fds) c_result" where
  "handle_recv_reply s ss =
     bindc (fd_recv_line ss (p_astrolog_fd s) (p_buf s) ASTROLOG_BUF_LEN) (\<lambda>(bytes, buf, ss').
     if bytes \<le> 0 then Inr (s\<lparr>p_buf := buf, p_state := STATE_ASTROLOG_ERROR\<rparr>, ss')
     else
       bindc (arr_set buf (nat bytes - 1) NUL) (\<lambda>buf1.
       bindc (log_str buf1 0) (\<lambda>_.
       bindc (arr_set buf1 (nat bytes - 1) DELIMITER) (\<lambda>buf2.
       Inr (s\<lparr>p_buf := buf2, p_len := size_t bytes, p_state := STATE_SEND_REPLY\<rparr>, ss')))))"

definition proxy_send_reply :: "proxy_state \<Rightarrow> fds \<Rightarrow> (proxy_state \<times> fds) c_result" where
  "proxy_send_reply s ss =
     bindc (fd_send_all ss (p_con_fd s) (p_buf s) (p_len s)) (\<lambda>(r, ss').
     if r \<noteq> 0 then Inr (s\<lparr>p_state := STATE_CLIENT_ERROR\<rparr>, ss')
     else bindc (message_sent s STATE_RECV_REQUEST) (\<lambda>s'. Inr (s', ss')))"

section \<open>One client\<close>

text \<open>One turn of the loop: \<open>Inl\<close> the return value, \<open>Inr\<close> the state after a handler.\<close>

definition proxy_turn ::
  "proxy_state \<Rightarrow> fds \<Rightarrow> (disconnect_type + (proxy_state \<times> fds) c_result)" where
  "proxy_turn s ss =
     (case p_state s of
        STATE_RECV_REQUEST \<Rightarrow> Inr (handle_recv_request s ss)
      | STATE_SEND_DENIED \<Rightarrow> Inr (proxy_send_reply s ss)
      | STATE_SEND_REQUEST \<Rightarrow> Inr (handle_send_request s ss)
      | STATE_RECV_REPLY \<Rightarrow> Inr (handle_recv_reply s ss)
      | STATE_SEND_REPLY \<Rightarrow> Inr (proxy_send_reply s ss)
      | STATE_CLIENT_ERROR \<Rightarrow> Inl DISCONNECT_CLIENT
      | STATE_ASTROLOG_ERROR \<Rightarrow> Inl DISCONNECT_ASTROLOG
      | STATE_SUCCESS \<Rightarrow> Inl DISCONNECT_CLIENT)"

text \<open>The loop need not end by its form; \<open>None\<close> would be a run that does not return.\<close>

partial_function (option) proxy_loop ::
  "proxy_state \<Rightarrow> fds \<Rightarrow> (disconnect_type \<times> fds) c_result option" where
  "proxy_loop s ss =
     (case proxy_turn s ss of
        Inl d \<Rightarrow> Some (Inr (d, ss))
      | Inr (Inl e) \<Rightarrow> Some (Inl e)
      | Inr (Inr (s', ss')) \<Rightarrow> proxy_loop s' ss')"

text \<open>\<open>buf0\<close>: the indeterminate contents of the automatic variable \<open>s.buf\<close>.\<close>

definition proxy_new_connection ::
  "string \<Rightarrow> int \<Rightarrow> int \<Rightarrow> fds \<Rightarrow> (disconnect_type \<times> fds) c_result option" where
  "proxy_new_connection buf0 astrolog_fd con_fd ss =
     (case arr_set buf0 ASTROLOG_BUF_LEN NUL of
        Inl e \<Rightarrow> Some (Inl e)
      | Inr buf \<Rightarrow>
          proxy_loop \<lparr>p_astrolog_fd = astrolog_fd, p_con_fd = con_fd, p_buf = buf, p_len = 0,
                      p_state = STATE_RECV_REQUEST\<rparr> ss)"

section \<open>A child process\<close>

text \<open>
  The loop of \<open>proxy_child\<close> over the results of its \<open>accept\<close> calls, each with the stack contents of the
  call it leads to. \<open>True\<close>: the results are used up and the process waits in \<open>accept\<close>.
\<close>

fun proxy_child_loop ::
  "int \<Rightarrow> fds \<Rightarrow> (accept_result \<times> string) list \<Rightarrow> (bool \<times> fds) c_result option" where
  "proxy_child_loop astrolog_socket ss [] = Some (Inr (True, ss))"
| "proxy_child_loop astrolog_socket ss ((acc, buf0) # accs) =
     (case acc of
        Accept_error \<Rightarrow> Some (Inr (False, ss))
      | Accepted con_socket sk \<Rightarrow>
          (case proxy_new_connection buf0 astrolog_socket con_socket (ss(con_socket \<mapsto> sk)) of
             None \<Rightarrow> None
           | Some (Inl e) \<Rightarrow> Some (Inl e)
           | Some (Inr (disc_type, ss1)) \<Rightarrow>
               let ss2 = ss1(con_socket := None) in
               if disc_type = DISCONNECT_ASTROLOG then Some (Inr (False, ss2))
               else proxy_child_loop astrolog_socket ss2 accs))"

definition proxy_child ::
  "int \<Rightarrow> int \<Rightarrow> fds \<Rightarrow> (accept_result \<times> string) list \<Rightarrow> (bool \<times> fds) c_result option" where
  "proxy_child astrolog_socket listen_socket ss accs =
     (case proxy_child_loop astrolog_socket ss accs of
        Some (Inr (False, ss')) \<Rightarrow> Some (Inr (False, ss'(listen_socket := None, astrolog_socket := None)))
      | r \<Rightarrow> r)"

section \<open>The parent process\<close>

definition PROXY_ARGC :: nat where "PROXY_ARGC = 4"
definition CHILD_PROC_NUM :: nat where "CHILD_PROC_NUM = 2"

text \<open>The answers to the system calls of \<open>main\<close>, in their order; \<open>px_pids\<close> is the \<open>malloc\<close> of \<open>child_pids\<close>.\<close>

record proxy_startup =
  px_argc :: nat
  px_astrolog :: int
  px_astrolog_sock :: sock
  px_connect_ok :: bool
  px_listen :: int
  px_setsockopt_ok :: bool
  px_bind_ok :: bool
  px_listen_ok :: bool
  px_pids :: "int list option"
  px_fork :: "nat \<Rightarrow> int"
  px_kill :: "int \<Rightarrow> int option"

text \<open>\<open>Parent\<close>: the exit code, the processes signalled and the open sockets; \<open>Child\<close>: the child goes on.\<close>

datatype proxy_result = Parent int "int list" fds | Child fds

definition proxy_main :: "proxy_startup \<Rightarrow> proxy_result c_result" where
  "proxy_main px =
     (let EXIT = 1; a = px_astrolog px; l = px_listen px; ss0 = Map.empty in
      if px_argc px \<noteq> PROXY_ARGC then Inr (Parent EXIT [] ss0)
      else if a < 0 then Inr (Parent EXIT [] ss0)
      else
        let ss1 = ss0(a \<mapsto> px_astrolog_sock px) in
        if \<not> px_connect_ok px then Inr (Parent EXIT [] (ss1(a := None)))
        else if l < 0 then Inr (Parent EXIT [] (ss1(a := None)))
        else
          let ss2 = ss1(l \<mapsto> \<lparr>rx = [], tx = [], sent = []\<rparr>) in
          let failed = Inr (Parent EXIT [] (ss2(l := None, a := None))) in
          if \<not> px_setsockopt_ok px \<or> \<not> px_bind_ok px \<or> \<not> px_listen_ok px then failed
          else
            (case px_pids px of
               None \<Rightarrow> failed
             | Some pids \<Rightarrow>
                 bindc (fork_loop (px_fork px) CHILD_PROC_NUM 0 pids EXIT) (\<lambda>res.
                   case res of
                     In_child \<Rightarrow> Inr (Child ss2)
                   | In_parent i child_pids ret \<Rightarrow>
                       let ret' = (if i = CHILD_PROC_NUM then 0 else ret) in
                       bindc (kill_children_procs (px_kill px) child_pids i) (\<lambda>(signalled, _).
                       Inr (Parent ret' signalled (ss2(l := None, a := None)))))))"

end
