(* ===== verification/Line_IO.thy ===== *)
theory Line_IO
  imports Generic_Correct
begin

text \<open>
  Blocking line I/O as the proxy and the client use it: a buffer of \<open>ASTROLOG_BUF_LEN + 1\<close> bytes with a
  terminator at its end, filled by \<open>recv_line\<close>, sent by \<open>send_all\<close> and logged; and peers that send whole lines.
\<close>

section \<open>Helpers on sockets and buffers\<close>

lemma sock_at_put [simp]: "ss fd \<noteq> None \<Longrightarrow> sock_at (put_at ss fd sk) fd = sk"
  by (auto simp: sock_at_def put_at_def)

lemma sock_at_other [simp]: "f \<noteq> fd \<Longrightarrow> sock_at (put_at ss fd sk) f = sock_at ss f"
  by (simp add: sock_at_def put_at_def)

lemma put_at_other [simp]: "f \<noteq> fd \<Longrightarrow> put_at ss fd sk f = ss f"
  by (simp add: put_at_def)

lemma put_at_open [simp]: "put_at ss fd sk f = None \<longleftrightarrow> ss f = None"
  by (simp add: put_at_def)

lemma recv_script_weight: "recv_script es n = (r, d, es') \<Longrightarrow> rx_weight es' \<le> rx_weight es"
  by (cases "(es, n)" rule: recv_script.cases) (auto split: if_splits)

lemma sock_recv_weight_le: "sock_recv s n = (r, d, s') \<Longrightarrow> rx_weight (rx s') \<le> rx_weight (rx s)"
  by (auto simp: sock_recv_def dest: recv_script_weight split: prod.splits)

lemma recv_line_loop_weight:
  "recv_line_loop s buf pos n = Inr (r, buf', s') \<Longrightarrow>
     rx_weight (rx s') \<le> rx_weight (rx s) \<and> (0 < r \<longrightarrow> rx_weight (rx s') < rx_weight (rx s))"
proof (induction s buf pos n arbitrary: r buf' s' rule: recv_line_loop.induct)
  case (1 s buf pos n)
  obtain bytes d s1 where recv: "sock_recv s (n - pos) = (bytes, d, s1)" by (metis prod_cases3)
  note w = sock_recv_weight_le [OF recv] and lt = sock_recv_weight [OF recv]
  note run = "1.prems" [unfolded recv_line_loop.simps [of s buf pos n] recv prod.case]
  show ?case
  proof (cases "bytes \<le> 0")
    case True
    with run w show ?thesis by (auto split: if_splits)
  next
    case False
    with run obtain buf1 del where cpy: "memcpy buf pos d = Inr buf1"
      and chr: "memchr buf1 pos DELIMITER (nat bytes) = Inr del"
      and rest: "(case del of
          Some del \<Rightarrow> if del \<noteq> pos + nat bytes - 1 then Inr (-1, buf1, s1) else Inr (int (pos + nat bytes), buf1, s1)
        | None \<Rightarrow> if pos + nat bytes = n then Inr (-1, buf1, s1)
            else recv_line_loop s1 buf1 (pos + nat bytes) n) = Inr (r, buf', s')"
      by (auto simp del: One_nat_def)
    have less: "rx_weight (rx s1) < rx_weight (rx s)" using lt False by simp
    show ?thesis
    proof (cases "del = None \<and> pos + nat bytes \<noteq> n")
      case True
      then have "recv_line_loop s1 buf1 (pos + nat bytes) n = Inr (r, buf', s')" using rest by simp
      with "1.IH" [OF recv [symmetric] refl _ _ cpy chr] True False less show ?thesis by fastforce
    next
      case False
      with rest less show ?thesis by (auto split: option.splits if_splits)
    qed
  qed
qed

lemma recv_line_weight:
  "recv_line s buf n = Inr (r, buf', s') \<Longrightarrow>
     rx_weight (rx s') \<le> rx_weight (rx s) \<and> (0 < r \<longrightarrow> rx_weight (rx s') < rx_weight (rx s))"
  unfolding recv_line_def by (rule recv_line_loop_weight)

lemma send_all_whole:
  assumes "tx s = []" and "n \<le> length buf"
  shows "send_all s buf n = Inr (0, s\<lparr>sent := sent s @ take n buf\<rparr>)"
proof (cases "n = 0")
  case True
  then show ?thesis by (simp add: send_all_def send_all_loop.simps)
next
  case False
  have send: "sock_send s (take n buf) = (int n, s\<lparr>sent := sent s @ take n buf\<rparr>)"
    using assms by (simp add: sock_send_def)
  show ?thesis
    using False assms send by (simp add: send_all_def send_all_loop.simps [of s] subarray_from_0)
      (simp add: send_all_loop.simps)
qed

text \<open>The buffer of the machine: allocated, with the terminator the initialisation puts at its end.\<close>

definition pbuf_ok :: "string \<Rightarrow> bool" where
  "pbuf_ok buf \<longleftrightarrow> length buf = ASTROLOG_BUF_LEN + 1 \<and> buf ! ASTROLOG_BUF_LEN = NUL"

lemma pbuf_blit: "pbuf_ok buf \<Longrightarrow> length l \<le> ASTROLOG_BUF_LEN \<Longrightarrow> pbuf_ok (blit buf 0 l)"
  by (simp add: pbuf_ok_def nth_blit)

lemma pbuf_set: "pbuf_ok buf \<Longrightarrow> i < ASTROLOG_BUF_LEN \<Longrightarrow> pbuf_ok (buf[i := c])"
  by (simp add: pbuf_ok_def)

lemma pbuf_log: "pbuf_ok buf \<Longrightarrow> log_str buf 0 = Inr ()"
  unfolding pbuf_ok_def log_str_def by (metis drop0 less_add_one nth_mem)

lemma line_last: "is_line l \<Longrightarrow> 0 < length l \<and> l ! (length l - 1) = DELIMITER"
  by (metis is_line_def last_conv_nth length_greater_0_conv)

lemma line_index: "is_line l \<Longrightarrow> length l \<le> n \<Longrightarrow> length l - 1 < n"
  by (cases l) (auto simp: is_line_def)

lemma blit_restore:
  assumes "is_line l" and "length l \<le> length buf"
  shows "(blit buf 0 l)[length l - 1 := c, length l - 1 := DELIMITER] = blit buf 0 l"
proof -
  have "blit buf 0 l ! (length l - 1) = DELIMITER"
    using line_last [OF assms(1)] line_index [OF assms(1,2)] assms(2) by (subst nth_blit) auto
  then show ?thesis by (metis list_update_id list_update_overwrite)
qed

section \<open>Peers that send whole lines\<close>

text \<open>Lines as the segments they arrive in.\<close>

definition segments_ok :: "string list list \<Rightarrow> bool" where
  "segments_ok dss \<longleftrightarrow> (\<forall>ds\<in>set dss. [] \<notin> set ds \<and> is_line (concat ds) \<and> length (concat ds) \<le> ASTROLOG_BUF_LEN)"

definition peer :: "sock \<Rightarrow> string list list \<Rightarrow> bool" where
  "peer sk dss \<longleftrightarrow> segments_ok dss \<and> rx sk = map Chunk (concat dss) \<and> tx sk = []"

text \<open>The next line of such a peer, and its end.\<close>

lemma recv_line_whole:
  assumes "peer sk (ds # dss)" and "pbuf_ok buf"
  shows "recv_line sk buf ASTROLOG_BUF_LEN =
      Inr (int (length (concat ds)), blit buf 0 (concat ds), sk\<lparr>rx := map Chunk (concat dss)\<rparr>)"
    and "is_line (concat ds)" and "length (concat ds) \<le> ASTROLOG_BUF_LEN"
    and "peer (sk\<lparr>rx := map Chunk (concat dss)\<rparr>) dss"
proof -
  have ds: "[] \<notin> set ds" "is_line (concat ds)" "length (concat ds) \<le> ASTROLOG_BUF_LEN"
    and rx: "rx sk = map Chunk ds @ map Chunk (concat dss)"
    using assms(1) by (simp_all add: peer_def segments_ok_def)
  then show "is_line (concat ds)" "length (concat ds) \<le> ASTROLOG_BUF_LEN" by simp_all
  show "peer (sk\<lparr>rx := map Chunk (concat dss)\<rparr>) dss"
    using assms(1) by (simp add: peer_def segments_ok_def)
  have "ASTROLOG_BUF_LEN \<le> length buf" using assms(2) by (simp add: pbuf_ok_def)
  with recv_line_loop_complete [of sk ds "map Chunk (concat dss)" "[]" 0 ASTROLOG_BUF_LEN buf buf] ds rx
  show "recv_line sk buf ASTROLOG_BUF_LEN =
      Inr (int (length (concat ds)), blit buf 0 (concat ds), sk\<lparr>rx := map Chunk (concat dss)\<rparr>)"
    by (simp add: recv_line_def blit_def)
qed

lemma recv_line_eof: "peer sk [] \<Longrightarrow> recv_line sk buf n = Inr (0, buf, sk)"
  by (simp add: peer_def recv_line_def recv_line_loop.simps sock_recv_def)

lemma peer_send: "peer (sk\<lparr>sent := x\<rparr>) dss = peer sk dss"
  by (simp add: peer_def)

text \<open>
  Every \<open>recv_line\<close> on such a buffer: a line, the next one of the stream, or a failure, which a peer that has
  another line does not cause.
\<close>

lemma recv_line_cases:
  assumes "pbuf_ok buf"
  obtains (line) l sk where "recv_line s buf ASTROLOG_BUF_LEN = Inr (int (length l), blit buf 0 l, sk)"
      and "is_line l" and "length l \<le> ASTROLOG_BUF_LEN" and "rx_weight (rx sk) < rx_weight (rx s)"
      and "tx sk = tx s" and "sent sk = sent s" and "stream (rx s) = l @ stream (rx sk)"
      and "\<And>ds dss. peer s (ds # dss) \<Longrightarrow> peer sk dss"
  | (stop) r buf' sk where "recv_line s buf ASTROLOG_BUF_LEN = Inr (r, buf', sk)" and "r = 0 \<or> r = -1"
      and "length buf' = length buf" and "rx_weight (rx sk) \<le> rx_weight (rx s)"
      and "tx sk = tx s" and "sent sk = sent s" and "\<And>ds dss. \<not> peer s (ds # dss)"
proof -
  have "0 < ASTROLOG_BUF_LEN" "ASTROLOG_BUF_LEN \<le> length buf"
    using assms by (simp_all add: pbuf_ok_def ASTROLOG_BUF_LEN_def)
  moreover have "DELIMITER \<notin> set []" by simp
  moreover have "buf = blit buf 0 []" by (simp add: blit_def)
  ultimately have "\<exists>r buf' sk. recv_line s buf ASTROLOG_BUF_LEN = Inr (r, buf', sk) \<and>
      tx sk = tx s \<and> sent sk = sent s \<and> length buf' = length buf \<and> -1 \<le> r \<and>
      (0 < r \<longrightarrow> (\<exists>l. is_line l \<and> length l = nat r \<and> nat r \<le> ASTROLOG_BUF_LEN \<and> buf' = blit buf 0 l \<and>
        [] @ stream (rx s) = l @ stream (rx sk)))"
    unfolding recv_line_def by (rule recv_line_loop_sound [OF list.size(3)])
  then obtain r buf' sk where
    run: "recv_line s buf ASTROLOG_BUF_LEN = Inr (r, buf', sk)" and
    r: "tx sk = tx s" "sent sk = sent s" "length buf' = length buf" "-1 \<le> r" and
    pos: "0 < r \<Longrightarrow> \<exists>l. is_line l \<and> length l = nat r \<and> nat r \<le> ASTROLOG_BUF_LEN \<and> buf' = blit buf 0 l \<and>
      stream (rx s) = l @ stream (rx sk)"
    unfolding append_Nil by blast
  note w = recv_line_weight [OF run]
  show thesis
  proof (cases "0 < r")
    case True
    from pos [OF True] obtain l where l: "is_line l" "length l = nat r" "nat r \<le> ASTROLOG_BUF_LEN"
      "buf' = blit buf 0 l" "stream (rx s) = l @ stream (rx sk)" by blast
    have "r = int (length l)" using l(2) True by simp
    with run l(4) have "recv_line s buf ASTROLOG_BUF_LEN = Inr (int (length l), blit buf 0 l, sk)" by (simp only:)
    moreover have "length l \<le> ASTROLOG_BUF_LEN" using l(2,3) by simp
    moreover have "rx_weight (rx sk) < rx_weight (rx s)" using w True by simp
    moreover have "peer sk dss" if "peer s (ds # dss)" for ds dss
      using recv_line_whole [OF that assms] run by simp
    ultimately show thesis using line l(1,5) r(1,2) by blast
  next
    case False
    then have "r = 0 \<or> r = -1" using r(4) by linarith
    moreover have "rx_weight (rx sk) \<le> rx_weight (rx s)" using w by simp
    moreover have "\<not> peer s (ds # dss)" for ds dss
      using recv_line_whole [of s ds dss] assms run False line_last by fastforce
    ultimately show thesis using stop [OF run] r(1-3) by blast
  qed
qed

lemma send_all_cases:
  assumes "n \<le> length buf"
  obtains r sk k where "send_all s buf n = Inr (r, sk)" and "rx sk = rx s" and "sent sk = sent s @ take k buf"
    and "k \<le> n" and "r = 0 \<longleftrightarrow> k = n"
proof -
  from send_all_loop_spec [of 0 n buf s] assms obtain r sk k where
    "send_all s buf n = Inr (r, sk)" "rx sk = rx s" "sent sk = sent s @ take k buf"
    "r = 0 \<and> k = n \<or> r = -1 \<and> k < n" by (auto simp: send_all_def subarray_from_0)
  then show thesis by (intro that [of r sk k]) auto
qed

end
