(* ===== verification/Proxy_Correct.thy ===== *)
theory Proxy_Correct
  imports Proxy Line_IO
begin

text \<open>
  The proxy's machine, turn by turn: no access outside its buffer, what each handler does with a whole
  line, and a measure that bounds the number of turns by what the client sends.
\<close>

section \<open>The handlers on whole lines\<close>

definition forwarded :: "string \<Rightarrow> bool" where
  "forwarded l \<longleftrightarrow> is_line l \<and> take (length CLIENT_REQUEST_TYPE) l = CLIENT_REQUEST_TYPE"

lemma type_no_delim: "DELIMITER \<notin> set CLIENT_REQUEST_TYPE" "length CLIENT_REQUEST_TYPE = 10"
  "length STAR_REPLY_FAILURE = 8"
  by (simp_all add: c_consts)

lemma is_client_request_line:
  assumes l: "is_line l" "length l \<le> ASTROLOG_BUF_LEN" and buf: "pbuf_ok buf"
  shows "is_client_request ((blit buf 0 l)[length l - 1 := NUL]) (int (length l)) = Inr (forwarded l)"
proof (cases "length CLIENT_REQUEST_TYPE < length l")
  case True
  have "take 10 ((blit buf 0 l)[length l - 1 := NUL]) = take 10 l"
    using True l(2) buf by (simp add: type_no_delim blit_def take_update_cancel pbuf_ok_def)
  then show ?thesis
    using True l buf by (simp add: is_client_request_def forwarded_def type_no_delim pbuf_ok_def subarray_from_0
        ASTROLOG_BUF_LEN_def)
next
  case False
  have "\<not> forwarded l"
  proof
    assume "forwarded l"
    then have "take 10 l = CLIENT_REQUEST_TYPE" "is_line l" by (simp_all add: forwarded_def type_no_delim)
    moreover have "take 10 l = l" using False by (simp add: type_no_delim)
    ultimately show False using type_no_delim(1) by (metis is_line_def last_in_set)
  qed
  with False l(2) show ?thesis by (simp add: is_client_request_def ASTROLOG_BUF_LEN_def)
qed

text \<open>The state after a line of the client.\<close>

lemma recv_request_line:
  assumes recv: "recv_line (sock_at ss (p_con_fd s)) (p_buf s) ASTROLOG_BUF_LEN =
      Inr (int (length l), blit (p_buf s) 0 l, sk)"
    and l: "is_line l" "length l \<le> ASTROLOG_BUF_LEN" and buf: "pbuf_ok (p_buf s)"
  shows "\<exists>buf n. handle_recv_request s ss = Inr (s\<lparr>p_buf := buf, p_len := n,
      p_state := (if forwarded l then STATE_SEND_REQUEST else STATE_SEND_DENIED)\<rparr>, put_at ss (p_con_fd s) sk) \<and>
    pbuf_ok buf \<and> 0 < n \<and> n \<le> ASTROLOG_BUF_LEN \<and> take n buf = (if forwarded l then l else STAR_REPLY_FAILURE)"
proof -
  let ?b = "blit (p_buf s) 0 l" and ?i = "length l - 1"
  have n: "0 < length l" "?i < length ?b" "?i < ASTROLOG_BUF_LEN" and len: "length ?b = ASTROLOG_BUF_LEN + 1"
    using line_last [OF l(1)] line_index [OF l] l(2) buf by (simp_all add: pbuf_ok_def)
  have ok: "pbuf_ok (?b[?i := NUL])" by (rule pbuf_set [OF pbuf_blit [OF buf l(2)] n(3)])
  have restored: "?b[?i := NUL, ?i := DELIMITER] = ?b"
    using blit_restore [OF l(1)] l(2) buf by (simp add: pbuf_ok_def)
  note req = is_client_request_line [OF l buf]
  have sz: "size_t (int (length l)) = length l" using l(2) by (simp add: ASTROLOG_BUF_LEN_def)
  have fits: "length STAR_REPLY_FAILURE \<le> length (?b[?i := NUL])" "length STAR_REPLY_FAILURE \<le> ASTROLOG_BUF_LEN"
    using len by (simp_all add: type_no_delim ASTROLOG_BUF_LEN_def)
  show ?thesis
  proof (cases "forwarded l")
    case True
    have "handle_recv_request s ss = Inr (s\<lparr>p_buf := ?b, p_len := length l, p_state := STATE_SEND_REQUEST\<rparr>,
        put_at ss (p_con_fd s) sk)"
      using n restored req True pbuf_log [OF ok] sz
      by (simp add: handle_recv_request_def fd_recv_line_def recv nat_diff_distrib)
    with True n(1) l(2) pbuf_blit [OF buf l(2)] show ?thesis
      by (intro exI [of _ ?b] exI [of _ "length l"]) simp
  next
    case False
    let ?c = "blit (?b[?i := NUL]) 0 STAR_REPLY_FAILURE"
    have "handle_recv_request s ss = Inr (s\<lparr>p_buf := ?c, p_len := length STAR_REPLY_FAILURE,
        p_state := STATE_SEND_DENIED\<rparr>, put_at ss (p_con_fd s) sk)"
      using n req False pbuf_log [OF ok] fits
      by (simp add: handle_recv_request_def fd_recv_line_def recv nat_diff_distrib)
    with False pbuf_blit [OF ok fits(2)] fits(2) type_no_delim(3)
      take_blit_0 [of STAR_REPLY_FAILURE "?b[?i := NUL]", unfolded type_no_delim(3)] show ?thesis
      by (intro exI [of _ ?c] exI [of _ "length STAR_REPLY_FAILURE"]) simp
  qed
qed

lemma recv_reply_line:
  assumes recv: "recv_line (sock_at ss (p_astrolog_fd s)) (p_buf s) ASTROLOG_BUF_LEN =
      Inr (int (length l), blit (p_buf s) 0 l, sk)"
    and l: "is_line l" "length l \<le> ASTROLOG_BUF_LEN" and buf: "pbuf_ok (p_buf s)"
  shows "handle_recv_reply s ss = Inr (s\<lparr>p_buf := blit (p_buf s) 0 l, p_len := length l,
      p_state := STATE_SEND_REPLY\<rparr>, put_at ss (p_astrolog_fd s) sk)"
proof -
  let ?b = "blit (p_buf s) 0 l" and ?i = "length l - 1"
  have n: "0 < length l" "?i < length ?b" "?i < ASTROLOG_BUF_LEN"
    using line_last [OF l(1)] line_index [OF l] l(2) buf by (simp_all add: pbuf_ok_def)
  have ok: "pbuf_ok (?b[?i := NUL])" by (rule pbuf_set [OF pbuf_blit [OF buf l(2)] n(3)])
  have restored: "?b[?i := NUL, ?i := DELIMITER] = ?b"
    using blit_restore [OF l(1)] l(2) buf by (simp add: pbuf_ok_def)
  have "size_t (int (length l)) = length l" using l(2) by (simp add: ASTROLOG_BUF_LEN_def)
  with n restored pbuf_log [OF ok] show ?thesis
    by (simp add: handle_recv_reply_def fd_recv_line_def recv nat_diff_distrib)
qed

lemma message_sent_ok:
  assumes "pbuf_ok (p_buf s)" and "0 < p_len s" and "p_len s \<le> ASTROLOG_BUF_LEN"
  shows "\<exists>buf. message_sent s st = Inr (s\<lparr>p_buf := buf, p_len := 0, p_state := st\<rparr>) \<and> pbuf_ok buf"
proof -
  have i: "size_t (int (p_len s) - 1) = p_len s - 1" "p_len s - 1 < ASTROLOG_BUF_LEN"
    using assms by (simp_all add: ASTROLOG_BUF_LEN_def of_nat_diff [symmetric] del: of_nat_diff)
  then have "p_len s - 1 < length (p_buf s)" using assms(1) by (simp add: pbuf_ok_def)
  with i pbuf_set [OF assms(1) i(2), of NUL] pbuf_log show ?thesis
    by (intro exI [of _ "(p_buf s)[p_len s - 1 := NUL]"]) (simp add: message_sent_def)
qed

section \<open>One turn\<close>

definition proxy_ok :: "int \<Rightarrow> int \<Rightarrow> proxy_state \<Rightarrow> fds \<Rightarrow> bool" where
  "proxy_ok a c s ss \<longleftrightarrow> p_astrolog_fd s = a \<and> p_con_fd s = c \<and> a \<noteq> c \<and> ss a \<noteq> None \<and> ss c \<noteq> None \<and>
     (p_state s \<in> {STATE_CLIENT_ERROR, STATE_ASTROLOG_ERROR, STATE_SUCCESS} \<or> pbuf_ok (p_buf s)) \<and>
     (p_state s \<in> {STATE_SEND_DENIED, STATE_SEND_REQUEST, STATE_SEND_REPLY} \<longrightarrow>
        0 < p_len s \<and> p_len s \<le> ASTROLOG_BUF_LEN) \<and>
     (p_state s = STATE_SEND_REQUEST \<longrightarrow> forwarded (take (p_len s) (p_buf s)))"

text \<open>What has been sent to the server: parts of client requests, from their start.\<close>

definition forwards :: "int \<Rightarrow> fds \<Rightarrow> fds \<Rightarrow> bool" where
  "forwards a ss ss' \<longleftrightarrow> (\<exists>fs. sent (sock_at ss' a) = sent (sock_at ss a) @ concat fs \<and>
     (\<forall>f\<in>set fs. \<exists>l. forwarded l \<and> length l \<le> ASTROLOG_BUF_LEN \<and> prefix f l))"

lemma forwards_same: "sent (sock_at ss' a) = sent (sock_at ss a) \<Longrightarrow> forwards a ss ss'"
  unfolding forwards_def by (rule exI [of _ "[]"]) simp

lemma forwards_trans: "forwards a ss ss1 \<Longrightarrow> forwards a ss1 ss2 \<Longrightarrow> forwards a ss ss2"
  unfolding forwards_def by (elim exE, rename_tac fs gs, rule_tac x = "fs @ gs" in exI) auto

text \<open>Each line the client sends pays for the five turns it causes.\<close>

fun turns_left :: "proxy_state_type \<Rightarrow> nat" where
  "turns_left STATE_SEND_REQUEST = 4"
| "turns_left STATE_RECV_REPLY = 3"
| "turns_left STATE_SEND_REPLY = 2"
| "turns_left STATE_SEND_DENIED = 2"
| "turns_left STATE_RECV_REQUEST = 1"
| "turns_left _ = 0"

definition proxy_measure :: "int \<Rightarrow> proxy_state \<Rightarrow> fds \<Rightarrow> nat" where
  "proxy_measure c s ss = 5 * rx_weight (rx (sock_at ss c)) + turns_left (p_state s)"

definition turn_ok :: "int \<Rightarrow> int \<Rightarrow> proxy_state \<Rightarrow> fds \<Rightarrow> (proxy_state \<times> fds) c_result \<Rightarrow> bool" where
  "turn_ok a c s ss r \<longleftrightarrow> (\<exists>s' ss'. r = Inr (s', ss') \<and> proxy_ok a c s' ss' \<and>
     proxy_measure c s' ss' < proxy_measure c s ss \<and> forwards a ss ss' \<and>
     (\<forall>fd. fd \<noteq> a \<longrightarrow> fd \<noteq> c \<longrightarrow> ss' fd = ss fd))"

lemma turn_okI:
  assumes "r = Inr (s', ss')" and "proxy_ok a c s' ss'"
    and "proxy_measure c s' ss' < proxy_measure c s ss" and "forwards a ss ss'"
    and "\<And>fd. fd \<noteq> a \<Longrightarrow> fd \<noteq> c \<Longrightarrow> ss' fd = ss fd"
  shows "turn_ok a c s ss r"
  using assms unfolding turn_ok_def by blast

lemma turn_recv_request:
  assumes ok: "proxy_ok a c s ss" and st: "p_state s = STATE_RECV_REQUEST"
  shows "turn_ok a c s ss (handle_recv_request s ss)"
proof -
  have buf: "pbuf_ok (p_buf s)" and fds: "a \<noteq> c" "ss c \<noteq> None" "p_con_fd s = c"
    using ok st by (simp_all add: proxy_ok_def)
  show ?thesis
  proof (cases rule: recv_line_cases [OF buf, of "sock_at ss (p_con_fd s)"])
    case (1 l sk)
    from recv_request_line [OF 1(1,2,3) buf] obtain b n where
      run: "handle_recv_request s ss = Inr (s\<lparr>p_buf := b, p_len := n,
        p_state := (if forwarded l then STATE_SEND_REQUEST else STATE_SEND_DENIED)\<rparr>, put_at ss c sk)"
      and b: "pbuf_ok b" "0 < n" "n \<le> ASTROLOG_BUF_LEN" "take n b = (if forwarded l then l else STAR_REPLY_FAILURE)"
      using fds(3) by auto
    show ?thesis
      by (rule turn_okI [OF run])
         (use ok st b fds 1 in \<open>auto simp: proxy_ok_def proxy_measure_def intro!: forwards_same\<close>)
  next
    case (2 r buf' sk)
    have run: "handle_recv_request s ss = Inr (s\<lparr>p_buf := buf', p_state :=
        (if r < 0 then STATE_CLIENT_ERROR else STATE_SUCCESS)\<rparr>, put_at ss c sk)"
      using 2(1,2) fds(3) by (auto simp: handle_recv_request_def fd_recv_line_def)
    show ?thesis
      by (rule turn_okI [OF run])
         (use ok st fds 2 in \<open>auto simp: proxy_ok_def proxy_measure_def intro!: forwards_same\<close>)
  qed
qed

lemma turn_recv_reply:
  assumes ok: "proxy_ok a c s ss" and st: "p_state s = STATE_RECV_REPLY"
  shows "turn_ok a c s ss (handle_recv_reply s ss)"
proof -
  have buf: "pbuf_ok (p_buf s)" and fds: "a \<noteq> c" "ss a \<noteq> None" "p_astrolog_fd s = a"
    using ok st by (simp_all add: proxy_ok_def)
  show ?thesis
  proof (cases rule: recv_line_cases [OF buf, of "sock_at ss (p_astrolog_fd s)"])
    case (1 l sk)
    note run = recv_reply_line [OF 1(1,2,3) buf, unfolded fds(3)]
    show ?thesis
      by (rule turn_okI [OF run])
         (use ok st fds 1 pbuf_blit [OF buf 1(3)] line_last [OF 1(2)] in
          \<open>auto simp: proxy_ok_def proxy_measure_def intro!: forwards_same\<close>)
  next
    case (2 r buf' sk)
    have run: "handle_recv_reply s ss = Inr (s\<lparr>p_buf := buf', p_state := STATE_ASTROLOG_ERROR\<rparr>, put_at ss a sk)"
      using 2(1,2) fds(3) by (auto simp: handle_recv_reply_def fd_recv_line_def)
    show ?thesis
      by (rule turn_okI [OF run])
         (use ok st fds 2 in \<open>auto simp: proxy_ok_def proxy_measure_def intro!: forwards_same\<close>)
  qed
qed

lemma turn_send_request:
  assumes ok: "proxy_ok a c s ss" and st: "p_state s = STATE_SEND_REQUEST"
  shows "turn_ok a c s ss (handle_send_request s ss)"
proof -
  have buf: "pbuf_ok (p_buf s)" and fds: "a \<noteq> c" "ss a \<noteq> None" "p_astrolog_fd s = a"
    and n: "0 < p_len s" "p_len s \<le> ASTROLOG_BUF_LEN" and l: "forwarded (take (p_len s) (p_buf s))"
    using ok st by (simp_all add: proxy_ok_def)
  have len: "p_len s \<le> length (p_buf s)" using buf n by (simp add: pbuf_ok_def)
  obtain r sk k where send: "send_all (sock_at ss a) (p_buf s) (p_len s) = Inr (r, sk)" "rx sk = rx (sock_at ss a)"
    "sent sk = sent (sock_at ss a) @ take k (p_buf s)" "k \<le> p_len s"
    by (rule send_all_cases [OF len, of "sock_at ss a"])
  let ?s1 = "if r \<noteq> 0 then s\<lparr>p_state := STATE_ASTROLOG_ERROR\<rparr> else s"
  have "pbuf_ok (p_buf ?s1)" "0 < p_len ?s1" "p_len ?s1 \<le> ASTROLOG_BUF_LEN" using buf n by simp_all
  from message_sent_ok [OF this, of STATE_RECV_REPLY] obtain b where
    "message_sent ?s1 STATE_RECV_REPLY = Inr (?s1\<lparr>p_buf := b, p_len := 0, p_state := STATE_RECV_REPLY\<rparr>)"
    and b: "pbuf_ok b" by blast
  then have sent: "message_sent ?s1 STATE_RECV_REPLY =
      Inr (s\<lparr>p_buf := b, p_len := 0, p_state := STATE_RECV_REPLY\<rparr>)" by simp
  have run: "handle_send_request s ss =
      Inr (s\<lparr>p_buf := b, p_len := 0, p_state := STATE_RECV_REPLY\<rparr>, put_at ss a sk)"
    unfolding handle_send_request_def fd_send_all_def fds(3) send(1) by (simp only: bindc_simps split Let_def sent)
  have "take k (p_buf s) = take k (take (p_len s) (p_buf s))" using send(4) by (simp add: min_def)
  then have "prefix (take k (p_buf s)) (take (p_len s) (p_buf s))" by (metis take_is_prefix)
  then have "forwards a ss (put_at ss a sk)"
    unfolding forwards_def using fds send(3) l n(2)
    by (intro exI [of _ "[take k (p_buf s)]"]) auto
  then show ?thesis
    by (intro turn_okI [OF run]) (use ok st fds b in \<open>auto simp: proxy_ok_def proxy_measure_def\<close>)
qed

lemma turn_send_reply:
  assumes ok: "proxy_ok a c s ss" and st: "p_state s = STATE_SEND_DENIED \<or> p_state s = STATE_SEND_REPLY"
  shows "turn_ok a c s ss (proxy_send_reply s ss)"
proof -
  have buf: "pbuf_ok (p_buf s)" and fds: "a \<noteq> c" "ss c \<noteq> None" "p_con_fd s = c"
    and n: "0 < p_len s" "p_len s \<le> ASTROLOG_BUF_LEN"
    using ok st by (auto simp: proxy_ok_def)
  have len: "p_len s \<le> length (p_buf s)" using buf n by (simp add: pbuf_ok_def)
  obtain r sk k where send: "send_all (sock_at ss c) (p_buf s) (p_len s) = Inr (r, sk)" "rx sk = rx (sock_at ss c)"
    by (rule send_all_cases [OF len, of "sock_at ss c"])
  from message_sent_ok [OF buf n, of STATE_RECV_REQUEST] obtain b where
    b: "message_sent s STATE_RECV_REQUEST = Inr (s\<lparr>p_buf := b, p_len := 0, p_state := STATE_RECV_REQUEST\<rparr>)"
    "pbuf_ok b" by blast
  have run: "proxy_send_reply s ss = Inr (if r \<noteq> 0 then s\<lparr>p_state := STATE_CLIENT_ERROR\<rparr>
      else s\<lparr>p_buf := b, p_len := 0, p_state := STATE_RECV_REQUEST\<rparr>, put_at ss c sk)"
    by (simp add: proxy_send_reply_def fd_send_all_def fds(3) send(1) b(1))
  show ?thesis
    by (rule turn_okI [OF run])
       (use ok st fds send(2) b(2) in \<open>auto simp: proxy_ok_def proxy_measure_def intro!: forwards_same\<close>)
qed

lemma proxy_turn_ok:
  assumes "proxy_ok a c s ss"
  shows "(\<exists>d. proxy_turn s ss = Inl d) \<or> (\<exists>r. proxy_turn s ss = Inr r \<and> turn_ok a c s ss r)"
  using turn_recv_request [OF assms] turn_recv_reply [OF assms] turn_send_request [OF assms]
    turn_send_reply [OF assms]
  by (cases "p_state s") (simp_all add: proxy_turn_def)

section \<open>A whole connection\<close>

lemma proxy_loop_ok:
  "proxy_ok a c s ss \<Longrightarrow> \<exists>d ss'. proxy_loop s ss = Some (Inr (d, ss')) \<and> forwards a ss ss' \<and>
     (\<forall>fd. fd \<noteq> a \<longrightarrow> fd \<noteq> c \<longrightarrow> ss' fd = ss fd) \<and> ss' a \<noteq> None"
proof (induction "proxy_measure c s ss" arbitrary: s ss rule: less_induct)
  case less
  from proxy_turn_ok [OF less.prems] show ?case
  proof (elim disjE exE conjE)
    fix d assume "proxy_turn s ss = Inl d"
    then have "proxy_loop s ss = Some (Inr (d, ss))" by (subst proxy_loop.simps) simp
    with less.prems show ?thesis by (auto simp: proxy_ok_def intro: forwards_same)
  next
    fix r assume turn: "proxy_turn s ss = Inr r" "turn_ok a c s ss r"
    then obtain s1 ss1 where r: "r = Inr (s1, ss1)" and ok: "proxy_ok a c s1 ss1"
      and less1: "proxy_measure c s1 ss1 < proxy_measure c s ss" and f: "forwards a ss ss1"
      and same: "\<forall>fd. fd \<noteq> a \<longrightarrow> fd \<noteq> c \<longrightarrow> ss1 fd = ss fd" by (auto simp: turn_ok_def)
    from less.hyps [OF less1 ok] obtain d ss' where
      "proxy_loop s1 ss1 = Some (Inr (d, ss'))" "forwards a ss1 ss'" "ss' a \<noteq> None"
      "\<forall>fd. fd \<noteq> a \<longrightarrow> fd \<noteq> c \<longrightarrow> ss' fd = ss1 fd" by blast
    moreover have "proxy_loop s ss = proxy_loop s1 ss1"
      by (subst proxy_loop.simps) (simp add: turn(1) r)
    ultimately show ?thesis using forwards_trans [OF f] same by auto
  qed
qed

end
