(* ===== verification/Proxy_Session.thy ===== *)
theory Proxy_Session
  imports Proxy_Correct
begin

text \<open>
  What the proxy does on a network that delivers whole lines in any segmentation and accepts all that is
  sent: the exchange as a function of the client's lines and the server's replies.
\<close>

text \<open>The lines forwarded, the answers the client gets, and why the connection ends.\<close>

fun session :: "string list \<Rightarrow> string list \<Rightarrow> string list \<times> string list \<times> disconnect_type" where
  "session [] replies = ([], [], DISCONNECT_CLIENT)"
| "session (l # ls) replies =
     (if forwarded l then
        (case replies of
           [] \<Rightarrow> ([l], [], DISCONNECT_ASTROLOG)
         | r # rs \<Rightarrow> (case session ls rs of (fs, as, d) \<Rightarrow> (l # fs, r # as, d)))
      else (case session ls replies of (fs, as, d) \<Rightarrow> (fs, STAR_REPLY_FAILURE # as, d)))"

lemma send_request_whole:
  assumes buf: "pbuf_ok (p_buf s)" and n: "0 < p_len s" "p_len s \<le> ASTROLOG_BUF_LEN"
    and sk: "sk = sock_at ss (p_astrolog_fd s)" "tx sk = []"
  shows "\<exists>b. handle_send_request s ss = Inr (s\<lparr>p_buf := b, p_len := 0, p_state := STATE_RECV_REPLY\<rparr>,
      put_at ss (p_astrolog_fd s) (sk\<lparr>sent := sent sk @ take (p_len s) (p_buf s)\<rparr>)) \<and> pbuf_ok b"
proof -
  from message_sent_ok [OF buf n, of STATE_RECV_REPLY] obtain b where
    b: "message_sent s STATE_RECV_REPLY = Inr (s\<lparr>p_buf := b, p_len := 0, p_state := STATE_RECV_REPLY\<rparr>)"
    "pbuf_ok b" by blast
  have "p_len s \<le> length (p_buf s)" using buf n by (simp add: pbuf_ok_def)
  from send_all_whole [OF sk(2) this] b sk(1) show ?thesis
    by (intro exI [of _ b]) (simp add: handle_send_request_def fd_send_all_def)
qed

lemma send_reply_whole:
  assumes buf: "pbuf_ok (p_buf s)" and n: "0 < p_len s" "p_len s \<le> ASTROLOG_BUF_LEN"
    and sk: "sk = sock_at ss (p_con_fd s)" "tx sk = []"
  shows "\<exists>b. proxy_send_reply s ss = Inr (s\<lparr>p_buf := b, p_len := 0, p_state := STATE_RECV_REQUEST\<rparr>,
      put_at ss (p_con_fd s) (sk\<lparr>sent := sent sk @ take (p_len s) (p_buf s)\<rparr>)) \<and> pbuf_ok b"
proof -
  from message_sent_ok [OF buf n, of STATE_RECV_REQUEST] obtain b where
    b: "message_sent s STATE_RECV_REQUEST = Inr (s\<lparr>p_buf := b, p_len := 0, p_state := STATE_RECV_REQUEST\<rparr>)"
    "pbuf_ok b" by blast
  have "p_len s \<le> length (p_buf s)" using buf n by (simp add: pbuf_ok_def)
  from send_all_whole [OF sk(2) this] b sk(1) show ?thesis
    by (intro exI [of _ b]) (simp add: proxy_send_reply_def fd_send_all_def)
qed

text \<open>The machine between two requests of the client.\<close>

definition idle :: "int \<Rightarrow> int \<Rightarrow> proxy_state \<Rightarrow> fds \<Rightarrow> bool" where
  "idle a c s ss \<longleftrightarrow> proxy_ok a c s ss \<and> p_state s = STATE_RECV_REQUEST"

lemma idleI:
  assumes "p_astrolog_fd s = a" "p_con_fd s = c" "a \<noteq> c" "ss a \<noteq> None" "ss c \<noteq> None" "pbuf_ok (p_buf s)"
    "p_state s = STATE_RECV_REQUEST"
  shows "idle a c s ss"
  using assms by (simp add: idle_def proxy_ok_def)

lemma idleD:
  assumes "idle a c s ss"
  shows "p_astrolog_fd s = a" "p_con_fd s = c" "a \<noteq> c" "ss a \<noteq> None" "ss c \<noteq> None" "pbuf_ok (p_buf s)"
    "p_state s = STATE_RECV_REQUEST"
  using assms by (auto simp: idle_def proxy_ok_def)

lemma proxy_step: "proxy_turn s ss = Inr (Inr (s', ss')) \<Longrightarrow> proxy_loop s ss = proxy_loop s' ss'"
  by (subst proxy_loop.simps) simp

lemma proxy_stop: "proxy_turn s ss = Inl d \<Longrightarrow> proxy_loop s ss = Some (Inr (d, ss))"
  by (subst proxy_loop.simps) simp

text \<open>One line of the client up to its answer.\<close>

lemma refused_line:
  assumes idle: "idle a c s ss" and c: "peer (sock_at ss c) (ds # dss)" and no: "\<not> forwarded (concat ds)"
  shows "\<exists>s' ss'. proxy_loop s ss = proxy_loop s' ss' \<and> idle a c s' ss' \<and> peer (sock_at ss' c) dss \<and>
    sent (sock_at ss' c) = sent (sock_at ss c) @ STAR_REPLY_FAILURE \<and> sock_at ss' a = sock_at ss a"
proof -
  note i = idleD [OF idle]
  let ?sk = "sock_at ss c\<lparr>rx := map Chunk (concat dss)\<rparr>"
  note line = recv_line_whole [OF c i(6)]
  from recv_request_line [of ss s "concat ds" ?sk] line(1-3) i(2,6) no obtain b n where
    run: "handle_recv_request s ss = Inr (s\<lparr>p_buf := b, p_len := n, p_state := STATE_SEND_DENIED\<rparr>, put_at ss c ?sk)"
    and b: "pbuf_ok b" "0 < n" "n \<le> ASTROLOG_BUF_LEN" "take n b = STAR_REPLY_FAILURE" by auto
  let ?s1 = "s\<lparr>p_buf := b, p_len := n, p_state := STATE_SEND_DENIED\<rparr>" and ?ss1 = "put_at ss c ?sk"
  have t1: "proxy_turn s ss = Inr (Inr (?s1, ?ss1))" by (simp add: proxy_turn_def i(7) run)
  have tx: "tx ?sk = []" using line(4) by (simp add: peer_def)
  from send_reply_whole [of ?s1 ?sk ?ss1] b i tx obtain b' where
    run2: "proxy_send_reply ?s1 ?ss1 = Inr (?s1\<lparr>p_buf := b', p_len := 0, p_state := STATE_RECV_REQUEST\<rparr>,
      put_at ?ss1 c (?sk\<lparr>sent := sent ?sk @ STAR_REPLY_FAILURE\<rparr>))" and b': "pbuf_ok b'"
    by auto
  let ?s2 = "?s1\<lparr>p_buf := b', p_len := 0, p_state := STATE_RECV_REQUEST\<rparr>"
  let ?ss2 = "put_at ?ss1 c (?sk\<lparr>sent := sent ?sk @ STAR_REPLY_FAILURE\<rparr>)"
  have t2: "proxy_turn ?s1 ?ss1 = Inr (Inr (?s2, ?ss2))" using run2 by (simp add: proxy_turn_def)
  have "idle a c ?s2 ?ss2" by (rule idleI) (use i b' in simp_all)
  then show ?thesis
    unfolding proxy_step [OF t1] proxy_step [OF t2]
    using line(4) i by (intro exI [of _ ?s2] exI [of _ ?ss2]) (simp add: peer_send)
qed

text \<open>A forwarded line up to the wait for the reply.\<close>

lemma forwarded_line:
  assumes idle: "idle a c s ss" and c: "peer (sock_at ss c) (ds # dss)" and yes: "forwarded (concat ds)"
    and a: "peer (sock_at ss a) ess"
  shows "\<exists>s' ss'. proxy_loop s ss = proxy_loop s' ss' \<and> proxy_ok a c s' ss' \<and> p_state s' = STATE_RECV_REPLY \<and>
    peer (sock_at ss' c) dss \<and> peer (sock_at ss' a) ess \<and> sent (sock_at ss' c) = sent (sock_at ss c) \<and>
    sent (sock_at ss' a) = sent (sock_at ss a) @ concat ds"
proof -
  note i = idleD [OF idle]
  let ?sk = "sock_at ss c\<lparr>rx := map Chunk (concat dss)\<rparr>"
  note line = recv_line_whole [OF c i(6)]
  from recv_request_line [of ss s "concat ds" ?sk] line(1-3) i(2,6) yes obtain b n where
    run: "handle_recv_request s ss = Inr (s\<lparr>p_buf := b, p_len := n, p_state := STATE_SEND_REQUEST\<rparr>, put_at ss c ?sk)"
    and b: "pbuf_ok b" "0 < n" "n \<le> ASTROLOG_BUF_LEN" "take n b = concat ds" by auto
  let ?s1 = "s\<lparr>p_buf := b, p_len := n, p_state := STATE_SEND_REQUEST\<rparr>" and ?ss1 = "put_at ss c ?sk"
  have t1: "proxy_turn s ss = Inr (Inr (?s1, ?ss1))" by (simp add: proxy_turn_def i(7) run)
  let ?ak = "sock_at ss a"
  have tx: "tx ?ak = []" using a by (simp add: peer_def)
  from send_request_whole [of ?s1 ?ak ?ss1] b i tx obtain b' where
    run2: "handle_send_request ?s1 ?ss1 = Inr (?s1\<lparr>p_buf := b', p_len := 0, p_state := STATE_RECV_REPLY\<rparr>,
      put_at ?ss1 a (?ak\<lparr>sent := sent ?ak @ concat ds\<rparr>))" and b': "pbuf_ok b'"
    by auto
  let ?s2 = "?s1\<lparr>p_buf := b', p_len := 0, p_state := STATE_RECV_REPLY\<rparr>"
  let ?ss2 = "put_at ?ss1 a (?ak\<lparr>sent := sent ?ak @ concat ds\<rparr>)"
  have t2: "proxy_turn ?s1 ?ss1 = Inr (Inr (?s2, ?ss2))" using run2 by (simp add: proxy_turn_def)
  have "proxy_ok a c ?s2 ?ss2" using i b' by (simp add: proxy_ok_def)
  then show ?thesis
    unfolding proxy_step [OF t1] proxy_step [OF t2]
    using line(4) i a by (intro exI [of _ ?s2] exI [of _ ?ss2]) (simp add: peer_send)
qed

text \<open>A reply up to the next request.\<close>

lemma reply_line:
  assumes ok: "proxy_ok a c s ss" and st: "p_state s = STATE_RECV_REPLY"
    and c: "peer (sock_at ss c) dss" and a: "peer (sock_at ss a) (es # ess)"
  shows "\<exists>s' ss'. proxy_loop s ss = proxy_loop s' ss' \<and> idle a c s' ss' \<and> peer (sock_at ss' c) dss \<and>
    peer (sock_at ss' a) ess \<and> sent (sock_at ss' c) = sent (sock_at ss c) @ concat es \<and>
    sent (sock_at ss' a) = sent (sock_at ss a)"
proof -
  have i: "p_astrolog_fd s = a" "p_con_fd s = c" "a \<noteq> c" "ss a \<noteq> None" "ss c \<noteq> None" "pbuf_ok (p_buf s)"
    using ok st by (simp_all add: proxy_ok_def)
  let ?ak = "sock_at ss a\<lparr>rx := map Chunk (concat ess)\<rparr>" and ?l = "concat es"
  note line = recv_line_whole [OF a i(6)]
  note run = recv_reply_line [of ss s ?l ?ak, unfolded i(1), OF line(1,2,3) i(6)]
  let ?b = "blit (p_buf s) 0 ?l"
  let ?s1 = "s\<lparr>p_buf := ?b, p_len := length ?l, p_state := STATE_SEND_REPLY\<rparr>" and ?ss1 = "put_at ss a ?ak"
  have t1: "proxy_turn s ss = Inr (Inr (?s1, ?ss1))" by (simp only: proxy_turn_def st run proxy_state_type.case)
  have tx: "tx (sock_at ss c) = []" using c by (simp add: peer_def)
  have n: "0 < length ?l" using line_last [OF line(2)] by simp
  have "pbuf_ok (p_buf ?s1)" "0 < p_len ?s1" "p_len ?s1 \<le> ASTROLOG_BUF_LEN" "sock_at ss c = sock_at ?ss1 (p_con_fd ?s1)"
    using pbuf_blit [OF i(6) line(3)] n line(3) i by (simp_all del: length_concat)
  from send_reply_whole [OF this tx] i obtain b' where
    run2: "proxy_send_reply ?s1 ?ss1 = Inr (?s1\<lparr>p_buf := b', p_len := 0, p_state := STATE_RECV_REQUEST\<rparr>,
      put_at ?ss1 c (sock_at ss c\<lparr>sent := sent (sock_at ss c) @ ?l\<rparr>))" and b': "pbuf_ok b'"
    by (auto simp del: length_concat)
  let ?s2 = "?s1\<lparr>p_buf := b', p_len := 0, p_state := STATE_RECV_REQUEST\<rparr>"
  let ?ss2 = "put_at ?ss1 c (sock_at ss c\<lparr>sent := sent (sock_at ss c) @ ?l\<rparr>)"
  have t2: "proxy_turn ?s1 ?ss1 = Inr (Inr (?s2, ?ss2))"
    using run2 by (simp add: proxy_turn_def del: length_concat)
  have "idle a c ?s2 ?ss2" by (rule idleI) (use i b' in simp_all)
  then show ?thesis
    unfolding proxy_step [OF t1] proxy_step [OF t2]
    using line(4) i c by (intro exI [of _ ?s2] exI [of _ ?ss2]) (simp add: peer_send)
qed

lemma session_loop:
  "idle a c s ss \<Longrightarrow> peer (sock_at ss c) dss \<Longrightarrow> peer (sock_at ss a) ess \<Longrightarrow>
   session (map concat dss) (map concat ess) = (fs, as, d) \<Longrightarrow>
   \<exists>ss'. proxy_loop s ss = Some (Inr (d, ss')) \<and> sent (sock_at ss' a) = sent (sock_at ss a) @ concat fs \<and>
     sent (sock_at ss' c) = sent (sock_at ss c) @ concat as"
proof (induction dss arbitrary: s ss ess fs as)
  case Nil
  have i: "p_con_fd s = c" "ss c \<noteq> None" "p_state s = STATE_RECV_REQUEST" "a \<noteq> c"
    using Nil.prems(1) by (simp_all add: idle_def proxy_ok_def)
  let ?s1 = "s\<lparr>p_state := STATE_SUCCESS\<rparr>" and ?ss1 = "put_at ss c (sock_at ss c)"
  have "proxy_turn s ss = Inr (Inr (?s1, ?ss1))"
    using i recv_line_eof [OF Nil.prems(2)]
    by (simp add: proxy_turn_def handle_recv_request_def fd_recv_line_def)
  moreover have "proxy_turn ?s1 ?ss1 = Inl DISCONNECT_CLIENT" by (simp add: proxy_turn_def)
  ultimately have "proxy_loop s ss = Some (Inr (DISCONNECT_CLIENT, ?ss1))"
    using proxy_step proxy_stop by metis
  with Nil.prems(4) i show ?case by auto
next
  case (Cons ds dss)
  let ?l = "concat ds"
  show ?case
  proof (cases "forwarded ?l")
    case False
    obtain fs0 as0 where rest: "session (map concat dss) (map concat ess) = (fs0, as0, d)"
      "fs = fs0" "as = STAR_REPLY_FAILURE # as0" using Cons.prems(4) False by (auto split: prod.splits)
    from refused_line [OF Cons.prems(1,2) False] obtain s1 ss1 where
      one: "proxy_loop s ss = proxy_loop s1 ss1" "idle a c s1 ss1" "peer (sock_at ss1 c) dss"
      "sent (sock_at ss1 c) = sent (sock_at ss c) @ STAR_REPLY_FAILURE" "sock_at ss1 a = sock_at ss a" by blast
    from Cons.IH [OF one(2,3) _ rest(1)] Cons.prems(3) one(1,4,5) rest(2,3) show ?thesis by auto
  next
    case True
    from forwarded_line [OF Cons.prems(1,2) True Cons.prems(3)] obtain s1 ss1 where
      one: "proxy_loop s ss = proxy_loop s1 ss1" "proxy_ok a c s1 ss1" "p_state s1 = STATE_RECV_REPLY"
      "peer (sock_at ss1 c) dss" "peer (sock_at ss1 a) ess" "sent (sock_at ss1 c) = sent (sock_at ss c)"
      "sent (sock_at ss1 a) = sent (sock_at ss a) @ ?l" by blast
    show ?thesis
    proof (cases ess)
      case Nil
      then have p: "peer (sock_at ss1 a) []" and d: "fs = [?l]" "as = []" "d = DISCONNECT_ASTROLOG"
        using one(5) Cons.prems(4) True by simp_all
      have i: "p_astrolog_fd s1 = a" "ss1 a \<noteq> None" "a \<noteq> c" using one(2) by (simp_all add: proxy_ok_def)
      let ?s2 = "s1\<lparr>p_state := STATE_ASTROLOG_ERROR\<rparr>" and ?ss2 = "put_at ss1 a (sock_at ss1 a)"
      have "proxy_turn s1 ss1 = Inr (Inr (?s2, ?ss2))"
        using i recv_line_eof [OF p] one(3)
        by (simp add: proxy_turn_def handle_recv_reply_def fd_recv_line_def)
      moreover have "proxy_turn ?s2 ?ss2 = Inl DISCONNECT_ASTROLOG" by (simp add: proxy_turn_def)
      ultimately have "proxy_loop s1 ss1 = Some (Inr (DISCONNECT_ASTROLOG, ?ss2))"
        using proxy_step proxy_stop by metis
      with d i one(1,6,7) show ?thesis by auto
    next
      case (Cons es ess')
      obtain fs0 as0 where rest: "session (map concat dss) (map concat ess') = (fs0, as0, d)"
        "fs = ?l # fs0" "as = concat es # as0" using Cons.prems(4) True Cons by (auto split: prod.splits)
      from reply_line [OF one(2,3,4) one(5) [unfolded Cons]] obtain s2 ss2 where
        two: "proxy_loop s1 ss1 = proxy_loop s2 ss2" "idle a c s2 ss2" "peer (sock_at ss2 c) dss"
        "peer (sock_at ss2 a) ess'" "sent (sock_at ss2 c) = sent (sock_at ss1 c) @ concat es"
        "sent (sock_at ss2 a) = sent (sock_at ss1 a)" by blast
      from Cons.IH [OF two(2,3,4) rest(1)] one two rest(2,3) show ?thesis by auto
    qed
  qed
qed

end
