(* ===== verification/Proxy_Props.thy ===== *)
theory Proxy_Props
  imports Proxy_Session
begin

text \<open>
  The properties of the proxy: one connection on any network and on a well-behaved one, the defects of its
  handling of failures and of its shared connection to the server, its children and their parent.
\<close>

definition proxy_start :: "string \<Rightarrow> int \<Rightarrow> int \<Rightarrow> proxy_state" where
  "proxy_start buf0 a c = \<lparr>p_astrolog_fd = a, p_con_fd = c, p_buf = buf0[ASTROLOG_BUF_LEN := NUL], p_len = 0,
     p_state = STATE_RECV_REQUEST\<rparr>"

lemma proxy_start_idle:
  assumes "length buf0 = ASTROLOG_BUF_LEN + 1" and "a \<noteq> c" and "ss a \<noteq> None" and "ss c \<noteq> None"
  shows "proxy_new_connection buf0 a c ss = proxy_loop (proxy_start buf0 a c) ss"
    and "idle a c (proxy_start buf0 a c) ss"
proof -
  show "proxy_new_connection buf0 a c ss = proxy_loop (proxy_start buf0 a c) ss"
    using assms(1) by (simp add: proxy_new_connection_def proxy_start_def)
  show "idle a c (proxy_start buf0 a c) ss"
    by (rule idleI) (use assms in \<open>simp_all add: proxy_start_def pbuf_ok_def\<close>)
qed

section \<open>One connection\<close>

text \<open>
  C15. \<open>process_new_connection\<close> of the proxy returns for every behaviour of both peers, without
  undefined behaviour and without touching another descriptor; and all it has sent to the server are
  parts, from their start, of lines of the client that begin with \<open>HOROSCOPE\<close>: no line of a star gets
  through.
\<close>
theorem proxy_filters:
  assumes "length buf0 = ASTROLOG_BUF_LEN + 1" and "a \<noteq> c" and "ss a \<noteq> None" and "ss c \<noteq> None"
  shows "\<exists>d ss'. proxy_new_connection buf0 a c ss = Some (Inr (d, ss')) \<and>
    (\<forall>fd. fd \<noteq> a \<longrightarrow> fd \<noteq> c \<longrightarrow> ss' fd = ss fd) \<and>
    (\<exists>fs. sent (sock_at ss' a) = sent (sock_at ss a) @ concat fs \<and>
      (\<forall>f\<in>set fs. \<exists>l. is_line l \<and> prefix CLIENT_REQUEST_TYPE l \<and> length l \<le> ASTROLOG_BUF_LEN \<and> prefix f l))"
proof -
  note start = proxy_start_idle [OF assms]
  have type: "prefix CLIENT_REQUEST_TYPE l" if "forwarded l" for l
    using that by (metis forwarded_def take_is_prefix)
  from proxy_loop_ok [of a c "proxy_start buf0 a c" ss] start obtain d ss' where
    "proxy_new_connection buf0 a c ss = Some (Inr (d, ss'))" "forwards a ss ss'"
    "\<forall>fd. fd \<noteq> a \<longrightarrow> fd \<noteq> c \<longrightarrow> ss' fd = ss fd" by (auto simp: idle_def)
  then show ?thesis unfolding forwards_def using type by (auto simp: forwarded_def) blast
qed

definition ex_fds :: "sock \<Rightarrow> sock \<Rightarrow> fds" where
  "ex_fds ask csk = [3 \<mapsto> ask, 5 \<mapsto> csk]"

lemma ex_fds_simps [simp]:
  "ex_fds ask csk 3 = Some ask" "ex_fds ask csk 5 = Some csk"
  "sock_at (ex_fds ask csk) 3 = ask" "sock_at (ex_fds ask csk) 5 = csk"
  by (simp_all add: ex_fds_def sock_at_def)

definition ex_peer :: "string list list \<Rightarrow> sock" where
  "ex_peer dss = \<lparr>rx = map Chunk (concat dss), tx = [], sent = []\<rparr>"

lemma ex_peer_ok: "segments_ok dss \<Longrightarrow> peer (ex_peer dss) dss"
  by (simp add: peer_def ex_peer_def)

theorem proxy_filters_witness:
  "\<exists>d ss'. proxy_new_connection (replicate 81 NUL) 3 5 (ex_fds (ex_peer []) (ex_peer [])) = Some (Inr (d, ss'))"
  using proxy_filters [of "replicate 81 NUL" 3 5 "ex_fds (ex_peer []) (ex_peer [])"]
  by (auto simp: ASTROLOG_BUF_LEN_def)

text \<open>
  C16. When the client sends whole lines, each cut into segments in any way, and the server replies with
  whole lines, the proxy realises \<open>session\<close>: the requests of ordinary clients are forwarded unchanged and
  answered with the replies in order, every other line is answered with \<open>DENIED!\<close>, and the
  connection ends with the client, or with the server when it does not reply.
\<close>
theorem proxy_realises_session:
  assumes "length buf0 = ASTROLOG_BUF_LEN + 1" and "a \<noteq> c" and "ss a = Some ask" and "ss c = Some csk"
    and "segments_ok dss" and "rx csk = map Chunk (concat dss)" and "tx csk = []"
    and "segments_ok ess" and "rx ask = map Chunk (concat ess)" and "tx ask = []"
    and "session (map concat dss) (map concat ess) = (fs, as, d)"
  shows "\<exists>ss'. proxy_new_connection buf0 a c ss = Some (Inr (d, ss')) \<and>
    sent (sock_at ss' a) = sent ask @ concat fs \<and> sent (sock_at ss' c) = sent csk @ concat as"
proof -
  have "ss a \<noteq> None" "ss c \<noteq> None" using assms(3,4) by simp_all
  note start = proxy_start_idle [OF assms(1,2) this]
  have at: "sock_at ss a = ask" "sock_at ss c = csk" using assms(3,4) by (simp_all add: sock_at_def)
  have "peer (sock_at ss c) dss" "peer (sock_at ss a) ess" using assms(5-10) by (simp_all add: peer_def at)
  from session_loop [OF start(2) this assms(11)] start(1) show ?thesis by (simp add: at)
qed

definition ex_ask :: string where "ex_ask = CLIENT_REQUEST_TYPE @ ''Aries'' @ [DELIMITER]"
definition ex_answer :: string where "ex_answer = ''Luck'' @ [DELIMITER]"

lemma ex_lines:
  "segments_ok [[ex_ask]]" "segments_ok [[ex_answer]]" "segments_ok [['' F'', ''OO'' @ [DELIMITER]], [ex_ask]]"
  "forwarded ex_ask" "\<not> forwarded ('' FOO'' @ [DELIMITER])"
  by (simp_all add: segments_ok_def is_line_def forwarded_def ex_ask_def ex_answer_def c_consts)

theorem proxy_realises_session_witness:
  "\<exists>ss'. proxy_new_connection (replicate 81 NUL) 3 5
       (ex_fds (ex_peer [[ex_answer]]) (ex_peer [['' F'', ''OO'' @ [DELIMITER]], [ex_ask]])) =
     Some (Inr (DISCONNECT_CLIENT, ss')) \<and>
     sent (sock_at ss' 3) = ex_ask \<and> sent (sock_at ss' 5) = STAR_REPLY_FAILURE @ ex_answer"
proof -
  let ?d = "[['' F'', ''OO'' @ [DELIMITER]], [ex_ask]]" and ?e = "[[ex_answer]]"
  have len: "length (replicate 81 NUL) = ASTROLOG_BUF_LEN + 1" by (simp add: ASTROLOG_BUF_LEN_def)
  have s: "session (map concat ?d) (map concat ?e) = ([ex_ask], [STAR_REPLY_FAILURE, ex_answer], DISCONNECT_CLIENT)"
    using ex_lines(4,5) by simp
  show ?thesis
    using proxy_realises_session [OF len _ _ _ ex_lines(3) _ _ ex_lines(2) _ _ s, of 3 5
        "ex_fds (ex_peer ?e) (ex_peer ?d)" "ex_peer ?e" "ex_peer ?d"]
    by (simp add: ex_peer_def)
qed

section \<open>Defects of one connection\<close>

text \<open>
  A failure to send a request to the server is forgotten: \<open>handle_send_request\<close> has no \<open>return\<close> after it,
  so the next state is \<open>STATE_RECV_REPLY\<close> in every case and the proxy waits for the reply to a
  request it has not sent.
\<close>
lemma proxy_send_failure_lost:
  assumes "proxy_ok a c s ss" and "p_state s = STATE_SEND_REQUEST"
  shows "\<exists>s' ss'. handle_send_request s ss = Inr (s', ss') \<and> p_state s' = STATE_RECV_REPLY"
proof -
  have buf: "pbuf_ok (p_buf s)" and n: "0 < p_len s" "p_len s \<le> ASTROLOG_BUF_LEN"
    using assms by (auto simp: proxy_ok_def)
  have "p_len s \<le> length (p_buf s)" using buf n by (simp add: pbuf_ok_def)
  then obtain r sk where send: "send_all (sock_at ss (p_astrolog_fd s)) (p_buf s) (p_len s) = Inr (r, sk)"
    using send_all_cases by metis
  let ?s1 = "if r \<noteq> 0 then s\<lparr>p_state := STATE_ASTROLOG_ERROR\<rparr> else s"
  have "pbuf_ok (p_buf ?s1)" "0 < p_len ?s1" "p_len ?s1 \<le> ASTROLOG_BUF_LEN" using buf n by simp_all
  from message_sent_ok [OF this, of STATE_RECV_REPLY] obtain b where
    "message_sent ?s1 STATE_RECV_REPLY = Inr (?s1\<lparr>p_buf := b, p_len := 0, p_state := STATE_RECV_REPLY\<rparr>)" by blast
  then show ?thesis by (simp add: handle_send_request_def fd_send_all_def send)
qed

definition ex_forwarding :: "int \<Rightarrow> proxy_state" where
  "ex_forwarding c = \<lparr>p_astrolog_fd = 3, p_con_fd = c, p_buf = blit (replicate 81 NUL) 0 ex_ask,
     p_len = length ex_ask, p_state = STATE_SEND_REQUEST\<rparr>"

lemma ex_forwarding_ok:
  assumes "c \<noteq> 3" and "ss 3 \<noteq> None" and "ss c \<noteq> None"
  shows "proxy_ok 3 c (ex_forwarding c) ss"
proof -
  have "length ex_ask = 16" "length ex_ask \<le> ASTROLOG_BUF_LEN" "pbuf_ok (replicate 81 NUL)"
    by (simp_all add: ex_ask_def c_consts pbuf_ok_def)
  with assms ex_lines(4) take_blit_0 [of ex_ask "replicate 81 NUL"] pbuf_blit show ?thesis
    by (simp add: proxy_ok_def ex_forwarding_def)
qed

text \<open>
  Two lines that arrive in one segment end the connection without any answer, even when both are
  proper requests: \<open>recv_line\<close> does not buffer and fails when bytes follow the delimiter.
\<close>
lemma proxy_drops_coalesced:
  assumes "length buf0 = ASTROLOG_BUF_LEN + 1" and "a \<noteq> c" and "ss a = Some ask" and "ss c = Some csk"
    and "rx csk = Chunk (l @ rest) # es" and "is_line l" and "rest \<noteq> []"
    and "length (l @ rest) \<le> ASTROLOG_BUF_LEN"
  shows "\<exists>ss'. proxy_new_connection buf0 a c ss = Some (Inr (DISCONNECT_CLIENT, ss')) \<and>
    sent (sock_at ss' a) = sent ask \<and> sent (sock_at ss' c) = sent csk"
proof -
  have op: "ss a \<noteq> None" "ss c \<noteq> None" using assms(3,4) by simp_all
  note start = proxy_start_idle [OF assms(1,2) op]
  let ?s = "proxy_start buf0 a c" and ?buf = "buf0[ASTROLOG_BUF_LEN := NUL]"
  have at: "sock_at ss c = csk" "sock_at ss a = ask" using assms(3,4) by (simp_all add: sock_at_def)
  obtain w where l: "l = w @ [DELIMITER]" "DELIMITER \<notin> set w" using assms(6) by (auto simp: is_line_alt)
  let ?b = "blit ?buf 0 (l @ rest)" and ?sk = "csk\<lparr>rx := es\<rparr>"
  have recv: "sock_recv csk ASTROLOG_BUF_LEN = (int (length (l @ rest)), l @ rest, ?sk)"
    using assms(5,8) by (simp add: sock_recv_def)
  have "find_from (l @ rest) DELIMITER 0 = Some (length w)"
    using find_from_line [OF l(2), of rest 0] by (simp add: l(1))
  moreover have "subarray ?b 0 (length (l @ rest)) = l @ rest"
    by (simp add: subarray_from_0 del: length_append append_assoc)
  ultimately have chr: "memchr ?b 0 DELIMITER (length (l @ rest)) = Inr (Some (length w))"
    using assms(1,8) by (simp add: memchr_def del: length_append)
  have "memcpy ?buf 0 (l @ rest) = Inr ?b" using assms(1,8) by simp
  moreover have "length w \<noteq> length (l @ rest) - 1" "0 < length (l @ rest)" using assms(7) l(1) by simp_all
  ultimately have "recv_line csk ?buf ASTROLOG_BUF_LEN = Inr (-1, ?b, ?sk)"
    using chr by (simp add: recv_line_def recv_line_loop.simps recv del: length_append)
  then have "proxy_turn ?s ss = Inr (Inr (?s\<lparr>p_buf := ?b, p_state := STATE_CLIENT_ERROR\<rparr>, put_at ss c ?sk))"
    by (simp add: proxy_turn_def proxy_start_def handle_recv_request_def fd_recv_line_def at)
  then have "proxy_loop ?s ss = proxy_loop (?s\<lparr>p_buf := ?b, p_state := STATE_CLIENT_ERROR\<rparr>) (put_at ss c ?sk)"
    by (rule proxy_step)
  also have "\<dots> = Some (Inr (DISCONNECT_CLIENT, put_at ss c ?sk))" by (rule proxy_stop) (simp add: proxy_turn_def)
  finally show ?thesis using start(1) assms(2) op at by auto
qed

end
