(* ===== verification/Proxy_Children.thy ===== *)
theory Proxy_Children
  imports Proxy_Props
begin

text \<open>
  The processes of the proxy: the interleaving of the two children, which share the connection to the
  server, the loop of a child over its clients, and the parent.
\<close>

section \<open>Two children on one connection to the server\<close>

text \<open>Either child makes a turn of its machine; the sockets are shared, the rest of the state is not.\<close>

inductive child_step ::
  "proxy_state \<times> proxy_state \<times> fds \<Rightarrow> proxy_state \<times> proxy_state \<times> fds \<Rightarrow> bool" where
  first: "proxy_turn s ss = Inr (Inr (s', ss')) \<Longrightarrow> child_step (s, t, ss) (s', t, ss')"
| second: "proxy_turn t ss = Inr (Inr (t', ss')) \<Longrightarrow> child_step (s, t, ss) (s, t', ss')"

inductive_cases child_stepE: "child_step (s, t, ss) x"

definition children_ok :: "int \<Rightarrow> int \<Rightarrow> int \<Rightarrow> proxy_state \<times> proxy_state \<times> fds \<Rightarrow> bool" where
  "children_ok a c1 c2 x \<longleftrightarrow> (case x of (s, t, ss) \<Rightarrow> c1 \<noteq> c2 \<and> proxy_ok a c1 s ss \<and> proxy_ok a c2 t ss)"

lemma proxy_ok_other:
  assumes "proxy_ok a c s ss" and "proxy_ok a c' s' ss'" and "ss' c = ss c"
  shows "proxy_ok a c s ss'"
  using assms by (auto simp: proxy_ok_def)

lemma turn_defined:
  assumes "proxy_ok a c s ss" and "proxy_turn s ss = Inr (Inr (s', ss'))"
  shows "proxy_ok a c s' ss'" and "forwards a ss ss'" and "\<And>fd. fd \<noteq> a \<Longrightarrow> fd \<noteq> c \<Longrightarrow> ss' fd = ss fd"
  using proxy_turn_ok [OF assms(1)] assms(2) by (auto simp: turn_ok_def)

lemma child_step_ok:
  assumes "children_ok a c1 c2 x" and "child_step x y"
  shows "children_ok a c1 c2 y \<and> forwards a (snd (snd x)) (snd (snd y))"
  using assms(2,1)
proof (cases rule: child_step.cases)
  case (first s ss s' ss' t)
  then have ok: "proxy_ok a c1 s ss" "proxy_ok a c2 t ss" "c1 \<noteq> c2" using assms(1) by (simp_all add: children_ok_def)
  note turn = turn_defined [OF ok(1) first(3)]
  have "c2 \<noteq> a" using ok(2) by (auto simp: proxy_ok_def)
  with proxy_ok_other [OF ok(2) turn(1) turn(3)] ok(3) turn first(1,2) show ?thesis by (simp add: children_ok_def)
next
  case (second t ss t' ss' s)
  then have ok: "proxy_ok a c1 s ss" "proxy_ok a c2 t ss" "c1 \<noteq> c2" using assms(1) by (simp_all add: children_ok_def)
  note turn = turn_defined [OF ok(2) second(3)]
  have "c1 \<noteq> a" using ok(1) by (auto simp: proxy_ok_def)
  with proxy_ok_other [OF ok(1) turn(1) turn(3)] ok(3) turn second(1,2) show ?thesis by (simp add: children_ok_def)
qed



definition ex_shared :: "sock \<Rightarrow> fds" where
  "ex_shared ask = [3 \<mapsto> ask, 5 \<mapsto> ex_peer [], 6 \<mapsto> ex_peer []]"

lemma ex_shared_ok: "children_ok 3 5 6 (ex_forwarding 5, ex_forwarding 6, ex_shared ask)"
  by (simp add: children_ok_def ex_forwarding_ok ex_shared_def)


text \<open>The two turns of a forwarded request at the server's end, on a well-behaved connection.\<close>

lemma request_turn:
  assumes ok: "proxy_ok a c s ss" and st: "p_state s = STATE_SEND_REQUEST" and p: "peer (sock_at ss a) ess"
  shows "\<exists>s' ss'. proxy_turn s ss = Inr (Inr (s', ss')) \<and> p_state s' = STATE_RECV_REPLY \<and>
    peer (sock_at ss' a) ess \<and> sent (sock_at ss' a) = sent (sock_at ss a) @ take (p_len s) (p_buf s)"
proof -
  have s: "pbuf_ok (p_buf s)" "0 < p_len s" "p_len s \<le> ASTROLOG_BUF_LEN" "p_astrolog_fd s = a" "ss a \<noteq> None"
    using ok st by (auto simp: proxy_ok_def)
  have tx: "tx (sock_at ss a) = []" using p by (simp add: peer_def)
  from send_request_whole [OF s(1-3) _ tx] s(4) obtain b where
    "handle_send_request s ss = Inr (s\<lparr>p_buf := b, p_len := 0, p_state := STATE_RECV_REPLY\<rparr>,
      put_at ss a (sock_at ss a\<lparr>sent := sent (sock_at ss a) @ take (p_len s) (p_buf s)\<rparr>))" by auto
  with s(5) p st show ?thesis by (simp add: proxy_turn_def peer_send)
qed

lemma reply_turn:
  assumes ok: "proxy_ok a c s ss" and st: "p_state s = STATE_RECV_REPLY" and p: "peer (sock_at ss a) ([l] # ess)"
  shows "\<exists>s' ss'. proxy_turn s ss = Inr (Inr (s', ss')) \<and> p_state s' = STATE_SEND_REPLY \<and>
    take (p_len s') (p_buf s') = l \<and> peer (sock_at ss' a) ess \<and> sent (sock_at ss' a) = sent (sock_at ss a)"
proof -
  have s: "pbuf_ok (p_buf s)" "p_astrolog_fd s = a" "ss a \<noteq> None" using ok st by (auto simp: proxy_ok_def)
  note line = recv_line_whole [OF p s(1), simplified concat.simps append_Nil2]
  from recv_reply_line [of ss s l "sock_at ss a\<lparr>rx := map Chunk (concat ess)\<rparr>"] line s
  have "handle_recv_reply s ss = Inr (s\<lparr>p_buf := blit (p_buf s) 0 l, p_len := length l,
      p_state := STATE_SEND_REPLY\<rparr>, put_at ss a (sock_at ss a\<lparr>rx := map Chunk (concat ess)\<rparr>))" by simp
  with s(3) line(4) st show ?thesis by (simp add: proxy_turn_def)
qed

text \<open>
  C18. The children share the connection without any order between them: when both have forwarded a
  request and the replies \<open>r1\<close>, \<open>r2\<close> arrive in the order of the requests, there is an interleaving in
  which the first child holds the reply to the second child's request and conversely.
\<close>
theorem proxy_replies_cross:
  assumes "children_ok a c1 c2 (s, t, ss)"
    and "p_state s = STATE_SEND_REQUEST" and "p_state t = STATE_SEND_REQUEST"
    and "peer (sock_at ss a) [[r1], [r2]]"
  shows "\<exists>s' t' ss'. child_step\<^sup>*\<^sup>* (s, t, ss) (s', t', ss') \<and>
    sent (sock_at ss' a) = sent (sock_at ss a) @ take (p_len s) (p_buf s) @ take (p_len t) (p_buf t) \<and>
    p_state s' = STATE_SEND_REPLY \<and> take (p_len s') (p_buf s') = r2 \<and>
    p_state t' = STATE_SEND_REPLY \<and> take (p_len t') (p_buf t') = r1"
proof -
  have step: "children_ok a c1 c2 y" if "children_ok a c1 c2 x" "child_step x y" for x y
    using child_step_ok [OF that] by blast
  have s0: "proxy_ok a c1 s ss" using assms(1) by (simp add: children_ok_def)
  from request_turn [OF s0 assms(2,4)] obtain s1 ss1 where
    1: "proxy_turn s ss = Inr (Inr (s1, ss1))" "p_state s1 = STATE_RECV_REPLY"
    "peer (sock_at ss1 a) [[r1], [r2]]" "sent (sock_at ss1 a) = sent (sock_at ss a) @ take (p_len s) (p_buf s)" by blast
  note c1 = first [OF 1(1), of t]
  note k1 = step [OF assms(1) c1]
  then have "proxy_ok a c2 t ss1" by (simp add: children_ok_def)
  from request_turn [OF this assms(3) 1(3)] obtain t1 ss2 where
    2: "proxy_turn t ss1 = Inr (Inr (t1, ss2))" "p_state t1 = STATE_RECV_REPLY"
    "peer (sock_at ss2 a) [[r1], [r2]]" "sent (sock_at ss2 a) = sent (sock_at ss1 a) @ take (p_len t) (p_buf t)" by blast
  note c2 = second [OF 2(1), of s1]
  note k2 = step [OF k1 c2]
  then have "proxy_ok a c2 t1 ss2" by (simp add: children_ok_def)
  from reply_turn [OF this 2(2,3)] obtain t2 ss3 where
    3: "proxy_turn t1 ss2 = Inr (Inr (t2, ss3))" "p_state t2 = STATE_SEND_REPLY"
    "take (p_len t2) (p_buf t2) = r1" "peer (sock_at ss3 a) [[r2]]" "sent (sock_at ss3 a) = sent (sock_at ss2 a)" by blast
  note c3 = second [OF 3(1), of s1]
  note k3 = step [OF k2 c3]
  then have "proxy_ok a c1 s1 ss3" by (simp add: children_ok_def)
  from reply_turn [OF this 1(2) 3(4)] obtain s2 ss4 where
    4: "proxy_turn s1 ss3 = Inr (Inr (s2, ss4))" "p_state s2 = STATE_SEND_REPLY"
    "take (p_len s2) (p_buf s2) = r2" "sent (sock_at ss4 a) = sent (sock_at ss3 a)" by blast
  have "child_step\<^sup>*\<^sup>* (s, t, ss) (s2, t2, ss4)"
    using c1 c2 c3 first [OF 4(1), of t2] by (meson converse_rtranclp_into_rtranclp r_into_rtranclp)
  with 1 2 3 4 show ?thesis by (intro exI [of _ s2] exI [of _ t2] exI [of _ ss4]) simp
qed

theorem proxy_replies_cross_witness:
  "\<exists>s' t' ss'. child_step\<^sup>*\<^sup>* (ex_forwarding 5, ex_forwarding 6, ex_shared (ex_peer [[ex_answer], [ex_ask]])) (s', t', ss') \<and>
     take (p_len s') (p_buf s') = ex_ask \<and> take (p_len t') (p_buf t') = ex_answer"
proof -
  have "segments_ok [[ex_answer], [ex_ask]]" using ex_lines by (simp add: segments_ok_def)
  then have "peer (sock_at (ex_shared (ex_peer [[ex_answer], [ex_ask]])) 3) [[ex_answer], [ex_ask]]"
    using ex_peer_ok by (simp add: ex_shared_def sock_at_def)
  from proxy_replies_cross [OF ex_shared_ok _ _ this] show ?thesis by (simp add: ex_forwarding_def) blast
qed

section \<open>A child process\<close>

text \<open>
  What the kernel and the stack give a child: descriptors that are not open, and a block of the size of the
  buffer.
\<close>

definition clients_ok :: "fds \<Rightarrow> (accept_result \<times> string) list \<Rightarrow> bool" where
  "clients_ok ss accs \<longleftrightarrow> (\<forall>(acc, buf0)\<in>set accs. length buf0 = ASTROLOG_BUF_LEN + 1 \<and>
     (case acc of Accept_error \<Rightarrow> True | Accepted fd sk \<Rightarrow> ss fd = None))"

lemma clients_ok_mono:
  assumes "clients_ok ss accs" and "\<And>f. ss f = None \<Longrightarrow> ss' f = None"
  shows "clients_ok ss' accs"
  using assms(1)
proof (induction accs)
  case (Cons x accs)
  then show ?case using assms(2) by (cases x) (simp add: clients_ok_def split: accept_result.splits)
qed (simp add: clients_ok_def)

lemma proxy_child_loop_ok:
  "ss a \<noteq> None \<Longrightarrow> clients_ok ss accs \<Longrightarrow>
   \<exists>go ss'. proxy_child_loop a ss accs = Some (Inr (go, ss')) \<and> (\<forall>fd. fd \<noteq> a \<longrightarrow> ss' fd = ss fd) \<and> ss' a \<noteq> None \<and>
     forwards a ss ss'"
proof (induction accs arbitrary: ss)
  case Nil
  then show ?case by (intro exI [of _ True]) (simp add: forwards_same)
next
  case (Cons x accs)
  obtain acc buf0 where x: "x = (acc, buf0)" by (cases x)
  show ?case
  proof (cases acc)
    case Accept_error
    with Cons.prems x show ?thesis by (intro exI [of _ False]) (simp add: forwards_same)
  next
    case (Accepted fd sk)
    then have buf: "length buf0 = ASTROLOG_BUF_LEN + 1" and fd: "ss fd = None" and more: "clients_ok ss accs"
      using Cons.prems(2) x by (simp_all add: clients_ok_def)
    have "a \<noteq> fd" using Cons.prems(1) fd by auto
    let ?ss = "ss(fd \<mapsto> sk)"
    have op: "?ss a \<noteq> None" "?ss fd \<noteq> None" using Cons.prems(1) by simp_all
    note start = proxy_start_idle [OF buf \<open>a \<noteq> fd\<close> op]
    have "proxy_ok a fd (proxy_start buf0 a fd) ?ss" using start(2) by (simp only: idle_def)
    from proxy_loop_ok [OF this] obtain d ss1 where
      run: "proxy_new_connection buf0 a fd ?ss = Some (Inr (d, ss1))" and f: "forwards a ?ss ss1" and
      same: "\<forall>f. f \<noteq> a \<longrightarrow> f \<noteq> fd \<longrightarrow> ss1 f = ?ss f" and a1: "ss1 a \<noteq> None" unfolding start(1) by blast
    let ?ss2 = "ss1(fd := None)"
    have ss2: "\<forall>f. f \<noteq> a \<longrightarrow> ?ss2 f = ss f" "?ss2 a \<noteq> None" using same a1 fd \<open>a \<noteq> fd\<close> by auto
    have f2: "forwards a ss ?ss2" using f \<open>a \<noteq> fd\<close> by (simp add: forwards_def sock_at_def)
    show ?thesis
    proof (cases "d = DISCONNECT_ASTROLOG")
      case True
      with run x Accepted ss2 f2 show ?thesis by (intro exI [of _ False]) simp
    next
      case False
      have "ss f = None \<Longrightarrow> ?ss2 f = None" for f using ss2(1) Cons.prems(1) by (cases "f = a") auto
      then have "clients_ok ?ss2 accs" using clients_ok_mono [OF more] by blast
      from Cons.IH [OF ss2(2) this] obtain go ss' where
        "proxy_child_loop a ?ss2 accs = Some (Inr (go, ss'))" "\<forall>f. f \<noteq> a \<longrightarrow> ss' f = ?ss2 f" "ss' a \<noteq> None"
        "forwards a ?ss2 ss'" by blast
      with run x Accepted ss2 False forwards_trans [OF f2] show ?thesis by simp
    qed
  qed
qed

text \<open>
  A child serves its clients one after another for ever or until \<open>accept\<close> or the connection to the
  server fails; it has no undefined behaviour, every client's descriptor is closed again, and when it
  ends it has closed both its sockets.
\<close>
lemma proxy_child_releases:
  assumes "ss a \<noteq> None" and "ss l \<noteq> None" and "a \<noteq> l" and "clients_ok ss accs"
  shows "\<exists>go ss'. proxy_child a l ss accs = Some (Inr (go, ss')) \<and>
    (if go then (\<forall>fd. fd \<noteq> a \<longrightarrow> ss' fd = ss fd) \<and> ss' a \<noteq> None
     else ss' = ss(l := None, a := None))"
proof -
  from proxy_child_loop_ok [OF assms(1,4)] obtain go ss' where
    run: "proxy_child_loop a ss accs = Some (Inr (go, ss'))" and
    ss': "\<forall>fd. fd \<noteq> a \<longrightarrow> ss' fd = ss fd" "ss' a \<noteq> None" by blast
  show ?thesis
  proof (cases go)
    case True
    with run ss' show ?thesis by (intro exI [of _ True]) (simp add: proxy_child_def)
  next
    case False
    have "ss'(l := None, a := None) = ss(l := None, a := None)" using ss'(1) by (auto simp: fun_eq_iff)
    with False run show ?thesis by (intro exI [of _ False]) (simp add: proxy_child_def)
  qed
qed

section \<open>The parent process\<close>

definition proxy_ready :: "proxy_startup \<Rightarrow> bool" where
  "proxy_ready px \<longleftrightarrow> px_argc px = PROXY_ARGC \<and> 0 \<le> px_astrolog px \<and> px_connect_ok px \<and> 0 \<le> px_listen px \<and>
     px_setsockopt_ok px \<and> px_bind_ok px \<and> px_listen_ok px \<and> px_pids px \<noteq> None"

text \<open>
  \<open>main\<close> of the proxy has no undefined behaviour. The parent closes both sockets and signals exactly the
  children it has created, and its exit code is 0 if and only if the startup and both calls of
  \<open>fork\<close> have succeeded; a child goes on with both sockets open.
\<close>
lemma proxy_main_signals_children:
  assumes "\<forall>pids. px_pids px = Some pids \<longrightarrow> length pids = CHILD_PROC_NUM" and "px_listen px \<noteq> px_astrolog px"
  shows "\<exists>res. proxy_main px = Inr res \<and> (case res of
      Child ss \<Rightarrow> proxy_ready px \<and> (px_fork px 0 = 0 \<or> 0 < px_fork px 0 \<and> px_fork px 1 = 0) \<and>
        ss (px_astrolog px) \<noteq> None \<and> ss (px_listen px) \<noteq> None
    | Parent ret signalled ss \<Rightarrow> ss = Map.empty \<and>
        signalled = (if proxy_ready px then takeWhile (\<lambda>p. 0 < p) [px_fork px 0, px_fork px 1] else []) \<and>
        (ret = 0 \<longleftrightarrow> proxy_ready px \<and> 0 < px_fork px 0 \<and> 0 < px_fork px 1))"
proof (cases "proxy_ready px")
  case False
  then show ?thesis
    by (auto simp: proxy_main_def proxy_ready_def Let_def fun_eq_iff split: option.splits)
next
  case True
  then obtain pids where pids: "px_pids px = Some pids" by (auto simp: proxy_ready_def)
  with assms(1) obtain p q where pq: "pids = [p, q]"
    by (auto simp: CHILD_PROC_NUM_def numeral_2_eq_2 length_Suc_conv)
  let ?ss = "[px_astrolog px \<mapsto> px_astrolog_sock px, px_listen px \<mapsto> \<lparr>rx = [], tx = [], sent = []\<rparr>]"
  have closed: "?ss(px_listen px := None, px_astrolog px := None) = Map.empty" by (simp add: fun_eq_iff)
  consider "px_fork px 0 < 0" | "px_fork px 0 = 0" | "0 < px_fork px 0" "px_fork px 1 < 0"
    | "0 < px_fork px 0" "px_fork px 1 = 0" | "0 < px_fork px 0" "0 < px_fork px 1" by linarith
  then show ?thesis
    using True pids pq assms(2) closed
    by cases (auto simp: proxy_main_def proxy_ready_def Let_def CHILD_PROC_NUM_def numeral_2_eq_2)
qed

definition ex_proxy :: proxy_startup where
  "ex_proxy = \<lparr>px_argc = 4, px_astrolog = 3, px_astrolog_sock = ex_peer [], px_connect_ok = True, px_listen = 4,
     px_setsockopt_ok = True, px_bind_ok = True, px_listen_ok = True, px_pids = Some [0, 0],
     px_fork = \<lambda>n. if n = 0 then 77 else -1, px_kill = \<lambda>_. None\<rparr>"

end
