(* ===== verification/Client.thy ===== *)
theory Client
  imports Processes C_Library
begin

text \<open>
  The client of \<open>unix_socket_api/src/client.c\<close>: the star that publishes a prognosis for every zodiac, the
  ordinary client that asks for every zodiac, and the harmful client that forks many processes asking for
  random ones. The results of \<open>rand ()\<close>, which are not negative, are a parameter; \<open>usleep\<close> has no effect
  on the model.
\<close>

definition CLIENT_ARGC :: nat where "CLIENT_ARGC = 4"
definition PROGNOSE_LIMIT :: int where "PROGNOSE_LIMIT = 256"
definition HARMFUL_CON_NUM :: nat where "HARMFUL_CON_NUM = 10000"
definition RETRIES :: nat where "RETRIES = 10"

datatype client_type = STAR_CLIENT | ORDINARY_CLIENT | HARMFUL_CLIENT | CLIENT_TYPE_COUNT

primrec client_type_val :: "client_type \<Rightarrow> int" where
  "client_type_val STAR_CLIENT = 0"
| "client_type_val ORDINARY_CLIENT = 1"
| "client_type_val HARMFUL_CLIENT = 2"
| "client_type_val CLIENT_TYPE_COUNT = 3"

section \<open>One exchange\<close>

text \<open>
  The request line both clients build at the start of the buffer: the type, the name of the zodiac and the
  delimiter; the number is \<open>pos\<close>. \<open>strlen\<close> of the null pointer for an unknown zodiac is undefined.
\<close>

definition put_request :: "string \<Rightarrow> string \<Rightarrow> nat \<Rightarrow> (string \<times> nat) c_result" where
  "put_request buf request_type zodiac_ix =
     (let pos1 = length request_type in
      bindc (memcpy buf 0 request_type) (\<lambda>buf1.
      case get_zodiac zodiac_ix of
        None \<Rightarrow> Inl Undefined
      | Some zodiac \<Rightarrow>
          let pos2 = pos1 + length zodiac in
          bindc (memcpy buf1 pos1 zodiac) (\<lambda>buf2.
          bindc (arr_set buf2 pos2 DELIMITER) (\<lambda>buf3.
          Inr (buf3, pos2 + 1)))))"

text \<open>\<open>send_all\<close> of the first \<open>pos\<close> bytes, then the terminator and \<open>LOG\<close>; the flag says whether it was sent.\<close>

definition send_line :: "sock \<Rightarrow> string \<Rightarrow> nat \<Rightarrow> (bool \<times> string \<times> sock) c_result" where
  "send_line sk buf pos =
     bindc (send_all sk buf pos) (\<lambda>(r, sk').
     if r \<noteq> 0 then Inr (False, buf, sk')
     else
       bindc (arr_set buf (pos - 1) NUL) (\<lambda>buf'.
       bindc (log_str buf' 0) (\<lambda>_. Inr (True, buf', sk'))))"

text \<open>The exit codes are those of the C functions; \<open>buf0\<close> is the indeterminate automatic array.\<close>

definition star_client :: "int \<Rightarrow> string \<Rightarrow> sock \<Rightarrow> nat \<Rightarrow> (int \<times> sock) c_result" where
  "star_client rand_val buf0 sk zodiac_ix =
     bindc (arr_set buf0 ASTROLOG_BUF_LEN NUL) (\<lambda>buf.
     bindc (put_request buf STAR_REQUEST_TYPE zodiac_ix) (\<lambda>(buf1, pos).
     bindc (send_line sk buf1 pos) (\<lambda>(ok1, buf2, sk1).
     if \<not> ok1 then Inr (1, sk1)
     else
       let text = decimal (nat (rand_val mod PROGNOSE_LIMIT)); bytes = length text in
       bindc (memcpy buf2 0 (text @ [NUL])) (\<lambda>buf3.
       bindc (arr_set buf3 bytes DELIMITER) (\<lambda>buf4.
       bindc (send_line sk1 buf4 (bytes + 1)) (\<lambda>(ok2, buf5, sk2).
       if \<not> ok2 then Inr (1, sk2)
       else
         bindc (recv_line sk2 buf5 ASTROLOG_BUF_LEN) (\<lambda>(received, buf6, sk3).
         if received \<le> 0 then Inr (1, sk3)
         else
           bindc (if size_t received = length STAR_REPLY_FAILURE then
                    bindc (mem_read buf6 0 (length STAR_REPLY_FAILURE)) (\<lambda>d. Inr (d = STAR_REPLY_FAILURE))
                  else Inr False) (\<lambda>filtered.
           if filtered then Inr (0, sk3)
           else
             bindc (arr_set buf6 (nat received - 1) NUL) (\<lambda>buf7.
             bindc (log_str buf7 0) (\<lambda>_. Inr (0, sk3)))))))))))"

definition ordinary_client :: "string \<Rightarrow> sock \<Rightarrow> nat \<Rightarrow> (int \<times> sock) c_result" where
  "ordinary_client buf0 sk zodiac_ix =
     bindc (arr_set buf0 ASTROLOG_BUF_LEN NUL) (\<lambda>buf.
     bindc (put_request buf CLIENT_REQUEST_TYPE zodiac_ix) (\<lambda>(buf1, pos).
     bindc (send_line sk buf1 pos) (\<lambda>(ok1, buf2, sk1).
     if \<not> ok1 then Inr (1, sk1)
     else
       bindc (recv_line sk1 buf2 ASTROLOG_BUF_LEN) (\<lambda>(received, buf3, sk2).
       if received \<le> 0 then Inr (1, sk2)
       else
         bindc (arr_set buf3 (nat received - 1) NUL) (\<lambda>buf4.
         bindc (log_str buf4 0) (\<lambda>_. Inr (0, sk2)))))))"

section \<open>One connection\<close>

text \<open>
  The loops over the exchanges of a connection: \<open>exchange i\<close> is the call with loop variable \<open>i\<close>, \<open>ret\<close> the
  result so far; the first failure ends the loop.
\<close>

fun exchanges ::
  "(nat \<Rightarrow> sock \<Rightarrow> (int \<times> sock) c_result) \<Rightarrow> nat list \<Rightarrow> int \<Rightarrow> sock \<Rightarrow> (int \<times> sock) c_result" where
  "exchanges exchange [] ret sk = Inr (ret, sk)"
| "exchanges exchange (i # is) ret sk =
     bindc (exchange i sk) (\<lambda>(ret', sk').
       if ret' \<noteq> 0 then Inr (ret', sk') else exchanges exchange is ret' sk')"

text \<open>The answers of the system to \<open>socket\<close> and \<open>connect\<close>, and the peer's script.\<close>

record con_setup =
  cs_socket :: int
  cs_connect_ok :: bool
  cs_sock :: sock

text \<open>
  The frame the three connecting functions share: open, connect, run the loop, close. The result is the
  exit code, the connection as the loop left it (\<open>None\<close> if there was none) and the open descriptors.
\<close>

definition with_connection ::
  "con_setup \<Rightarrow> (sock \<Rightarrow> (int \<times> sock) c_result) \<Rightarrow> (int \<times> sock option \<times> fds) c_result" where
  "with_connection cs run =
     (if cs_socket cs < 0 then Inr (1, None, Map.empty)
      else
        let ss = [cs_socket cs \<mapsto> cs_sock cs] in
        if \<not> cs_connect_ok cs then Inr (1, None, ss(cs_socket cs := None))
        else
          bindc (run (cs_sock cs)) (\<lambda>(ret, sk').
          Inr (ret, Some sk', (put_at ss (cs_socket cs) sk')(cs_socket cs := None))))"

text \<open>\<open>rands\<close>: the successive results of \<open>rand ()\<close>; \<open>bufs\<close>: the stack at the successive calls.\<close>

definition star_client_all ::
  "(nat \<Rightarrow> int) \<Rightarrow> (nat \<Rightarrow> string) \<Rightarrow> con_setup \<Rightarrow> (int \<times> sock option \<times> fds) c_result" where
  "star_client_all rands bufs cs =
     with_connection cs (exchanges (\<lambda>i sk. star_client (rands i) (bufs i) sk i) [0..<ZODIAC_NUM] 1)"

definition ordinary_client_all ::
  "(nat \<Rightarrow> string) \<Rightarrow> con_setup \<Rightarrow> (int \<times> sock option \<times> fds) c_result" where
  "ordinary_client_all bufs cs =
     with_connection cs (exchanges (\<lambda>i sk. ordinary_client (bufs i) sk i) [0..<ZODIAC_NUM] 1)"

text \<open>\<open>rand () % ZODIAC_NUM\<close> is computed in \<open>size_t\<close>. The other call of \<open>rand\<close> in a turn is the pause's.\<close>

definition harmful_client_child ::
  "(nat \<Rightarrow> int) \<Rightarrow> (nat \<Rightarrow> string) \<Rightarrow> con_setup \<Rightarrow> (int \<times> sock option \<times> fds) c_result" where
  "harmful_client_child rands bufs cs =
     with_connection cs
       (exchanges (\<lambda>i sk. ordinary_client (bufs i) sk (size_t (rands (2 * i)) mod ZODIAC_NUM)) [0..<RETRIES] 1)"

section \<open>The processes\<close>

text \<open>\<open>Client_exit\<close>: the end of a process with one connection; \<open>Harm_parent\<close>: exit code and processes signalled.\<close>

datatype client_result = Client_exit int "sock option" fds | Harm_parent int "int list"

definition client_exit :: "(int \<times> sock option \<times> fds) c_result \<Rightarrow> client_result c_result" where
  "client_exit r = bindc r (\<lambda>(ret, sk, ss). Inr (Client_exit ret sk ss))"

record client_env =
  ce_rands :: "nat \<Rightarrow> int"
  ce_bufs :: "nat \<Rightarrow> string"
  ce_setup :: con_setup
  ce_pids :: "int list option"
  ce_fork :: "nat \<Rightarrow> int"
  ce_kill :: "int \<Rightarrow> int option"

definition harmful_client :: "client_env \<Rightarrow> client_result c_result" where
  "harmful_client ce =
     (case ce_pids ce of
        None \<Rightarrow> Inr (Harm_parent 1 [])
      | Some pids \<Rightarrow>
          bindc (fork_loop (ce_fork ce) HARMFUL_CON_NUM 0 pids 1) (\<lambda>res.
            case res of
              In_child \<Rightarrow> client_exit (harmful_client_child (ce_rands ce) (ce_bufs ce) (ce_setup ce))
            | In_parent i child_pids ret \<Rightarrow>
                let ret1 = (if ret < 0 then 1 else ret);
                    ret2 = (if i = HARMFUL_CON_NUM then 0 else ret1) in
                bindc (kill_children_procs (ce_kill ce) child_pids i) (\<lambda>(signalled, _).
                Inr (Harm_parent ret2 signalled))))"

text \<open>The conversion of the \<open>unsigned long\<close> to the \<open>int\<close> variable \<open>type\<close>.\<close>

definition int_of_ulong :: "nat \<Rightarrow> int" where
  "int_of_ulong n = to_int32 (int n)"

text \<open>
  \<open>main\<close>; the last argument is the client's type. A value none of the labels of the \<open>switch\<close> has leads
  to the end of \<open>main\<close>, whose result is then 0.
\<close>

definition client_main :: "string list \<Rightarrow> client_env \<Rightarrow> client_result c_result" where
  "client_main argv ce =
     (if length argv \<noteq> CLIENT_ARGC then Inr (Client_exit 1 None Map.empty)
      else
        let type_val = int_of_ulong (fst (strtoul (argv ! 3))) in
        if type_val \<ge> client_type_val CLIENT_TYPE_COUNT then Inr (Client_exit 1 None Map.empty)
        else if type_val = client_type_val STAR_CLIENT then
          client_exit (star_client_all (ce_rands ce) (ce_bufs ce) (ce_setup ce))
        else if type_val = client_type_val ORDINARY_CLIENT then
          client_exit (ordinary_client_all (ce_bufs ce) (ce_setup ce))
        else if type_val = client_type_val HARMFUL_CLIENT then harmful_client ce
        else Inr (Client_exit 0 None Map.empty))"

end
