(* ===== verification/Client_Correct.thy ===== *)
theory Client_Correct
  imports Client Line_IO
begin

text \<open>
  The client's exchanges: no access outside the buffer, the lines they send, and the loops over them, proved once
  for every exchange that keeps the contract below.
\<close>

definition request_line :: "string \<Rightarrow> nat \<Rightarrow> string" where
  "request_line request_type i = request_type @ zodiac_names ! i @ [DELIMITER]"

definition prognosis_line :: "int \<Rightarrow> string" where
  "prognosis_line r = decimal (nat (r mod PROGNOSE_LIMIT)) @ [DELIMITER]"

lemma zodiac_length: "i < ZODIAC_NUM \<Longrightarrow> length (zodiac_names ! i) \<le> 6"
  by (auto simp: less_ZODIAC_NUM zodiac_names_def)

lemma length_request_line:
  "i < ZODIAC_NUM \<Longrightarrow> length request_type = 10 \<Longrightarrow>
     0 < length (request_line request_type i) \<and> length (request_line request_type i) \<le> 17"
  using zodiac_length [of i] by (simp add: request_line_def)

lemma length_prognosis: "length (decimal (nat (r mod PROGNOSE_LIMIT))) \<le> 3"
proof (rule length_decimal)
  have "r mod PROGNOSE_LIMIT < 256" by (simp add: PROGNOSE_LIMIT_def)
  then show "nat (r mod PROGNOSE_LIMIT) < 10 ^ 3" by (simp add: nat_less_iff)
qed simp

lemma blit_snoc: "length xs < length buf \<Longrightarrow> (blit buf 0 xs)[length xs := c] = blit buf 0 (xs @ [c])"
  by (simp add: blit_def list_update_append upd_conv_take_nth_drop Cons_nth_drop_Suc [symmetric])

lemma pbuf_init: "length buf = ASTROLOG_BUF_LEN + 1 \<Longrightarrow> pbuf_ok (buf[ASTROLOG_BUF_LEN := NUL])"
  by (simp add: pbuf_ok_def)

lemma put_request_ok:
  assumes i: "i < ZODIAC_NUM" and t: "length request_type = 10" and buf: "pbuf_ok buf"
  shows "put_request buf request_type i =
      Inr (blit buf 0 (request_line request_type i), length (request_line request_type i))"
    and "pbuf_ok (blit buf 0 (request_line request_type i))"
proof -
  let ?z = "zodiac_names ! i" and ?n = "10 + length (zodiac_names ! i)"
  have len: "length buf = 81" using buf by (simp add: pbuf_ok_def ASTROLOG_BUF_LEN_def)
  have z: "?n \<le> 16" using zodiac_length [OF i] by simp
  have "get_zodiac i = Some ?z" using i by (simp add: get_zodiac_def)
  moreover have "memcpy buf 0 request_type = Inr (blit buf 0 request_type)" using len t by simp
  moreover have "memcpy (blit buf 0 request_type) 10 ?z = Inr (blit buf 0 (request_type @ ?z))"
    using blit_append [of 0 request_type ?z buf] len t z by simp
  moreover have "arr_set (blit buf 0 (request_type @ ?z)) ?n DELIMITER =
      Inr (blit buf 0 (request_line request_type i))"
    using blit_snoc [of "request_type @ ?z" buf DELIMITER] len t z by (simp add: request_line_def)
  ultimately show "put_request buf request_type i =
      Inr (blit buf 0 (request_line request_type i), length (request_line request_type i))"
    using t by (simp add: put_request_def Let_def request_line_def)
  show "pbuf_ok (blit buf 0 (request_line request_type i))"
    by (rule pbuf_blit [OF buf]) (use length_request_line [OF i t] in \<open>simp add: ASTROLOG_BUF_LEN_def\<close>)
qed

text \<open>What sending the first \<open>n\<close> bytes of the buffer leads to.\<close>

lemma send_line_ok:
  assumes buf: "pbuf_ok buf" and n: "0 < n" "n \<le> ASTROLOG_BUF_LEN"
  obtains ok buf' sk' k where "send_line sk buf n = Inr (ok, buf', sk')" and "pbuf_ok buf'" and "rx sk' = rx sk"
    and "sent sk' = sent sk @ take k buf" and "k \<le> n" and "ok \<longleftrightarrow> k = n"
    and "\<forall>dss. peer sk dss \<longrightarrow> ok \<and> peer sk' dss"
proof -
  have len: "n \<le> length buf" and i: "n - 1 < ASTROLOG_BUF_LEN" using buf n by (simp_all add: pbuf_ok_def)
  obtain r sk' k where send: "send_all sk buf n = Inr (r, sk')" "rx sk' = rx sk" "sent sk' = sent sk @ take k buf"
    "k \<le> n" "r = 0 \<longleftrightarrow> k = n"
    by (rule send_all_cases [OF len, of sk])
  let ?b = "if k = n then buf[n - 1 := NUL] else buf"
  have "pbuf_ok (buf[n - 1 := NUL])" by (rule pbuf_set [OF buf i])
  then have run: "send_line sk buf n = Inr (k = n, ?b, sk')" and b: "pbuf_ok ?b"
    using send(1,5) len n(1) buf by (simp_all add: send_line_def pbuf_log)
  have "k = n \<and> peer sk' dss" if "peer sk dss" for dss
  proof -
    have "tx sk = []" using that by (simp add: peer_def)
    from send_all_whole [OF this len] send(1,5) that show ?thesis by (simp add: peer_send)
  qed
  with that [OF run b send(2,3,4)] show thesis by simp
qed

section \<open>The contract of an exchange\<close>

text \<open>
  With the lines \<open>ls\<close> to be sent: a part of them from the start is sent, all of them if the exchange
  succeeds, which then has also read exactly one line; a peer that replies makes it succeed.
\<close>

definition exchanged :: "string list \<Rightarrow> sock \<Rightarrow> int \<Rightarrow> sock \<Rightarrow> bool" where
  "exchanged ls sk ret sk' \<longleftrightarrow> (ret = 0 \<or> ret = 1) \<and>
     (\<exists>out. prefix out (concat ls) \<and> sent sk' = sent sk @ out \<and> (ret = 0 \<longrightarrow> out = concat ls)) \<and>
     (ret = 0 \<longrightarrow> (\<exists>l. is_line l \<and> length l \<le> ASTROLOG_BUF_LEN \<and> stream (rx sk) = l @ stream (rx sk'))) \<and>
     (\<forall>ds dss. peer sk (ds # dss) \<longrightarrow> ret = 0 \<and> peer sk' dss)"

lemma exchangedI:
  assumes "ret = 0 \<or> ret = 1" and "prefix out (concat ls)" and "sent sk' = sent sk @ out"
    and "ret = 0 \<Longrightarrow> out = concat ls"
    and "ret = 0 \<Longrightarrow> \<exists>l. is_line l \<and> length l \<le> ASTROLOG_BUF_LEN \<and> stream (rx sk) = l @ stream (rx sk')"
    and "\<And>ds dss. peer sk (ds # dss) \<Longrightarrow> ret = 0 \<and> peer sk' dss"
  shows "exchanged ls sk ret sk'"
  using assms unfolding exchanged_def by blast

text \<open>The common end of both exchanges: after the reply.\<close>

lemma take_prefix_of: "k \<le> n \<Longrightarrow> take n buf = l \<Longrightarrow> prefix (take k buf) l"
  by (metis min.absorb1 take_is_prefix take_take)

lemma ordinary_client_ok:
  assumes i: "i < ZODIAC_NUM" and buf0: "length buf0 = ASTROLOG_BUF_LEN + 1"
  shows "\<exists>ret sk'. ordinary_client buf0 sk i = Inr (ret, sk') \<and>
    exchanged [request_line CLIENT_REQUEST_TYPE i] sk ret sk'"
proof -
  let ?l = "request_line CLIENT_REQUEST_TYPE i" and ?buf = "buf0[ASTROLOG_BUF_LEN := NUL]"
  have t: "length CLIENT_REQUEST_TYPE = 10" by (simp add: c_consts)
  note put = put_request_ok [OF i t pbuf_init [OF buf0]] and len = length_request_line [OF i t]
  have n: "0 < length ?l" "length ?l \<le> ASTROLOG_BUF_LEN" using len by (simp_all add: ASTROLOG_BUF_LEN_def)
  obtain ok b sk1 k where send: "send_line sk (blit ?buf 0 ?l) (length ?l) = Inr (ok, b, sk1)" "pbuf_ok b"
    "rx sk1 = rx sk" "sent sk1 = sent sk @ take k (blit ?buf 0 ?l)" "k \<le> length ?l" "ok \<longleftrightarrow> k = length ?l"
    "\<forall>dss. peer sk dss \<longrightarrow> ok \<and> peer sk1 dss"
    by (rule send_line_ok [OF put(2) n, of sk])
  have pre: "prefix (take k (blit ?buf 0 ?l)) (concat [?l])" using take_prefix_of [OF send(5) take_blit_0] by simp
  have run0: "arr_set buf0 ASTROLOG_BUF_LEN NUL = Inr ?buf" using buf0 by simp
  show ?thesis
  proof (cases ok)
    case False
    then have run: "ordinary_client buf0 sk i = Inr (1, sk1)"
      by (simp add: ordinary_client_def run0 put(1) send(1))
    have "exchanged [?l] sk 1 sk1"
      by (rule exchangedI [OF _ pre send(4)]) (use False send(7) in auto)
    with run show ?thesis by blast
  next
    case True
    then have out: "take k (blit ?buf 0 ?l) = concat [?l]" using send(6) by simp
    show ?thesis
    proof (cases rule: recv_line_cases [OF send(2), of sk1])
      case (1 l sk2)
      let ?b2 = "(blit b 0 l)[length l - 1 := NUL]"
      have "pbuf_ok ?b2" by (rule pbuf_set [OF pbuf_blit [OF send(2) 1(3)] line_index [OF 1(2,3)]])
      moreover have "length l - 1 < length (blit b 0 l)" "0 < length l"
        using line_index [OF 1(2,3)] 1(3) send(2) line_last [OF 1(2)] by (simp_all add: pbuf_ok_def)
      ultimately have run: "ordinary_client buf0 sk i = Inr (0, sk2)"
        using True by (simp add: ordinary_client_def run0 put(1) send(1) 1(1) pbuf_log nat_diff_distrib)
      have "exchanged [?l] sk 0 sk2"
        by (rule exchangedI [OF _ prefix_order.refl])
           (use 1 send(3,4,7) out in auto)
      with run show ?thesis by blast
    next
      case (2 r b' sk2)
      then have run: "ordinary_client buf0 sk i = Inr (1, sk2)"
        using True by (auto simp: ordinary_client_def run0 put(1) send(1))
      have "exchanged [?l] sk 1 sk2"
        by (rule exchangedI [OF _ pre]) (use 2 send(4,7) in auto)
      with run show ?thesis by blast
    qed
  qed
qed

lemma blit_set_last:
  assumes "length xs < length buf"
  shows "(blit buf 0 (xs @ [c]))[length xs := d] = blit buf 0 (xs @ [d])"
  unfolding blit_snoc [OF assms, symmetric] by simp

lemma star_client_ok:
  assumes i: "i < ZODIAC_NUM" and buf0: "length buf0 = ASTROLOG_BUF_LEN + 1"
  shows "\<exists>ret sk'. star_client r buf0 sk i = Inr (ret, sk') \<and>
    exchanged [request_line STAR_REQUEST_TYPE i, prognosis_line r] sk ret sk'"
proof -
  let ?l = "request_line STAR_REQUEST_TYPE i" and ?buf = "buf0[ASTROLOG_BUF_LEN := NUL]"
  let ?d = "decimal (nat (r mod PROGNOSE_LIMIT))" and ?p = "prognosis_line r"
  have t: "length STAR_REQUEST_TYPE = 10" by (simp add: c_consts)
  note put = put_request_ok [OF i t pbuf_init [OF buf0]] and len = length_request_line [OF i t]
  have n: "0 < length ?l" "length ?l \<le> ASTROLOG_BUF_LEN" using len by (simp_all add: ASTROLOG_BUF_LEN_def)
  have np: "0 < length ?p" "length ?p \<le> ASTROLOG_BUF_LEN" "length ?p = length ?d + 1"
    using length_prognosis [of r] by (simp_all add: prognosis_line_def ASTROLOG_BUF_LEN_def)
  obtain ok b sk1 k where send: "send_line sk (blit ?buf 0 ?l) (length ?l) = Inr (ok, b, sk1)" "pbuf_ok b"
    "rx sk1 = rx sk" "sent sk1 = sent sk @ take k (blit ?buf 0 ?l)" "k \<le> length ?l" "ok \<longleftrightarrow> k = length ?l"
    "\<forall>dss. peer sk dss \<longrightarrow> ok \<and> peer sk1 dss"
    by (rule send_line_ok [OF put(2) n, of sk])
  have pre: "prefix (take k (blit ?buf 0 ?l)) (concat [?l, ?p])"
    using take_prefix_of [OF send(5) take_blit_0] by (simp add: prefix_prefix)
  have run0: "arr_set buf0 ASTROLOG_BUF_LEN NUL = Inr ?buf" using buf0 by simp
  show ?thesis
  proof (cases ok)
    case False
    then have run: "star_client r buf0 sk i = Inr (1, sk1)"
      by (simp add: star_client_def run0 put(1) send(1))
    have "exchanged [?l, ?p] sk 1 sk1"
      by (rule exchangedI [OF _ pre send(4)]) (use False send(7) in auto)
    with run show ?thesis by blast
  next
    case ok: True
    then have out1: "sent sk1 = sent sk @ ?l" using send(4,6) by simp
    let ?b1 = "blit b 0 ?p"
    have lb: "length b = 81" using send(2) by (simp add: pbuf_ok_def ASTROLOG_BUF_LEN_def)
    have cpy: "memcpy b 0 (?d @ [NUL]) = Inr (blit b 0 (?d @ [NUL]))"
      using lb length_prognosis [of r] by simp
    have set: "arr_set (blit b 0 (?d @ [NUL])) (length ?d) DELIMITER = Inr ?b1"
      using blit_set_last [of ?d b NUL DELIMITER] lb length_prognosis [of r] by (simp add: prognosis_line_def)
    have b1: "pbuf_ok ?b1" by (rule pbuf_blit [OF send(2) np(2)])
    obtain ok2 b2 sk2 k2 where send2: "send_line sk1 ?b1 (length ?p) = Inr (ok2, b2, sk2)" "pbuf_ok b2"
      "rx sk2 = rx sk1" "sent sk2 = sent sk1 @ take k2 ?b1" "k2 \<le> length ?p" "ok2 \<longleftrightarrow> k2 = length ?p"
      "\<forall>dss. peer sk1 dss \<longrightarrow> ok2 \<and> peer sk2 dss"
      by (rule send_line_ok [OF b1 np(1,2), of sk1])
    have pre2: "prefix (?l @ take k2 ?b1) (concat [?l, ?p])"
      using take_prefix_of [OF send2(5) take_blit_0] by simp
    have out2: "sent sk2 = sent sk @ ?l @ take k2 ?b1" using out1 send2(4) by simp
    have "send_line sk1 ?b1 (Suc (length ?d)) = Inr (ok2, b2, sk2)" using send2(1) np(3) by simp
    note head = star_client_def run0 put(1) send(1) bindc_simps split Let_def cpy set this
    show ?thesis
    proof (cases ok2)
      case False
      then have run: "star_client r buf0 sk i = Inr (1, sk2)" using ok by (simp add: head)
      have "exchanged [?l, ?p] sk 1 sk2"
        by (rule exchangedI [OF _ pre2 out2]) (use False send(7) send2(7) in auto)
      with run show ?thesis by blast
    next
      case ok2: True
      then have out: "?l @ take k2 ?b1 = concat [?l, ?p]" using send2(6) by simp
      show ?thesis
      proof (cases rule: recv_line_cases [OF send2(2), of sk2])
        case (1 l sk3)
        let ?b3 = "blit b2 0 l"
        have "pbuf_ok (?b3[length l - 1 := NUL])"
          by (rule pbuf_set [OF pbuf_blit [OF send2(2) 1(3)] line_index [OF 1(2,3)]])
        moreover have fit: "length l - 1 < length ?b3" "0 < length l" "length STAR_REPLY_FAILURE \<le> length ?b3"
          using line_index [OF 1(2,3)] 1(3) send2(2) line_last [OF 1(2)]
          by (simp_all add: pbuf_ok_def c_consts)
        moreover from fit(3) obtain filtered where
          "(if size_t (int (length l)) = length STAR_REPLY_FAILURE then
              bindc (mem_read ?b3 0 (length STAR_REPLY_FAILURE)) (\<lambda>d. Inr (d = STAR_REPLY_FAILURE))
            else Inr False) = Inr filtered"
          by (cases "size_t (int (length l)) = length STAR_REPLY_FAILURE") simp_all
        ultimately have run: "star_client r buf0 sk i = Inr (0, sk3)"
          using ok ok2 by (simp add: head 1(1) pbuf_log nat_diff_distrib del: bindc_eq_Inr)
        have "exchanged [?l, ?p] sk 0 sk3"
          by (rule exchangedI [OF _ prefix_order.refl])
             (use 1 send(3,7) send2(3,7) out out2 in auto)
        with run show ?thesis by blast
      next
        case (2 e b' sk3)
        then have run: "star_client r buf0 sk i = Inr (1, sk3)" using ok ok2 by (auto simp: head)
        have "exchanged [?l, ?p] sk 1 sk3"
          by (rule exchangedI [OF _ pre2]) (use 2 send(7) send2(7) out2 in auto)
        with run show ?thesis by blast
      qed
    qed
  qed
qed

section \<open>The loops\<close>

text \<open>
  The loops rest on the contract only: \<open>okay i\<close> are the calls it holds for, \<open>lines i\<close> what they send.
\<close>

locale client_exchange =
  fixes exchange :: "nat \<Rightarrow> sock \<Rightarrow> (int \<times> sock) c_result"
    and lines :: "nat \<Rightarrow> string list"
    and okay :: "nat \<Rightarrow> bool"
  assumes exchange_ok: "okay i \<Longrightarrow> \<exists>ret sk'. exchange i sk = Inr (ret, sk') \<and> exchanged (lines i) sk ret sk'"
begin

lemma exchanges_ok:
  "\<forall>i\<in>set is. okay i \<Longrightarrow> \<exists>ret sk' out. exchanges exchange is ret0 sk = Inr (ret, sk') \<and>
     (is \<noteq> [] \<longrightarrow> ret = 0 \<or> ret = 1) \<and> prefix out (concat (concat (map lines is))) \<and> sent sk' = sent sk @ out \<and>
     (is \<noteq> [] \<longrightarrow> ret = 0 \<longrightarrow> out = concat (concat (map lines is))) \<and>
     (\<forall>ess dss. is \<noteq> [] \<longrightarrow> length ess = length is \<longrightarrow> peer sk (ess @ dss) \<longrightarrow> ret = 0 \<and> peer sk' dss)"
proof (induction "is" arbitrary: ret0 sk)
  case Nil
  then show ?case by simp
next
  case (Cons i "is")
  have "okay i" using Cons.prems by simp
  from exchange_ok [OF this, of sk] obtain ret1 sk1 where one: "exchange i sk = Inr (ret1, sk1)"
    and ex: "exchanged (lines i) sk ret1 sk1" by blast
  then obtain out1 where out1: "prefix out1 (concat (lines i))" "sent sk1 = sent sk @ out1"
    "ret1 = 0 \<longrightarrow> out1 = concat (lines i)" and bit: "ret1 = 0 \<or> ret1 = 1"
    and p1: "\<forall>ds dss. peer sk (ds # dss) \<longrightarrow> ret1 = 0 \<and> peer sk1 dss" unfolding exchanged_def by blast
  show ?case
  proof (cases "ret1 = 0")
    case False
    then have run: "exchanges exchange (i # is) ret0 sk = Inr (ret1, sk1)" using one by simp
    have "ret1 = 0 \<and> peer sk1 dss" if "length ess = length (i # is)" "peer sk (ess @ dss)" for ess dss
      using that p1 False by (cases ess) auto
    then have p: "\<forall>ess dss. i # is \<noteq> [] \<longrightarrow> length ess = length (i # is) \<longrightarrow> peer sk (ess @ dss) \<longrightarrow>
        ret1 = 0 \<and> peer sk1 dss" by blast
    have "prefix out1 (concat (concat (map lines (i # is))))" using out1(1) by (simp add: prefix_prefix)
    moreover have "i # is \<noteq> [] \<longrightarrow> ret1 = 0 \<or> ret1 = 1" using bit by (rule impI)
    moreover have "i # is \<noteq> [] \<longrightarrow> ret1 = 0 \<longrightarrow> out1 = concat (concat (map lines (i # is)))" using False by (intro impI) (rule notE)
    ultimately show ?thesis using run p out1(2)
      by (intro exI [of _ ret1] exI [of _ sk1] exI [of _ out1]) (intro conjI; assumption)
  next
    case True
    then have run: "exchanges exchange (i # is) ret0 sk = exchanges exchange is 0 sk1" using one by simp
    have len: "peer sk1 (tl ess @ dss) \<and> length (tl ess) = length is"
      if "length ess = length (i # is)" "peer sk (ess @ dss)" for ess dss
      using that p1 by (cases ess) auto
    show ?thesis
    proof (cases "is = []")
      case Nil: True
      have "peer sk1 dss" if "length ess = length (i # is)" "peer sk (ess @ dss)" for ess dss
        using len [OF that] Nil that(1) by (cases ess) simp_all
      with run True out1 Nil show ?thesis
        by (intro exI [of _ 0] exI [of _ sk1] exI [of _ out1]) auto
    next
      case False
      from Cons.IH [of 0 sk1] Cons.prems obtain ret sk' out where
        rest: "exchanges exchange is 0 sk1 = Inr (ret, sk')" "ret = 0 \<or> ret = 1"
        "prefix out (concat (concat (map lines is)))" "sent sk' = sent sk1 @ out"
        "ret = 0 \<longrightarrow> out = concat (concat (map lines is))" and
        p: "\<forall>ess dss. length ess = length is \<longrightarrow> peer sk1 (ess @ dss) \<longrightarrow> ret = 0 \<and> peer sk' dss"
        using False by auto
      have all: "concat (concat (map lines (i # is))) = out1 @ concat (concat (map lines is))"
        using out1(3) True by simp
      have "\<forall>ess dss. i # is \<noteq> [] \<longrightarrow> length ess = length (i # is) \<longrightarrow> peer sk (ess @ dss) \<longrightarrow>
          ret = 0 \<and> peer sk' dss" using len p by blast
      moreover have "exchanges exchange (i # is) ret0 sk = Inr (ret, sk')" using run rest(1) by simp
      moreover have "prefix (out1 @ out) (concat (concat (map lines (i # is))))" unfolding all using rest(3) by simp
      moreover have "sent sk' = sent sk @ out1 @ out" using out1(2) rest(4) by simp
      moreover have "i # is \<noteq> [] \<longrightarrow> ret = 0 \<longrightarrow> out1 @ out = concat (concat (map lines (i # is)))"
        unfolding all using rest(5) by simp
      moreover have "i # is \<noteq> [] \<longrightarrow> ret = 0 \<or> ret = 1" using rest(2) by (rule impI)
      ultimately show ?thesis
        by (intro exI [of _ ret] exI [of _ sk'] exI [of _ "out1 @ out"]) (intro conjI; assumption)
    qed
  qed
qed

end

section \<open>Whole connections\<close>

text \<open>The outcome of a connecting function that is to send \<open>ls\<close> in \<open>k\<close> exchanges.\<close>

definition connection_done :: "con_setup \<Rightarrow> string list \<Rightarrow> nat \<Rightarrow> int \<times> sock option \<times> fds \<Rightarrow> bool" where
  "connection_done cs ls k x \<longleftrightarrow> (case x of (ret, res, ss) \<Rightarrow>
     ss = Map.empty \<and> (ret = 0 \<or> ret = 1) \<and>
     (case res of
        None \<Rightarrow> ret = 1 \<and> (cs_socket cs < 0 \<or> \<not> cs_connect_ok cs)
      | Some sk' \<Rightarrow> 0 \<le> cs_socket cs \<and> cs_connect_ok cs \<and>
          (\<exists>out. prefix out (concat ls) \<and> sent sk' = sent (cs_sock cs) @ out \<and> (ret = 0 \<longrightarrow> out = concat ls)) \<and>
          (\<forall>ess. length ess = k \<longrightarrow> peer (cs_sock cs) ess \<longrightarrow> ret = 0)))"

lemma with_connection_ok:
  assumes "\<exists>ret sk' out. run (cs_sock cs) = Inr (ret, sk') \<and> (ret = 0 \<or> ret = 1) \<and> prefix out (concat ls) \<and>
      sent sk' = sent (cs_sock cs) @ out \<and> (ret = 0 \<longrightarrow> out = concat ls) \<and>
      (\<forall>ess. length ess = k \<longrightarrow> peer (cs_sock cs) ess \<longrightarrow> ret = 0)"
  shows "\<exists>x. with_connection cs run = Inr x \<and> connection_done cs ls k x"
proof -
  from assms obtain ret sk' out where r: "run (cs_sock cs) = Inr (ret, sk')" "ret = 0 \<or> ret = 1"
    "prefix out (concat ls)" "sent sk' = sent (cs_sock cs) @ out" "ret = 0 \<longrightarrow> out = concat ls"
    "\<forall>ess. length ess = k \<longrightarrow> peer (cs_sock cs) ess \<longrightarrow> ret = 0" by blast
  have closed: "(put_at [cs_socket cs \<mapsto> cs_sock cs] (cs_socket cs) sk')(cs_socket cs := None) = Map.empty"
    by (simp add: put_at_def fun_eq_iff)
  show ?thesis
  proof (cases "cs_socket cs < 0 \<or> \<not> cs_connect_ok cs")
    case True
    then show ?thesis by (auto simp: with_connection_def connection_done_def Let_def)
  next
    case False
    then have "with_connection cs run = Inr (ret, Some sk', Map.empty)"
      using closed r(1) by (simp add: with_connection_def Let_def)
    moreover have "connection_done cs ls k (ret, Some sk', Map.empty)"
      using False r(2-6) unfolding connection_done_def by auto
    ultimately show ?thesis by blast
  qed
qed

context client_exchange
begin

lemma connection:
  assumes "\<forall>i\<in>set is. okay i" and "is \<noteq> []"
  shows "\<exists>x. with_connection cs (exchanges exchange is 1) = Inr x \<and>
    connection_done cs (concat (map lines is)) (length is) x"
proof (rule with_connection_ok)
  from exchanges_ok [OF assms(1), of 1 "cs_sock cs"] obtain ret sk' out where
    r: "exchanges exchange is 1 (cs_sock cs) = Inr (ret, sk')" "is \<noteq> [] \<longrightarrow> ret = 0 \<or> ret = 1"
    "prefix out (concat (concat (map lines is)))" "sent sk' = sent (cs_sock cs) @ out"
    "is \<noteq> [] \<longrightarrow> ret = 0 \<longrightarrow> out = concat (concat (map lines is))" and
    p: "\<forall>ess dss. is \<noteq> [] \<longrightarrow> length ess = length is \<longrightarrow> peer (cs_sock cs) (ess @ dss) \<longrightarrow> ret = 0 \<and> peer sk' dss"
    by blast
  have "ret = 0" if "length ess = length is" "peer (cs_sock cs) ess" for ess
  proof -
    have "peer (cs_sock cs) (ess @ [])" using that(2) by simp
    with p that(1) assms(2) show ?thesis by blast
  qed
  then have "\<forall>ess. length ess = length is \<longrightarrow> peer (cs_sock cs) ess \<longrightarrow> ret = 0" by blast
  moreover have "ret = 0 \<or> ret = 1" using r(2) assms(2) by blast
  moreover have "ret = 0 \<longrightarrow> out = concat (concat (map lines is))" using r(5) assms(2) by blast
  ultimately show "\<exists>ret sk' out. exchanges exchange is 1 (cs_sock cs) = Inr (ret, sk') \<and> (ret = 0 \<or> ret = 1) \<and>
      prefix out (concat (concat (map lines is))) \<and> sent sk' = sent (cs_sock cs) @ out \<and>
      (ret = 0 \<longrightarrow> out = concat (concat (map lines is))) \<and>
      (\<forall>ess. length ess = length is \<longrightarrow> peer (cs_sock cs) ess \<longrightarrow> ret = 0)"
    using r(1,3,4) by (intro exI [of _ ret] exI [of _ sk'] exI [of _ out]) (intro conjI; assumption)
qed

end

interpretation star_exchange:
  client_exchange "\<lambda>i sk. star_client (rands i) (bufs i) sk i"
    "\<lambda>i. [request_line STAR_REQUEST_TYPE i, prognosis_line (rands i)]"
    "\<lambda>i. i < ZODIAC_NUM \<and> length (bufs i) = ASTROLOG_BUF_LEN + 1" for rands :: "nat \<Rightarrow> int" and bufs
  by unfold_locales (auto intro: star_client_ok)

interpretation ordinary_exchange:
  client_exchange "\<lambda>i sk. ordinary_client (bufs i) sk i" "\<lambda>i. [request_line CLIENT_REQUEST_TYPE i]"
    "\<lambda>i. i < ZODIAC_NUM \<and> length (bufs i) = ASTROLOG_BUF_LEN + 1" for bufs
  by unfold_locales (auto intro: ordinary_client_ok)

interpretation harmful_exchange:
  client_exchange "\<lambda>i sk. ordinary_client (bufs i) sk (size_t (rands (2 * i)) mod ZODIAC_NUM)"
    "\<lambda>i. [request_line CLIENT_REQUEST_TYPE (size_t (rands (2 * i)) mod ZODIAC_NUM)]"
    "\<lambda>i. length (bufs i) = ASTROLOG_BUF_LEN + 1" for rands :: "nat \<Rightarrow> int" and bufs
  by unfold_locales (auto intro: ordinary_client_ok simp: ZODIAC_NUM_def)

end
