(* ===== verification/Client_Props.thy ===== *)
theory Client_Props
  imports Client_Correct Protocol_Spec
begin

text \<open>
  The properties of the client: what its three forms send and when they succeed, that the server's protocol
  understands it, the processes of the harmful client and the choice of \<open>main\<close>.
\<close>

definition star_lines :: "(nat \<Rightarrow> int) \<Rightarrow> nat \<Rightarrow> string list" where
  "star_lines rands i = [request_line STAR_REQUEST_TYPE i, prognosis_line (rands i)]"

definition ex_setup :: con_setup where
  "ex_setup = \<lparr>cs_socket = 3, cs_connect_ok = True, cs_sock = \<lparr>rx = [], tx = [], sent = []\<rparr>\<rparr>"

section \<open>What is sent\<close>

text \<open>
  C20. \<open>star_client_all\<close> has no undefined behaviour and closes its descriptor. It sends for every zodiac in
  order the request line and a prognosis line, a part of this text from its start if it fails; its exit
  code is 0 only if all was sent, and is 0 if the peer replies with a line to each.
\<close>
theorem star_publishes:
  assumes "\<forall>i. length (bufs i) = ASTROLOG_BUF_LEN + 1"
  shows "\<exists>x. star_client_all rands bufs cs = Inr x \<and>
    connection_done cs (concat (map (star_lines rands) [0..<ZODIAC_NUM])) ZODIAC_NUM x"
proof -
  have ok: "\<forall>i\<in>set [0..<ZODIAC_NUM]. i < ZODIAC_NUM \<and> length (bufs i) = ASTROLOG_BUF_LEN + 1"
    and ne: "[0..<ZODIAC_NUM] \<noteq> []" and len: "length [0..<ZODIAC_NUM] = ZODIAC_NUM"
    using assms by (simp_all add: ZODIAC_NUM_def)
  from star_exchange.connection [OF ok ne, where rands = rands and cs = cs] show ?thesis
    unfolding star_client_all_def star_lines_def len .
qed

theorem star_publishes_witness:
  "\<exists>x. star_client_all (\<lambda>_. 300) (\<lambda>_. replicate 81 NUL) ex_setup = Inr x"
  using star_publishes [of "\<lambda>_. replicate 81 NUL" "\<lambda>_. 300" ex_setup] by (auto simp: ASTROLOG_BUF_LEN_def)

text \<open>
  The same for the clients that ask: \<open>ordinary_client_all\<close> sends one request for every zodiac in
  order, a child of the harmful client ten requests for the zodiacs it draws.
\<close>
lemma clients_ask:
  assumes "\<forall>i. length (bufs i) = ASTROLOG_BUF_LEN + 1"
  shows "(\<exists>x. ordinary_client_all bufs cs = Inr x \<and>
      connection_done cs (map (request_line CLIENT_REQUEST_TYPE) [0..<ZODIAC_NUM]) ZODIAC_NUM x) \<and>
    (\<exists>x. harmful_client_child rands bufs cs = Inr x \<and>
      connection_done cs (map (\<lambda>i. request_line CLIENT_REQUEST_TYPE (size_t (rands (2 * i)) mod ZODIAC_NUM))
        [0..<RETRIES]) RETRIES x)"
proof -
  have single: "concat (map (\<lambda>i. [f i]) xs) = map f xs" for f :: "nat \<Rightarrow> string" and xs by (induction xs) simp_all
  have ok: "\<forall>i\<in>set [0..<ZODIAC_NUM]. i < ZODIAC_NUM \<and> length (bufs i) = ASTROLOG_BUF_LEN + 1"
    "\<forall>i\<in>set [0..<RETRIES]. length (bufs i) = ASTROLOG_BUF_LEN + 1" using assms by simp_all
  have ne: "[0..<ZODIAC_NUM] \<noteq> []" "[0..<RETRIES] \<noteq> []" by (simp_all add: ZODIAC_NUM_def RETRIES_def)
  have len: "length [0..<ZODIAC_NUM] = ZODIAC_NUM" "length [0..<RETRIES] = RETRIES" by simp_all
  show ?thesis
    using ordinary_exchange.connection [OF ok(1) ne(1), where cs = cs] harmful_exchange.connection [OF ok(2) ne(2), where rands = rands and cs = cs]
    unfolding ordinary_client_all_def harmful_client_child_def single len by (rule conjI)
qed

section \<open>Client and server agree\<close>

lemma request_lines:
  assumes "i < ZODIAC_NUM"
  shows "is_line (request_line STAR_REQUEST_TYPE i)" "is_line (request_line CLIENT_REQUEST_TYPE i)"
    "length (request_line STAR_REQUEST_TYPE i) \<le> ASTROLOG_BUF_LEN"
    "length (request_line CLIENT_REQUEST_TYPE i) \<le> ASTROLOG_BUF_LEN"
    "classify (request_line STAR_REQUEST_TYPE i) = Star_request i"
    "classify (request_line CLIENT_REQUEST_TYPE i) = Client_request i"
proof -
  have z: "DELIMITER \<notin> set (zodiac_names ! i)" "length (zodiac_names ! i) \<le> 6"
    using assms by (auto simp: less_ZODIAC_NUM zodiac_names_def DELIMITER_def)
  then show "is_line (request_line STAR_REQUEST_TYPE i)" "is_line (request_line CLIENT_REQUEST_TYPE i)"
    by (simp_all add: request_line_def is_line_def butlast_append STAR_REQUEST_TYPE_def CLIENT_REQUEST_TYPE_def
        DELIMITER_def)
  show "length (request_line STAR_REQUEST_TYPE i) \<le> ASTROLOG_BUF_LEN"
    "length (request_line CLIENT_REQUEST_TYPE i) \<le> ASTROLOG_BUF_LEN"
    using z(2) by (simp_all add: request_line_def c_consts)
  show "classify (request_line STAR_REQUEST_TYPE i) = Star_request i"
    "classify (request_line CLIENT_REQUEST_TYPE i) = Client_request i"
    using classify_star [OF assms, of "[]"] classify_client [OF assms, of "[]"] by (simp_all add: request_line_def)
qed

lemma prognosis_is_line: "is_line (prognosis_line r)" "length (prognosis_line r) \<le> ASTROLOG_BUF_LEN"
proof -
  have "DELIMITER \<notin> set (decimal n)" for n
    using decimal_digits [of n] digit_facts(6) by (fastforce simp: DELIMITER_def)
  then show "is_line (prognosis_line r)" by (simp add: prognosis_line_def is_line_def)
  show "length (prognosis_line r) \<le> ASTROLOG_BUF_LEN"
    using length_prognosis [of r] by (simp add: prognosis_line_def ASTROLOG_BUF_LEN_def)
qed

lemma star_understood:
  assumes "i < ZODIAC_NUM"
  shows "consume (Reading []) ps (concat (star_lines rands i)) =
    (Thanking STAR_REPLY_SUCCESS, ps[i := Some (prognosis_line (rands i))], [])"
  using consume_line [OF _ request_lines(1) [OF assms] request_lines(3) [OF assms], of "Reading []"]
    consume_line [OF _ prognosis_is_line, of "Awaiting i []" ps "rands i" "[]"]
    on_line(1) [OF request_lines(1) [OF assms]] on_line(2) [OF prognosis_is_line(1)] request_lines(5) [OF assms]
  by (simp add: star_lines_def consume_end)

lemma client_understood:
  assumes "i < ZODIAC_NUM"
  shows "consume (Reading []) ps (request_line CLIENT_REQUEST_TYPE i) = (Answering (reply_of (ps ! i)), ps, [])"
  using consume_line [OF _ request_lines(2) [OF assms] request_lines(4) [OF assms], of "Reading []" ps "[]"]
    on_line(1) [OF request_lines(2) [OF assms]] request_lines(6) [OF assms]
  by (simp add: consume_end)

text \<open>
  C19. Client and server agree on the protocol: when the exchange of a star and, later, that of an
  ordinary client for the same zodiac succeed, then the server's protocol machine, fed with what they
  have sent, stores the star's number, thanks the star, and answers the client with exactly this
  number.
\<close>
theorem publish_then_ask:
  assumes "i < ZODIAC_NUM" and "length ps = ZODIAC_NUM"
    and "length buf1 = ASTROLOG_BUF_LEN + 1" and "length buf2 = ASTROLOG_BUF_LEN + 1"
    and "star_client r buf1 sk1 i = Inr (0, sk1')" and "sent sk1' = sent sk1 @ out1"
    and "ordinary_client buf2 sk2 i = Inr (0, sk2')" and "sent sk2' = sent sk2 @ out2"
  shows "\<exists>ps'. consume (Reading []) ps out1 = (Thanking STAR_REPLY_SUCCESS, ps', []) \<and>
    consume (Reading []) ps' out2 = (Answering (decimal (nat (r mod 256)) @ [DELIMITER]), ps', [])"
proof -
  let ?p = "prognosis_line r"
  have "sent sk1' = sent sk1 @ concat [request_line STAR_REQUEST_TYPE i, ?p]"
    using star_client_ok [OF assms(1,3), of r sk1] assms(5) by (auto simp: exchanged_def)
  then have 1: "out1 = concat (star_lines (\<lambda>_. r) i)" using assms(6) by (simp add: star_lines_def)
  have "sent sk2' = sent sk2 @ concat [request_line CLIENT_REQUEST_TYPE i]"
    using ordinary_client_ok [OF assms(1,4), of sk2] assms(7) by (auto simp: exchanged_def)
  then have 2: "out2 = request_line CLIENT_REQUEST_TYPE i" using assms(8) by simp
  let ?ps = "ps[i := Some ?p]"
  have "reply_of (?ps ! i) = decimal (nat (r mod 256)) @ [DELIMITER]"
    using assms(1,2) by (simp add: reply_of_def prognosis_line_def PROGNOSE_LIMIT_def)
  then show ?thesis
    unfolding 1 2 using star_understood [OF assms(1), of ps "\<lambda>_. r"] client_understood [OF assms(1), of ?ps]
    by (intro exI [of _ ?ps]) simp
qed

definition ex_thanked :: sock where
  "ex_thanked = \<lparr>rx = [Chunk STAR_REPLY_SUCCESS], tx = [], sent = []\<rparr>"

lemma ex_thanked_peer: "peer ex_thanked [[STAR_REPLY_SUCCESS]]"
  by (simp add: peer_def segments_ok_def ex_thanked_def is_line_def c_consts)

theorem publish_then_ask_witness:
  "\<exists>out1 out2 ps'. consume (Reading []) [None, None, None] out1 = (Thanking STAR_REPLY_SUCCESS, ps', []) \<and>
     consume (Reading []) ps' out2 = (Answering (decimal 44 @ [DELIMITER]), ps', [])"
proof -
  let ?b = "replicate 81 NUL"
  have i: "0 < ZODIAC_NUM" "length [None, None, None] = ZODIAC_NUM" "length ?b = ASTROLOG_BUF_LEN + 1"
    by (simp_all add: ZODIAC_NUM_def ASTROLOG_BUF_LEN_def)
  obtain sk1 where "star_client 300 ?b ex_thanked 0 = Inr (0, sk1)" and "\<exists>o1. sent sk1 = sent ex_thanked @ o1"
    using star_client_ok [OF i(1,3), of 300 ex_thanked] ex_thanked_peer by (auto simp: exchanged_def)
  moreover obtain sk2 where "ordinary_client ?b ex_thanked 0 = Inr (0, sk2)" and "\<exists>o2. sent sk2 = sent ex_thanked @ o2"
    using ordinary_client_ok [OF i(1,3), of ex_thanked] ex_thanked_peer by (auto simp: exchanged_def)
  ultimately show ?thesis using publish_then_ask [OF i(1,2,3,3), of 300] by fastforce
qed

section \<open>The processes\<close>

text \<open>
  The parent of the harmful client signals exactly the children it has created, all of them before its
  exit, and exits with 0 if and only if it could create all 10000; a child of it runs one connection.
\<close>
lemma harmful_parent_signals:
  assumes "\<forall>pids. ce_pids ce = Some pids \<longrightarrow> length pids = HARMFUL_CON_NUM"
    and "\<forall>i. length (ce_bufs ce i) = ASTROLOG_BUF_LEN + 1"
  shows "\<exists>res. harmful_client ce = Inr res \<and> (case res of
      Harm_parent ret signalled \<Rightarrow>
        (\<exists>n\<le>HARMFUL_CON_NUM. signalled = map (ce_fork ce) [0..<n] \<and> (\<forall>k<n. 0 < ce_fork ce k) \<and>
           (ret = 0 \<longleftrightarrow> n = HARMFUL_CON_NUM) \<and>
           (n < HARMFUL_CON_NUM \<longrightarrow> ce_pids ce = None \<or> ce_fork ce n < 0))
    | Client_exit ret sk ss \<Rightarrow> ss = Map.empty \<and>
        (\<exists>n<HARMFUL_CON_NUM. ce_fork ce n = 0 \<and> (\<forall>k<n. 0 < ce_fork ce k)))"
proof (cases "ce_pids ce")
  case None
  then show ?thesis by (auto simp: harmful_client_def HARMFUL_CON_NUM_def intro!: exI [of _ 0])
next
  case (Some pids)
  then have len: "length pids = HARMFUL_CON_NUM" using assms(1) by simp
  then have "0 + HARMFUL_CON_NUM \<le> length pids" by simp
  from fork_loop_ok [OF this, of "ce_fork ce" 1] obtain res where
    res: "fork_loop (ce_fork ce) HARMFUL_CON_NUM 0 pids 1 = Inr res"
    "forked (ce_fork ce) 0 HARMFUL_CON_NUM pids res" by blast
  show ?thesis
  proof (cases res)
    case In_child
    have "\<exists>x. harmful_client_child (ce_rands ce) (ce_bufs ce) (ce_setup ce) = Inr x \<and> (\<exists>ls. connection_done (ce_setup ce) ls RETRIES x)"
    proof -
      have ok: "\<forall>i\<in>set [0..<RETRIES]. length (ce_bufs ce i) = ASTROLOG_BUF_LEN + 1" using assms(2) by simp
      have ne: "[0..<RETRIES] \<noteq> []" "length [0..<RETRIES] = RETRIES" by (simp_all add: RETRIES_def)
      from harmful_exchange.connection [OF ok ne(1), where rands = "ce_rands ce" and cs = "ce_setup ce"] show ?thesis
        unfolding harmful_client_child_def ne(2) by blast
    qed
    then obtain ret sk ss where x: "harmful_client_child (ce_rands ce) (ce_bufs ce) (ce_setup ce) = Inr (ret, sk, ss)"
      "ss = Map.empty" by (auto simp: connection_done_def)
    with In_child res Some show ?thesis by (auto simp: harmful_client_def client_exit_def forked_def)
  next
    case (In_parent n pids' ret)
    with res(2) have p: "n \<le> HARMFUL_CON_NUM" "\<forall>k<n. 0 < ce_fork ce k"
      "n < HARMFUL_CON_NUM \<longrightarrow> ce_fork ce n < 0 \<and> ret = ce_fork ce n" "n \<le> length pids'"
      "take n pids' = map (ce_fork ce) [0..<n]" by (simp_all add: forked_def)
    from kill_children_ok [OF p(4), of "ce_kill ce"] obtain rep where
      "kill_children_procs (ce_kill ce) pids' n = Inr (map (ce_fork ce) [0..<n], rep)" using p(5) by auto
    then have "harmful_client ce = Inr (Harm_parent (if n = HARMFUL_CON_NUM then 0 else if ret < 0 then 1 else ret)
        (map (ce_fork ce) [0..<n]))" using Some res(1) In_parent by (simp add: harmful_client_def Let_def)
    with p(1-3) show ?thesis by (auto intro!: exI [of _ n])
  qed
qed

definition ex_env :: "(nat \<Rightarrow> int) \<Rightarrow> client_env" where
  "ex_env fork = \<lparr>ce_rands = \<lambda>_. 7, ce_bufs = \<lambda>_. replicate 81 NUL, ce_setup = ex_setup,
     ce_pids = Some (replicate HARMFUL_CON_NUM 0), ce_fork = fork, ce_kill = \<lambda>_. None\<rparr>"

text \<open>
  C21. \<open>main\<close> of the client runs the type its last argument names, and refuses the types from 3 on, but only
  below \<open>2 ^ 31\<close>: the argument goes through the \<open>int\<close> variable \<open>type\<close>, so the next \<open>2 ^ 31\<close> numbers are
  negative, pass the check, match no label, and the process exits successfully without doing anything.
\<close>
theorem client_main_types:
  assumes "n < 2 ^ 32"
  shows "client_main [prog, host, port, decimal n] ce =
    (if n = 0 then client_exit (star_client_all (ce_rands ce) (ce_bufs ce) (ce_setup ce))
     else if n = 1 then client_exit (ordinary_client_all (ce_bufs ce) (ce_setup ce))
     else if n = 2 then harmful_client ce
     else if n < 2 ^ 31 then Inr (Client_exit 1 None Map.empty)
     else Inr (Client_exit 0 None Map.empty))"
proof -
  have "n \<le> ULONG_MAX" using assms by (simp add: ULONG_MAX_def)
  from strtoul_decimal [OF this] have arg: "fst (strtoul ([prog, host, port, decimal n] ! 3)) = n"
    by (simp add: numeral_3_eq_3)
  have conv: "int_of_ulong n = (if n < 2 ^ 31 then int n else int n - 2 ^ 32)"
  proof (cases "n < 2 ^ 31")
    case True
    then show ?thesis by (simp add: int_of_ulong_def to_int32_def)
  next
    case False
    then have "(int n + 2 ^ 31 - 2 ^ 32) mod 2 ^ 32 = int n + 2 ^ 31 - 2 ^ 32"
      using assms by (intro mod_pos_pos_trivial) simp_all
    then have "(int n + 2 ^ 31) mod 2 ^ 32 = int n + 2 ^ 31 - 2 ^ 32" by (simp only: minus_mod_self2)
    with False show ?thesis by (simp add: int_of_ulong_def to_int32_def)
  qed
  show ?thesis
    unfolding client_main_def arg Let_def conv using assms by (simp add: CLIENT_ARGC_def)
qed

theorem client_main_types_witness:
  "client_main [''client'', ''127.0.0.1'', ''2000'', decimal 4294967295] (ex_env (\<lambda>_. 0)) =
     Inr (Client_exit 0 None Map.empty)"
  using client_main_types [of 4294967295 "''client''" "''127.0.0.1''" "''2000''" "ex_env (\<lambda>_. 0)"] by simp

end
