(* ===== verification/Asio_Common.thy ===== *)
theory Asio_Common
  imports Generic C_Library
begin

text \<open>
  What the three programs of \<open>boost_asio\<close> share: the constants and the string functions of
  \<open>include/common.h\<close>, and the part of Boost.Asio they use. Boost.Asio itself is not modelled: a program is
  the set of its completion handlers, and the completions with their error codes and bytes are arguments. A
  \<open>boost::asio::streambuf\<close> is the string of its readable bytes, which the standard stream functions
  take from its front and add to its end.
\<close>

section \<open>Constants\<close>

definition DELIM :: char where "DELIM = CHR 0x0A"

definition STAR_REQUEST_TYPE_cpp :: string where "STAR_REQUEST_TYPE_cpp = ''STARS SAY ''"
definition CLIENT_REQUEST_TYPE_cpp :: string where "CLIENT_REQUEST_TYPE_cpp = ''HOROSCOPE ''"
definition STAR_RESPONSE_SUCCESS :: string where "STAR_RESPONSE_SUCCESS = ''THANKS!''"
definition STAR_RESPONSE_FAILURE :: string where "STAR_RESPONSE_FAILURE = ''DENIED!''"
definition UNKNOWN_PROGNOSIS :: string where "UNKNOWN_PROGNOSIS = ''YOU ARE OUT OF LUCK!''"

definition ZodiacList :: "string list" where
  "ZodiacList =
     [''Aries'', ''Taurus'', ''Gemini'', ''Cancer'', ''Leo'', ''Virgo'',
      ''Libra'', ''Scorpio'', ''Sagittarius'', ''Capricorn'', ''Aquarius'', ''Pisces'']"

text \<open>Milliseconds.\<close>

definition ReadRequestTimeout :: int where "ReadRequestTimeout = 120000"
definition WriteRequestTimeout :: int where "WriteRequestTimeout = 120000"
definition ReadPrognosisTimeout :: int where "ReadPrognosisTimeout = 120000"
definition WritePrognosisTimeout :: int where "WritePrognosisTimeout = 120000"
definition ReadResponseTimeout :: int where "ReadResponseTimeout = 120000"
definition WriteResponseTimeout :: int where "WriteResponseTimeout = 120000"

section \<open>Strings\<close>

text \<open>\<open>s.compare (0, prefix.size (), prefix)\<close> is 0 if the first bytes of \<open>s\<close>, at most that many, are the prefix.\<close>

definition StartsWith :: "string \<Rightarrow> string \<Rightarrow> bool" where
  "StartsWith s p \<longleftrightarrow> take (length p) s = p"

text \<open>\<open>None\<close> for the result \<open>false\<close>, otherwise the value of the output argument.\<close>

definition FindZodiac :: "string \<Rightarrow> string option" where
  "FindZodiac s = List.find (StartsWith s) ZodiacList"

text \<open>A \<open>std::string\<close> made of a C string ends before its first NUL.\<close>

definition of_c_str :: "string \<Rightarrow> string" where
  "of_c_str s = takeWhile (\<lambda>c. c \<noteq> NUL) s"

text \<open>\<open>std::getline (is, line, DELIM)\<close>: the line and what is left in the buffer.\<close>

definition getline :: "string \<Rightarrow> string \<times> string" where
  "getline b = (takeWhile (\<lambda>c. c \<noteq> DELIM) b, drop 1 (dropWhile (\<lambda>c. c \<noteq> DELIM) b))"

text \<open>
  \<open>std::strtoull\<close> with base 0: after white space and a sign, \<open>0x\<close> and a hexadecimal digit announce base
  16, a zero base 8. The value, the rest \<open>endptr\<close> points to, and whether \<open>errno\<close> is \<open>ERANGE\<close>.
\<close>

definition hex_val :: "char \<Rightarrow> nat" where
  "hex_val c =
     (let n = of_char c in
      if 48 \<le> n \<and> n \<le> 57 then n - 48 else if 97 \<le> n \<and> n \<le> 102 then n - 87
      else if 65 \<le> n \<and> n \<le> 70 then n - 55 else 16)"

definition is_digit_in :: "nat \<Rightarrow> char \<Rightarrow> bool" where
  "is_digit_in base c \<longleftrightarrow> hex_val c < base"

fun number_base :: "string \<Rightarrow> nat \<times> string" where
  "number_base (a # b # c # s) =
     (if a = CHR ''0'' \<and> (b = CHR ''x'' \<or> b = CHR ''X'') \<and> is_digit_in 16 c then (16, c # s)
      else if a = CHR ''0'' then (8, a # b # c # s) else (10, a # b # c # s))"
| "number_base (a # s) = (if a = CHR ''0'' then 8 else 10, a # s)"
| "number_base [] = (10, [])"

definition strtoull0 :: "string \<Rightarrow> nat \<times> string \<times> bool" where
  "strtoull0 s =
     (case sign (dropWhile is_space s) of (neg, u) \<Rightarrow>
      case number_base u of (base, v) \<Rightarrow>
        let ds = takeWhile (is_digit_in base) v;
            n = foldl (\<lambda>n c. base * n + hex_val c) 0 ds;
            rest = dropWhile (is_digit_in base) v in
        if ds = [] then (0, s, False)
        else if n > ULONG_MAX then (ULONG_MAX, rest, True)
        else ((if neg then (2 ^ 64 - n) mod 2 ^ 64 else n), rest, False))"

text \<open>\<open>Convert<T>\<close>, \<open>None\<close> for the result \<open>false\<close>; the callers leave \<open>min\<close> and \<open>max\<close> at the limits of \<open>T\<close>.\<close>

definition Convert :: "string \<Rightarrow> nat \<Rightarrow> nat \<Rightarrow> nat option" where
  "Convert s min_val max_val =
     (case strtoull0 s of (tmp, endptr, err) \<Rightarrow>
        if endptr \<noteq> [] then None
        else if err then None
        else if tmp < min_val \<or> tmp > max_val then None
        else Some tmp)"

section \<open>Completions\<close>

text \<open>The error codes the handlers distinguish.\<close>

datatype error_code = No_error | Eof | Operation_aborted | Other_error

text \<open>
  The completion of an asynchronous operation on a socket: \<open>Read_done\<close> carries the bytes
  \<open>async_read_until\<close> has added to its buffer, \<open>Write_done\<close> how many bytes \<open>async_write\<close> has taken
  from it, \<open>Connect_done\<close> only its code; \<open>Deadline_done\<close> is the completion of \<open>async_wait\<close>.
\<close>

datatype completion =
  Read_done error_code string | Write_done error_code nat | Connect_done error_code | Deadline_done error_code

text \<open>
  What the documentation promises: a successful \<open>async_read_until\<close> leaves the delimiter in the buffer, a
  successful \<open>async_write\<close> has written the whole buffer, a failed one at most that.
\<close>

definition read_ok :: "string \<Rightarrow> error_code \<Rightarrow> string \<Rightarrow> bool" where
  "read_ok b ec d \<longleftrightarrow> (ec = No_error \<longrightarrow> DELIM \<in> set (b @ d))"

definition write_ok :: "string \<Rightarrow> error_code \<Rightarrow> nat \<Rightarrow> bool" where
  "write_ok b ec n \<longleftrightarrow> (if ec = No_error then n = length b else n \<le> length b)"

section \<open>Facts\<close>

lemma getline_append [simp]: "DELIM \<notin> set l \<Longrightarrow> getline (l @ DELIM # r) = (l, r)"
  by (simp add: getline_def takeWhile_append dropWhile_append)

lemma getlineE:
  assumes "DELIM \<in> set b"
  obtains l r where "b = l @ DELIM # r" and "DELIM \<notin> set l" and "getline b = (l, r)"
proof -
  from split_list_first [OF assms] obtain l r where "b = l @ DELIM # r" "DELIM \<notin> set l" by blast
  with that show thesis by simp
qed

lemma StartsWith_append [simp]: "StartsWith (p @ s) p"
  by (simp add: StartsWith_def)

lemma StartsWith_iff: "StartsWith s p \<longleftrightarrow> (\<exists>r. s = p @ r)"
  by (metis StartsWith_append StartsWith_def append_take_drop_id)

text \<open>The names differ in their first three letters.\<close>

lemma zodiacs_three:
  "\<forall>z\<in>set ZodiacList. 3 \<le> length z \<and> (\<forall>z'\<in>set ZodiacList. take 3 z = take 3 z' \<longrightarrow> z = z')"
  by code_simp

lemma zodiacs_apart:
  assumes "z \<in> set ZodiacList" and "z' \<in> set ZodiacList" and "StartsWith (z @ r) z'"
  shows "z = z'"
proof -
  have len: "3 \<le> length z" "3 \<le> length z'" using assms(1,2) zodiacs_three by blast+
  from assms(3) obtain r' where e: "z @ r = z' @ r'" by (auto simp: StartsWith_iff)
  have "take 3 z = take 3 (z @ r)" using len(1) by simp
  also have "\<dots> = take 3 z'" using len(2) by (simp add: e)
  finally show ?thesis using assms(1,2) zodiacs_three by blast
qed

lemma FindZodiac_Some: "FindZodiac s = Some z \<longleftrightarrow> z \<in> set ZodiacList \<and> StartsWith s z"
proof
  assume "FindZodiac s = Some z"
  then show "z \<in> set ZodiacList \<and> StartsWith s z" by (auto simp: FindZodiac_def find_Some_iff)
next
  assume z: "z \<in> set ZodiacList \<and> StartsWith s z"
  then obtain r where s: "s = z @ r" by (auto simp: StartsWith_iff)
  from z obtain z' where z': "FindZodiac s = Some z'"
    by (cases "FindZodiac s") (auto simp: FindZodiac_def find_None_iff)
  then have "z' \<in> set ZodiacList" "StartsWith s z'" by (auto simp: FindZodiac_def find_Some_iff)
  with zodiacs_apart [of z z' r] z s z' show "FindZodiac s = Some z" by simp
qed

lemma FindZodiac_None: "FindZodiac s = None \<longleftrightarrow> (\<forall>z\<in>set ZodiacList. \<not> StartsWith s z)"
  by (auto simp: FindZodiac_def find_None_iff)

end
