(* ===== verification/Async_Object.thy ===== *)
theory Async_Object
  imports Asio_Common
begin

text \<open>
  The contract the four classes of \<open>boost_asio\<close> share: an object is driven by completions; while it is open some
  operation is in flight, and once it is closed its handlers start nothing, so that at
  most the completions of what was in flight are left. Those are what keeps the object alive and the
  \<open>io_context\<close> running.
\<close>

fun async_run :: "('ev \<Rightarrow> 's \<Rightarrow> 's) \<Rightarrow> 'ev list \<Rightarrow> 's \<Rightarrow> 's" where
  "async_run complete [] s = s"
| "async_run complete (e # es) s = async_run complete es (complete e s)"

fun async_may :: "('s \<Rightarrow> 'ev \<Rightarrow> bool) \<Rightarrow> ('ev \<Rightarrow> 's \<Rightarrow> 's) \<Rightarrow> 's \<Rightarrow> 'ev list \<Rightarrow> bool" where
  "async_may may complete s [] = True"
| "async_may may complete s (e # es) = (may s e \<and> async_may may complete (complete e s) es)"

lemma async_run_append: "async_run f (es @ es') s = async_run f es' (async_run f es s)"
  by (induction es arbitrary: s) simp_all

lemma async_may_append:
  "async_may may f s (es @ es') \<longleftrightarrow> async_may may f s es \<and> async_may may f (async_run f es s) es'"
  by (induction es arbitrary: s) simp_all

locale async_object =
  fixes may :: "'s \<Rightarrow> 'ev \<Rightarrow> bool"
    and complete :: "'ev \<Rightarrow> 's \<Rightarrow> 's"
    and inv :: "'s \<Rightarrow> bool"
    and closed :: "'s \<Rightarrow> bool"
    and handlers :: "'s \<Rightarrow> nat"
  assumes step: "inv s \<Longrightarrow> may s e \<Longrightarrow> inv (complete e s)"
    and open_busy: "inv s \<Longrightarrow> \<not> closed s \<Longrightarrow> 0 < handlers s"
    and closed_few: "inv s \<Longrightarrow> handlers s \<le> 2"
    and closed_step: "inv s \<Longrightarrow> closed s \<Longrightarrow> may s e \<Longrightarrow>
      closed (complete e s) \<and> Suc (handlers (complete e s)) = handlers s"
begin

lemma run_inv: "inv s \<Longrightarrow> async_may may complete s es \<Longrightarrow> inv (async_run complete es s)"
  by (induction es arbitrary: s) (simp_all add: step)

lemma run_closed:
  "inv s \<Longrightarrow> closed s \<Longrightarrow> async_may may complete s es \<Longrightarrow>
     closed (async_run complete es s) \<and> handlers (async_run complete es s) + length es = handlers s"
proof (induction es arbitrary: s)
  case (Cons e es)
  then have "may s e" and "async_may may complete (complete e s) es" by simp_all
  with Cons.IH [of "complete e s"] closed_step [OF Cons.prems(1,2)] step [OF Cons.prems(1)] show ?case by force
qed simp

lemma drains:
  assumes "inv s" and "async_may may complete s (es @ es')"
  shows "let s' = async_run complete es s in
    if closed s' then length es' \<le> 2 else 0 < handlers s'"
proof -
  let ?s = "async_run complete es s"
  from assms(2) have m: "async_may may complete s es" "async_may may complete ?s es'"
    by (simp_all add: async_may_append)
  note inv' = run_inv [OF assms(1) m(1)]
  show ?thesis
  proof (cases "closed ?s")
    case True
    from run_closed [OF inv' True m(2)] closed_few [OF inv'] True show ?thesis by (simp add: Let_def)
  qed (use open_busy [OF inv'] in \<open>simp add: Let_def\<close>)
qed

end

end
