(* ===== verification/Asio_Client.thy ===== *)
theory Asio_Client
  imports Asio_Common Async_Object
begin

text \<open>
  The client of \<open>boost_asio\<close> (\<open>src/client.cpp\<close>): the classes \<open>Star\<close> and \<open>Human\<close>, whose handlers follow one
  exchange each, and the three forms of the program.
\<close>

section \<open>What both classes repeat\<close>

text \<open>
  \<open>cl_open\<close>: whether the socket is open; a connected socket is, one whose connection failed is not. The
  type of the operations is that of the class.
\<close>

record 'op client_object =
  cl_open :: bool
  cl_buffer :: string
  cl_deadline :: "int option"
  cl_ops :: "'op list"
  cl_waits :: nat
  cl_written :: string

definition cl_stop :: "('op, 'z) client_object_scheme \<Rightarrow> ('op, 'z) client_object_scheme" where
  "cl_stop c = c\<lparr>cl_open := False, cl_deadline := None\<rparr>"

definition cl_stopped :: "('op, 'z) client_object_scheme \<Rightarrow> bool" where
  "cl_stopped c = (\<not> cl_open c)"

definition cl_begin :: "int \<Rightarrow> 'op \<Rightarrow> ('op, 'z) client_object_scheme \<Rightarrow> ('op, 'z) client_object_scheme" where
  "cl_begin timeout opn c = c\<lparr>cl_deadline := Some timeout, cl_ops := cl_ops c @ [opn]\<rparr>"

definition cl_startWaitDeadline :: "('op, 'z) client_object_scheme \<Rightarrow> ('op, 'z) client_object_scheme" where
  "cl_startWaitDeadline c = c\<lparr>cl_waits := cl_waits c + 1\<rparr>"

text \<open>\<open>handleConnect\<close>; the operation is the write of the request.\<close>

definition cl_handleConnect ::
  "'op \<Rightarrow> error_code \<Rightarrow> ('op, 'z) client_object_scheme \<Rightarrow> ('op, 'z) client_object_scheme" where
  "cl_handleConnect opn ec c =
     (if ec \<noteq> No_error then c else cl_startWaitDeadline (cl_begin WriteRequestTimeout opn c))"

definition cl_handleDeadline :: "error_code \<Rightarrow> ('op, 'z) client_object_scheme \<Rightarrow> ('op, 'z) client_object_scheme" where
  "cl_handleDeadline ec c =
     (if cl_stopped c then c
      else if ec = Operation_aborted then cl_startWaitDeadline c
      else cl_stop c)"

text \<open>The bytes of a completion, and the socket after \<open>async_connect\<close>.\<close>

definition cl_bytes :: "completion \<Rightarrow> ('op, 'z) client_object_scheme \<Rightarrow> ('op, 'z) client_object_scheme" where
  "cl_bytes ev c =
     (case ev of
        Connect_done ec \<Rightarrow> c\<lparr>cl_open := (ec = No_error)\<rparr>
      | Read_done ec d \<Rightarrow> c\<lparr>cl_buffer := cl_buffer c @ d\<rparr>
      | Write_done ec n \<Rightarrow> c\<lparr>cl_written := cl_written c @ take n (cl_buffer c), cl_buffer := drop n (cl_buffer c)\<rparr>
      | Deadline_done ec \<Rightarrow> c\<lparr>cl_waits := cl_waits c - 1\<rparr>)"

section \<open>Star\<close>

datatype star_op = St_connect | St_write_request | St_write_prognosis | St_read_response

text \<open>\<open>st_done\<close> counts the calls of \<open>mOnWorkDoneCb\<close>.\<close>

record star = "star_op client_object" +
  st_prognosis :: string
  st_done :: nat

definition Star :: "string \<Rightarrow> string \<Rightarrow> string \<Rightarrow> star" where
  "Star zodiac prognosis remainder =
     \<lparr>cl_open = False, cl_buffer = STAR_REQUEST_TYPE_cpp @ zodiac @ remainder @ [DELIM], cl_deadline = None,
      cl_ops = [St_connect], cl_waits = 0, cl_written = [], st_prognosis = prognosis, st_done = 0\<rparr>"

definition st_handleConnect :: "error_code \<Rightarrow> star \<Rightarrow> star" where
  "st_handleConnect ec c = cl_handleConnect St_write_request ec c"

definition st_handleWriteRequest :: "error_code \<Rightarrow> star \<Rightarrow> star" where
  "st_handleWriteRequest ec c =
     (if cl_stopped c then c
      else if ec \<noteq> No_error then cl_stop c
      else cl_begin WritePrognosisTimeout St_write_prognosis
             (c\<lparr>cl_buffer := cl_buffer c @ st_prognosis c @ [DELIM]\<rparr>))"

definition st_handleWritePrognosis :: "error_code \<Rightarrow> star \<Rightarrow> star" where
  "st_handleWritePrognosis ec c =
     (if cl_stopped c then c
      else if ec \<noteq> No_error then cl_stop c
      else cl_begin ReadResponseTimeout St_read_response c)"

definition st_handleReadResponse :: "error_code \<Rightarrow> star \<Rightarrow> star" where
  "st_handleReadResponse ec c =
     (if cl_stopped c then c
      else if ec \<noteq> No_error then cl_stop c
      else
        (case getline (cl_buffer c) of (response, rest) \<Rightarrow>
           let c1 = c\<lparr>cl_buffer := rest\<rparr> in
           if response = STAR_RESPONSE_SUCCESS then cl_stop (c1\<lparr>st_done := st_done c1 + 1\<rparr>)
           else cl_stop c1))"

definition st_handle :: "star_op \<Rightarrow> error_code \<Rightarrow> star \<Rightarrow> star" where
  "st_handle opn ec c =
     (case opn of
        St_connect \<Rightarrow> st_handleConnect ec c
      | St_write_request \<Rightarrow> st_handleWriteRequest ec c
      | St_write_prognosis \<Rightarrow> st_handleWritePrognosis ec c
      | St_read_response \<Rightarrow> st_handleReadResponse ec c)"

section \<open>Human\<close>

datatype human_op = Hu_connect | Hu_write_request | Hu_read_response

text \<open>\<open>hu_results\<close>: the arguments \<open>mOnWorkDoneCb\<close> has been called with.\<close>

record human = "human_op client_object" +
  hu_results :: "string list"

definition Human :: "string \<Rightarrow> string \<Rightarrow> human" where
  "Human zodiac remainder =
     \<lparr>cl_open = False, cl_buffer = CLIENT_REQUEST_TYPE_cpp @ zodiac @ remainder @ [DELIM], cl_deadline = None,
      cl_ops = [Hu_connect], cl_waits = 0, cl_written = [], hu_results = []\<rparr>"

definition hu_handleConnect :: "error_code \<Rightarrow> human \<Rightarrow> human" where
  "hu_handleConnect ec c = cl_handleConnect Hu_write_request ec c"

definition hu_handleWriteRequest :: "error_code \<Rightarrow> human \<Rightarrow> human" where
  "hu_handleWriteRequest ec c =
     (if cl_stopped c then c
      else if ec \<noteq> No_error then cl_stop c
      else cl_begin ReadResponseTimeout Hu_read_response c)"

definition hu_handleReadResponse :: "error_code \<Rightarrow> human \<Rightarrow> human" where
  "hu_handleReadResponse ec c =
     (if cl_stopped c then c
      else if ec \<noteq> No_error then cl_stop c
      else
        (case getline (cl_buffer c) of (response, rest) \<Rightarrow>
           let c1 = c\<lparr>cl_buffer := rest\<rparr> in
           if response = UNKNOWN_PROGNOSIS then cl_stop c1
           else cl_stop (c1\<lparr>hu_results := hu_results c1 @ [response]\<rparr>)))"

definition hu_handle :: "human_op \<Rightarrow> error_code \<Rightarrow> human \<Rightarrow> human" where
  "hu_handle opn ec c =
     (case opn of
        Hu_connect \<Rightarrow> hu_handleConnect ec c
      | Hu_write_request \<Rightarrow> hu_handleWriteRequest ec c
      | Hu_read_response \<Rightarrow> hu_handleReadResponse ec c)"

section \<open>Completions\<close>

definition code_of :: "completion \<Rightarrow> error_code" where
  "code_of ev =
     (case ev of Read_done ec _ \<Rightarrow> ec | Write_done ec _ \<Rightarrow> ec | Connect_done ec \<Rightarrow> ec | Deadline_done ec \<Rightarrow> ec)"

text \<open>Whether the completion is one of the given operation, by the documentation of the operation.\<close>

definition st_may :: "star \<Rightarrow> completion \<Rightarrow> bool" where
  "st_may c ev =
     (case ev of
        Deadline_done ec \<Rightarrow> 0 < cl_waits c
      | Connect_done ec \<Rightarrow> cl_ops c = [St_connect]
      | Read_done ec d \<Rightarrow> cl_ops c = [St_read_response] \<and> read_ok (cl_buffer c) ec d
      | Write_done ec n \<Rightarrow>
          (cl_ops c = [St_write_request] \<or> cl_ops c = [St_write_prognosis]) \<and> write_ok (cl_buffer c) ec n)"

definition hu_may :: "human \<Rightarrow> completion \<Rightarrow> bool" where
  "hu_may c ev =
     (case ev of
        Deadline_done ec \<Rightarrow> 0 < cl_waits c
      | Connect_done ec \<Rightarrow> cl_ops c = [Hu_connect]
      | Read_done ec d \<Rightarrow> cl_ops c = [Hu_read_response] \<and> read_ok (cl_buffer c) ec d
      | Write_done ec n \<Rightarrow> cl_ops c = [Hu_write_request] \<and> write_ok (cl_buffer c) ec n)"

definition st_complete :: "completion \<Rightarrow> star \<Rightarrow> star" where
  "st_complete ev c =
     (case ev of
        Deadline_done ec \<Rightarrow> cl_handleDeadline ec (cl_bytes ev c)
      | _ \<Rightarrow>
          (case cl_ops c of
             [] \<Rightarrow> c
           | opn # ops \<Rightarrow> st_handle opn (code_of ev) (cl_bytes ev (c\<lparr>cl_ops := ops\<rparr>))))"

definition hu_complete :: "completion \<Rightarrow> human \<Rightarrow> human" where
  "hu_complete ev c =
     (case ev of
        Deadline_done ec \<Rightarrow> cl_handleDeadline ec (cl_bytes ev c)
      | _ \<Rightarrow>
          (case cl_ops c of
             [] \<Rightarrow> c
           | opn # ops \<Rightarrow> hu_handle opn (code_of ev) (cl_bytes ev (c\<lparr>cl_ops := ops\<rparr>))))"

end
