(* ===== verification/Asio_Server.thy ===== *)
theory Asio_Server
  imports Asio_Common
begin

text \<open>
  The server of \<open>boost_asio\<close> (\<open>src/server.cpp\<close>): the table of prognoses, the completion handlers of a
  connection, and the acceptor. A handler maps the state of its object to the state after it; the
  asynchronous operations it starts are added to those in flight.
\<close>

section \<open>PrognosisManager\<close>

type_synonym prognosis_map = "string \<rightharpoonup> string"

definition getPrognosis :: "prognosis_map \<Rightarrow> string \<Rightarrow> string option" where
  "getPrognosis m zodiac = m zodiac"

definition setPrognosis :: "prognosis_map \<Rightarrow> string \<Rightarrow> string \<Rightarrow> prognosis_map" where
  "setPrognosis m zodiac prognosis = m(zodiac \<mapsto> prognosis)"

section \<open>Connection\<close>

text \<open>The operations on the socket, with what is bound to their handlers.\<close>

datatype conn_op = Read_request | Read_prognosis string | Write_response

text \<open>
  \<open>mSocket\<close>: whether it is open; \<open>mDeadline\<close>: the time given to the last \<open>expires_after\<close>, \<open>None\<close> after
  \<open>cancel\<close>; \<open>conn_ops\<close> and \<open>conn_waits\<close>: the operations and the waits in flight; \<open>conn_written\<close>: all
  bytes sent.
\<close>

record connection =
  mSocket :: bool
  mBuffer :: string
  mDeadline :: "int option"
  conn_ops :: "conn_op list"
  conn_waits :: nat
  conn_written :: string

definition conn_stop :: "connection \<Rightarrow> connection" where
  "conn_stop c = c\<lparr>mSocket := False, mDeadline := None\<rparr>"

definition conn_stopped :: "connection \<Rightarrow> bool" where
  "conn_stopped c = (\<not> mSocket c)"

definition startReadRequest :: "connection \<Rightarrow> connection" where
  "startReadRequest c =
     c\<lparr>mDeadline := Some ReadRequestTimeout, conn_ops := conn_ops c @ [Read_request]\<rparr>"

definition startWaitDeadline :: "connection \<Rightarrow> connection" where
  "startWaitDeadline c = c\<lparr>conn_waits := conn_waits c + 1\<rparr>"

definition conn_start :: "connection \<Rightarrow> connection" where
  "conn_start c = startWaitDeadline (startReadRequest c)"

text \<open>\<open>parseZodiac\<close>: the zodiac, or \<open>None\<close> after \<open>stop ()\<close>.\<close>

definition parseZodiac :: "string \<Rightarrow> connection \<Rightarrow> string option \<times> connection" where
  "parseZodiac zodiacWithRem c =
     (case FindZodiac (of_c_str zodiacWithRem) of
        None \<Rightarrow> (None, conn_stop c)
      | Some zodiac \<Rightarrow> (Some zodiac, c))"

text \<open>The end both replies share: the line goes to the buffer, and the buffer to the network.\<close>

definition startWriteResponse :: "string \<Rightarrow> connection \<Rightarrow> connection" where
  "startWriteResponse response c =
     c\<lparr>mBuffer := mBuffer c @ response @ [DELIM], mDeadline := Some WriteResponseTimeout,
       conn_ops := conn_ops c @ [Write_response]\<rparr>"

definition handleReadRequest :: "error_code \<Rightarrow> prognosis_map \<Rightarrow> connection \<Rightarrow> connection" where
  "handleReadRequest ec m c =
     (if conn_stopped c then c
      else if ec \<noteq> No_error then conn_stop c
      else
        (case getline (mBuffer c) of (request, rest) \<Rightarrow>
           let c1 = c\<lparr>mBuffer := rest\<rparr> in
           if StartsWith request STAR_REQUEST_TYPE_cpp then
             (case parseZodiac (drop (length STAR_REQUEST_TYPE_cpp) request) c1 of
                (None, c2) \<Rightarrow> c2
              | (Some zodiac, c2) \<Rightarrow>
                  c2\<lparr>mDeadline := Some ReadPrognosisTimeout, conn_ops := conn_ops c2 @ [Read_prognosis zodiac]\<rparr>)
           else if StartsWith request CLIENT_REQUEST_TYPE_cpp then
             (case parseZodiac (drop (length CLIENT_REQUEST_TYPE_cpp) request) c1 of
                (None, c2) \<Rightarrow> c2
              | (Some zodiac, c2) \<Rightarrow>
                  (case getPrognosis m zodiac of
                     Some response \<Rightarrow> startWriteResponse response c2
                   | None \<Rightarrow> startWriteResponse UNKNOWN_PROGNOSIS c2))
           else conn_stop c1))"

definition handleReadPrognosis ::
  "error_code \<Rightarrow> string \<Rightarrow> prognosis_map \<Rightarrow> connection \<Rightarrow> prognosis_map \<times> connection" where
  "handleReadPrognosis ec zodiac m c =
     (if conn_stopped c then (m, c)
      else if ec \<noteq> No_error then (m, conn_stop c)
      else
        (case getline (mBuffer c) of (prognosis, rest) \<Rightarrow>
           (setPrognosis m zodiac prognosis, startWriteResponse STAR_RESPONSE_SUCCESS (c\<lparr>mBuffer := rest\<rparr>))))"

definition handleWriteResponse :: "error_code \<Rightarrow> connection \<Rightarrow> connection" where
  "handleWriteResponse ec c =
     (if conn_stopped c then c
      else if ec \<noteq> No_error then conn_stop c
      else startReadRequest c)"

definition handleDeadline :: "error_code \<Rightarrow> connection \<Rightarrow> connection" where
  "handleDeadline ec c =
     (if conn_stopped c then c
      else if ec = Operation_aborted then startWaitDeadline c
      else conn_stop c)"

text \<open>
  A completion reaches the handler of the first operation in flight. A read has put its bytes into the
  buffer by then, a write has taken its bytes from it.
\<close>

definition conn_complete :: "completion \<Rightarrow> prognosis_map \<times> connection \<Rightarrow> prognosis_map \<times> connection" where
  "conn_complete ev mc =
     (case mc of (m, c) \<Rightarrow>
        (case ev of
           Read_done ec d \<Rightarrow>
             let c1 = c\<lparr>mBuffer := mBuffer c @ d, conn_ops := tl (conn_ops c)\<rparr> in
             (case conn_ops c of
                Read_request # ops \<Rightarrow> (m, handleReadRequest ec m c1)
              | Read_prognosis zodiac # ops \<Rightarrow> handleReadPrognosis ec zodiac m c1
              | _ \<Rightarrow> (m, c))
         | Write_done ec n \<Rightarrow>
             let c1 = c\<lparr>mBuffer := drop n (mBuffer c), conn_ops := tl (conn_ops c),
                        conn_written := conn_written c @ take n (mBuffer c)\<rparr> in
             (case conn_ops c of
                Write_response # ops \<Rightarrow> (m, handleWriteResponse ec c1)
              | _ \<Rightarrow> (m, c))
         | Deadline_done ec \<Rightarrow>
             if conn_waits c = 0 then (m, c) else (m, handleDeadline ec (c\<lparr>conn_waits := conn_waits c - 1\<rparr>))
         | Connect_done ec \<Rightarrow> (m, c)))"

text \<open>The completions that can come, by the documentation of the operation in flight.\<close>

definition conn_may :: "connection \<Rightarrow> completion \<Rightarrow> bool" where
  "conn_may c ev =
     (case ev of
        Read_done ec d \<Rightarrow> conn_ops c \<noteq> [] \<and> hd (conn_ops c) \<noteq> Write_response \<and> read_ok (mBuffer c) ec d
      | Write_done ec n \<Rightarrow> conn_ops c \<noteq> [] \<and> hd (conn_ops c) = Write_response \<and> write_ok (mBuffer c) ec n
      | Deadline_done ec \<Rightarrow> 0 < conn_waits c
      | Connect_done ec \<Rightarrow> False)"

section \<open>Server\<close>

record asio_server =
  mPrognosisManager :: prognosis_map
  connections :: "connection list"
  accepting :: bool

text \<open>The connection \<open>startAccept\<close> makes, once its socket has been opened by the acceptor.\<close>

definition new_connection :: connection where
  "new_connection =
     \<lparr>mSocket = True, mBuffer = [], mDeadline = None, conn_ops = [], conn_waits = 0, conn_written = []\<rparr>"

definition startAccept :: "asio_server \<Rightarrow> asio_server" where
  "startAccept w = w\<lparr>accepting := True\<rparr>"

definition handleAccept :: "error_code \<Rightarrow> asio_server \<Rightarrow> asio_server" where
  "handleAccept ec w =
     startAccept (if ec \<noteq> No_error then w
                  else w\<lparr>connections := connections w @ [conn_start new_connection]\<rparr>)"

definition Server :: asio_server where
  "Server = startAccept \<lparr>mPrognosisManager = Map.empty, connections = [], accepting = False\<rparr>"

text \<open>\<open>run\<close>: the handlers are called one after the other, in any order the completions come in.\<close>

datatype server_event = Accept_done error_code | On_connection nat completion

definition server_event :: "server_event \<Rightarrow> asio_server \<Rightarrow> asio_server" where
  "server_event ev w =
     (case ev of
        Accept_done ec \<Rightarrow> if accepting w then handleAccept ec (w\<lparr>accepting := False\<rparr>) else w
      | On_connection i e \<Rightarrow>
          if i < length (connections w) then
            (case conn_complete e (mPrognosisManager w, connections w ! i) of (m, c) \<Rightarrow>
               w\<lparr>mPrognosisManager := m, connections := (connections w)[i := c]\<rparr>)
          else w)"

definition server_may :: "asio_server \<Rightarrow> server_event \<Rightarrow> bool" where
  "server_may w ev =
     (case ev of
        Accept_done ec \<Rightarrow> accepting w
      | On_connection i e \<Rightarrow> i < length (connections w) \<and> conn_may (connections w ! i) e)"

fun server_run :: "server_event list \<Rightarrow> asio_server \<Rightarrow> asio_server" where
  "server_run [] w = w"
| "server_run (ev # evs) w = server_run evs (server_event ev w)"

fun run_may :: "asio_server \<Rightarrow> server_event list \<Rightarrow> bool" where
  "run_may w [] = True"
| "run_may w (ev # evs) = (server_may w ev \<and> run_may (server_event ev w) evs)"

text \<open>The process: the port, and whether opening the acceptor throws; \<open>None\<close>: it serves.\<close>

definition USHRT_MAX :: nat where "USHRT_MAX = 65535"

definition asio_server_main :: "string list \<Rightarrow> (nat \<Rightarrow> bool) \<Rightarrow> int option \<times> nat option" where
  "asio_server_main argv listens =
     (if length argv \<noteq> 2 then (Some 1, None)
      else
        (case Convert (argv ! 1) 0 USHRT_MAX of
           None \<Rightarrow> (Some 1, None)
         | Some port \<Rightarrow> if listens port then (None, Some port) else (Some 1, None)))"

end
