(* ===== verification/Asio_Server_Correct.thy ===== *)
theory Asio_Server_Correct
  imports Asio_Server Async_Object
begin

text \<open>
  Correctness of the server of \<open>boost_asio\<close>: the invariant of a connection under its handlers, what a
  handler makes of a line, and the table of prognoses along a run.
\<close>

lemmas conn_handler_defs =
  handleReadRequest_def handleReadPrognosis_def handleWriteResponse_def handleDeadline_def conn_stopped_def
  conn_stop_def startReadRequest_def startWaitDeadline_def startWriteResponse_def parseZodiac_def

section \<open>The invariant\<close>

text \<open>
  An open connection has exactly one operation and one wait in flight, so it never overlaps two operations
  and is never stuck; a closed one has at most the two that were in flight when it closed.
\<close>

definition conn_ok :: "connection \<Rightarrow> bool" where
  "conn_ok c \<longleftrightarrow>
     (if mSocket c then length (conn_ops c) = 1 \<and> conn_waits c = 1 \<and> mDeadline c \<noteq> None
      else length (conn_ops c) \<le> 1 \<and> conn_waits c \<le> 1 \<and> mDeadline c = None) \<and>
     (\<forall>z. Read_prognosis z \<in> set (conn_ops c) \<longrightarrow> z \<in> set ZodiacList) \<and>
     (mSocket c \<longrightarrow> conn_ops c = [Read_request] \<longrightarrow> mBuffer c = []) \<and>
     (conn_ops c = [Write_response] \<longrightarrow> mBuffer c \<noteq> [] \<and> last (mBuffer c) = DELIM)"

definition manager_ok :: "prognosis_map \<Rightarrow> bool" where
  "manager_ok m \<longleftrightarrow> dom m \<subseteq> set ZodiacList \<and> (\<forall>p\<in>ran m. DELIM \<notin> set p)"

definition asio_server_inv :: "asio_server \<Rightarrow> bool" where
  "asio_server_inv w \<longleftrightarrow>
     manager_ok (mPrognosisManager w) \<and> (\<forall>c\<in>set (connections w). conn_ok c) \<and> accepting w"

lemma conn_ops_cases:
  assumes "conn_ok c" and "conn_ops c \<noteq> []"
  obtains "conn_ops c = [Read_request]"
    | z where "conn_ops c = [Read_prognosis z]" and "z \<in> set ZodiacList"
    | "conn_ops c = [Write_response]"
proof -
  have "length (conn_ops c) = 1" using assms by (cases "conn_ops c") (auto simp: conn_ok_def split: if_splits)
  then obtain p where p: "conn_ops c = [p]" by (auto simp: length_Suc_conv)
  show thesis
  proof (cases p)
    case (Read_prognosis z)
    with p assms(1) that(2) show thesis by (simp add: conn_ok_def)
  qed (use p that in blast)+
qed

lemma getline_no_delim: "DELIM \<notin> set (fst (getline b))"
  by (auto simp: getline_def dest: set_takeWhileD)

lemma manager_set:
  "manager_ok m \<Longrightarrow> z \<in> set ZodiacList \<Longrightarrow> DELIM \<notin> set p \<Longrightarrow> manager_ok (setPrognosis m z p)"
  by (auto simp: manager_ok_def setPrognosis_def ran_def)

lemma conn_stop_ok: "length (conn_ops c) \<le> 1 \<Longrightarrow> conn_waits c \<le> 1 \<Longrightarrow>
    (\<forall>z. Read_prognosis z \<in> set (conn_ops c) \<longrightarrow> z \<in> set ZodiacList) \<Longrightarrow>
    (conn_ops c = [Write_response] \<longrightarrow> mBuffer c \<noteq> [] \<and> last (mBuffer c) = DELIM) \<Longrightarrow> conn_ok (conn_stop c)"
  by (simp add: conn_ok_def conn_stop_def)

text \<open>The handlers run with their own operation out of flight.\<close>

definition handler_state :: "connection \<Rightarrow> bool" where
  "handler_state c \<longleftrightarrow> conn_ops c = [] \<and>
     (if mSocket c then conn_waits c = 1 \<and> mDeadline c \<noteq> None else conn_waits c \<le> 1 \<and> mDeadline c = None)"

lemma conn_ok_start_read: "handler_state c \<Longrightarrow> mSocket c \<Longrightarrow> mBuffer c = [] \<Longrightarrow> conn_ok (startReadRequest c)"
  by (simp add: conn_ok_def handler_state_def startReadRequest_def)

lemma conn_ok_start_write: "handler_state c \<Longrightarrow> mSocket c \<Longrightarrow> conn_ok (startWriteResponse r c)"
  by (simp add: conn_ok_def handler_state_def startWriteResponse_def)

lemma conn_ok_stopped: "handler_state c \<Longrightarrow> conn_ok (conn_stop c)"
  by (auto simp: handler_state_def intro: conn_stop_ok split: if_splits)

lemma conn_ok_closed: "handler_state c \<Longrightarrow> \<not> mSocket c \<Longrightarrow> conn_ok c"
  by (simp add: handler_state_def conn_ok_def)

lemma handler_state_buffer [simp]: "handler_state (c\<lparr>mBuffer := b\<rparr>) = handler_state c"
  by (simp add: handler_state_def)

section \<open>What a line means\<close>

text \<open>The protocol as a function of lines: what the server does with one, and what it expects next.\<close>

datatype verdict = Answer string | Await string | Refuse

fun serve_line :: "prognosis_map \<Rightarrow> conn_op \<Rightarrow> string \<Rightarrow> prognosis_map \<times> verdict" where
  "serve_line m Read_request line =
     (m,
      if StartsWith line STAR_REQUEST_TYPE_cpp then
        (case FindZodiac (of_c_str (drop (length STAR_REQUEST_TYPE_cpp) line)) of None \<Rightarrow> Refuse | Some z \<Rightarrow> Await z)
      else if StartsWith line CLIENT_REQUEST_TYPE_cpp then
        (case FindZodiac (of_c_str (drop (length CLIENT_REQUEST_TYPE_cpp) line)) of
           None \<Rightarrow> Refuse
         | Some z \<Rightarrow> Answer (case m z of Some p \<Rightarrow> p | None \<Rightarrow> UNKNOWN_PROGNOSIS))
      else Refuse)"
| "serve_line m (Read_prognosis z) line = (m(z \<mapsto> line), Answer STAR_RESPONSE_SUCCESS)"
| "serve_line m Write_response line = (m, Refuse)"

text \<open>The state a verdict leads to; \<open>rest\<close> is what follows the line in the buffer.\<close>

definition after_line :: "verdict \<Rightarrow> string \<Rightarrow> connection \<Rightarrow> connection" where
  "after_line v rest c =
     (case v of
        Answer r \<Rightarrow> c\<lparr>mBuffer := rest @ r @ [DELIM], mDeadline := Some WriteResponseTimeout, conn_ops := [Write_response]\<rparr>
      | Await z \<Rightarrow> c\<lparr>mBuffer := rest, mDeadline := Some ReadPrognosisTimeout, conn_ops := [Read_prognosis z]\<rparr>
      | Refuse \<Rightarrow> c\<lparr>mBuffer := rest, mSocket := False, mDeadline := None, conn_ops := []\<rparr>)"

lemma read_line:
  assumes "mSocket c" and "conn_ops c = [p]" and "p \<noteq> Write_response"
    and "mBuffer c @ d = line @ DELIM # rest" and "DELIM \<notin> set line"
  shows "conn_complete (Read_done No_error d) (m, c) =
    (fst (serve_line m p line), after_line (snd (serve_line m p line)) rest c)"
proof -
  have g: "getline (mBuffer c @ d) = (line, rest)" using assms(4,5) by simp
  show ?thesis
  proof (cases p)
    case Read_request
    with assms(1,2) g show ?thesis
      by (simp add: conn_complete_def conn_handler_defs after_line_def getPrognosis_def Let_def split: option.split)
  next
    case (Read_prognosis z)
    with assms(1,2) g show ?thesis
      by (simp add: conn_complete_def conn_handler_defs after_line_def setPrognosis_def Let_def)
  qed (use assms(3) in simp)
qed

lemma serve_line_ok:
  assumes "manager_ok m" and "DELIM \<notin> set line" and "\<forall>z. p = Read_prognosis z \<longrightarrow> z \<in> set ZodiacList"
  shows "manager_ok (fst (serve_line m p line)) \<and>
    (\<forall>z. snd (serve_line m p line) = Await z \<longrightarrow> z \<in> set ZodiacList)"
proof (cases p)
  case (Read_prognosis z)
  with assms manager_set [of m z line] show ?thesis by (simp add: setPrognosis_def)
qed (use assms(1) in \<open>auto simp: FindZodiac_Some split: option.splits\<close>)

lemma after_line_ok:
  assumes "conn_ok c" and "mSocket c" and "\<forall>z. v = Await z \<longrightarrow> z \<in> set ZodiacList"
  shows "conn_ok (after_line v rest c)"
  using assms by (cases v) (simp_all add: conn_ok_def after_line_def)

text \<open>The four kinds of completion on a connection in order.\<close>

lemma conn_closed_step:
  assumes "conn_ok c" and "\<not> mSocket c" and "conn_may c ev" and "conn_complete ev (m, c) = (m', c')"
  shows "m' = m \<and> \<not> mSocket c' \<and> conn_ok c' \<and>
    Suc (length (conn_ops c') + conn_waits c') = length (conn_ops c) + conn_waits c"
proof (cases ev)
  case (Read_done ec d)
  then have ne: "conn_ops c \<noteq> []" using assms(3) by (simp add: conn_may_def)
  show ?thesis
    by (rule conn_ops_cases [OF assms(1) ne])
       (use assms Read_done in \<open>auto simp: conn_complete_def conn_handler_defs conn_ok_def conn_may_def\<close>)
next
  case (Write_done ec n)
  then have ne: "conn_ops c \<noteq> []" using assms(3) by (simp add: conn_may_def)
  show ?thesis
    by (rule conn_ops_cases [OF assms(1) ne])
       (use assms Write_done in \<open>auto simp: conn_complete_def conn_handler_defs conn_ok_def conn_may_def\<close>)
qed (use assms in \<open>auto simp: conn_complete_def conn_handler_defs conn_ok_def conn_may_def\<close>)

lemma conn_complete_ok:
  assumes "manager_ok m" and "conn_ok c" and "conn_may c ev" and "conn_complete ev (m, c) = (m', c')"
  shows "manager_ok m' \<and> conn_ok c'"
proof (cases "mSocket c")
  case False
  from conn_closed_step [OF assms(2) this assms(3,4)] assms(1) show ?thesis by simp
next
  case True
  then have one: "length (conn_ops c) = 1" "conn_waits c = 1" using assms(2) by (simp_all add: conn_ok_def)
  then have ne: "conn_ops c \<noteq> []" by auto
  show ?thesis
  proof (cases ev)
    case (Read_done ec d)
    obtain p where p: "conn_ops c = [p]" "p \<noteq> Write_response"
      using one(1) assms(3) Read_done by (auto simp: conn_may_def length_Suc_conv)
    have pz: "\<forall>z. p = Read_prognosis z \<longrightarrow> z \<in> set ZodiacList" using assms(2) p by (auto simp: conn_ok_def)
    show ?thesis
    proof (cases "ec = No_error")
      case True
      then have "DELIM \<in> set (mBuffer c @ d)" using assms(3) Read_done by (simp add: conn_may_def read_ok_def)
      then obtain l r where l: "mBuffer c @ d = l @ DELIM # r" "DELIM \<notin> set l" by (rule getlineE)
      from read_line [OF \<open>mSocket c\<close> p l, of m] serve_line_ok [OF assms(1) l(2) pz] after_line_ok [OF assms(2) \<open>mSocket c\<close>]
        assms(4) Read_done True show ?thesis by auto
    next
      case False
      with assms p \<open>mSocket c\<close> one(2) Read_done show ?thesis
        by (cases p) (auto simp: conn_complete_def conn_handler_defs conn_ok_def)
    qed
  next
    case (Write_done ec n)
    then have "conn_ops c = [Write_response]" "write_ok (mBuffer c) ec n"
      using one(1) assms(3) by (cases "conn_ops c"; simp add: conn_may_def)+
    with assms \<open>mSocket c\<close> one(2) Write_done show ?thesis
      by (auto simp: conn_complete_def conn_handler_defs conn_ok_def write_ok_def split: if_splits)
  next
    case (Deadline_done ec)
    with assms \<open>mSocket c\<close> one show ?thesis
      by (auto simp: conn_complete_def conn_handler_defs conn_ok_def split: if_splits)
  qed (use assms(3) in \<open>simp add: conn_may_def\<close>)
qed

interpretation server_connection:
  async_object "\<lambda>mc ev. conn_may (snd mc) ev" conn_complete
    "\<lambda>mc. manager_ok (fst mc) \<and> conn_ok (snd mc)" "\<lambda>mc. \<not> mSocket (snd mc)"
    "\<lambda>mc. length (conn_ops (snd mc)) + conn_waits (snd mc)"
proof (unfold_locales, goal_cases)
  case (1 mc e)
  obtain m c where mc: "mc = (m, c)" by fastforce
  obtain m' c' where r: "conn_complete e (m, c) = (m', c')" by fastforce
  with 1 conn_complete_ok [of m c e m' c'] show ?case by (simp add: mc)
next
  case (2 mc)
  then show ?case by (simp add: conn_ok_def)
next
  case (3 mc)
  then show ?case by (auto simp: conn_ok_def split: if_splits)
next
  case (4 mc e)
  obtain m c where mc: "mc = (m, c)" by fastforce
  obtain m' c' where r: "conn_complete e (m, c) = (m', c')" by fastforce
  with 4 conn_closed_step [of c e m m' c'] show ?case by (simp add: mc)
qed

section \<open>The whole server\<close>

lemma new_connection_ok: "conn_ok (conn_start new_connection)"
  by (simp add: conn_ok_def conn_start_def new_connection_def startReadRequest_def startWaitDeadline_def)

lemma server_event_ok:
  assumes "asio_server_inv w" and "server_may w ev"
  shows "asio_server_inv (server_event ev w)"
proof (cases ev)
  case (Accept_done ec)
  with assms new_connection_ok show ?thesis
    by (auto simp: server_event_def asio_server_inv_def handleAccept_def startAccept_def)
next
  case (On_connection i e)
  with assms(2) have i: "i < length (connections w)" and may: "conn_may (connections w ! i) e"
    by (simp_all add: server_may_def)
  obtain m' c' where r: "conn_complete e (mPrognosisManager w, connections w ! i) = (m', c')" by fastforce
  have "manager_ok m' \<and> conn_ok c'"
    by (rule conn_complete_ok [OF _ _ may r]) (use assms(1) i in \<open>simp_all add: asio_server_inv_def\<close>)
  with assms(1) i r On_connection show ?thesis
    by (auto simp: server_event_def asio_server_inv_def dest!: set_update_subset_insert [THEN subsetD])
qed

lemma server_run_ok: "asio_server_inv w \<Longrightarrow> run_may w evs \<Longrightarrow> asio_server_inv (server_run evs w)"
  by (induction evs arbitrary: w) (simp_all add: server_event_ok)

lemma Server_inv: "asio_server_inv Server"
  by (simp add: asio_server_inv_def Server_def startAccept_def manager_ok_def)

end
