(* ===== verification/Asio_Client_Correct.thy ===== *)
theory Asio_Client_Correct
  imports Asio_Client Asio_Server_Correct
begin

text \<open>
  Correctness of \<open>Star\<close> and \<open>Human\<close>: their invariants, that each calls its callback at most once, and the
  exchange each has with a server that answers.
\<close>

lemmas cl_handler_defs =
  cl_handleConnect_def cl_handleDeadline_def cl_stopped_def cl_stop_def cl_begin_def cl_startWaitDeadline_def
  cl_bytes_def code_of_def

lemmas star_defs = cl_handler_defs st_handleConnect_def st_handleWriteRequest_def st_handleWritePrognosis_def st_handleReadResponse_def
  st_handle_def st_complete_def st_may_def

lemmas human_defs = cl_handler_defs hu_handleConnect_def hu_handleWriteRequest_def hu_handleReadResponse_def hu_handle_def
  hu_complete_def hu_may_def

section \<open>The invariants\<close>

text \<open>Before the connection, while it is open, and after it.\<close>

definition st_ok :: "star \<Rightarrow> bool" where
  "st_ok c \<longleftrightarrow>
     (if cl_ops c = [St_connect] then \<not> cl_open c \<and> cl_waits c = 0 \<and> st_done c = 0
      else if cl_open c then cl_waits c = 1 \<and> st_done c = 0 \<and>
        cl_ops c \<in> {[St_write_request], [St_write_prognosis], [St_read_response]}
      else cl_waits c \<le> 1 \<and> st_done c \<le> 1 \<and>
        cl_ops c \<in> {[], [St_write_request], [St_write_prognosis], [St_read_response]})"

definition hu_ok :: "human \<Rightarrow> bool" where
  "hu_ok c \<longleftrightarrow>
     (if cl_ops c = [Hu_connect] then \<not> cl_open c \<and> cl_waits c = 0 \<and> hu_results c = []
      else if cl_open c then cl_waits c = 1 \<and> hu_results c = [] \<and>
        cl_ops c \<in> {[Hu_write_request], [Hu_read_response]}
      else cl_waits c \<le> 1 \<and> length (hu_results c) \<le> 1 \<and>
        cl_ops c \<in> {[], [Hu_write_request], [Hu_read_response]})"

definition st_closed :: "star \<Rightarrow> bool" where
  "st_closed c \<longleftrightarrow> \<not> cl_open c \<and> cl_ops c \<noteq> [St_connect]"

definition hu_closed :: "human \<Rightarrow> bool" where
  "hu_closed c \<longleftrightarrow> \<not> cl_open c \<and> cl_ops c \<noteq> [Hu_connect]"

lemma st_step:
  assumes "st_ok c" and "st_may c ev"
  shows "st_ok (st_complete ev c)"
  using assms by (cases ev) (auto simp: star_defs st_ok_def Let_def split: if_splits prod.splits)

lemma hu_step:
  assumes "hu_ok c" and "hu_may c ev"
  shows "hu_ok (hu_complete ev c)"
  using assms by (cases ev) (auto simp: human_defs hu_ok_def Let_def split: if_splits prod.splits)

interpretation star_object:
  async_object st_may st_complete st_ok st_closed "\<lambda>c. length (cl_ops c) + cl_waits c"
proof (unfold_locales, goal_cases)
  case (1 s e)
  then show ?case by (rule st_step)
next
  case (2 s)
  then show ?case by (auto simp: st_ok_def st_closed_def split: if_splits)
next
  case (3 s)
  then show ?case by (auto simp: st_ok_def split: if_splits)
next
  case (4 s e)
  then show ?case
    by (cases e) (auto simp: star_defs st_ok_def st_closed_def split: if_splits)
qed

interpretation human_object:
  async_object hu_may hu_complete hu_ok hu_closed "\<lambda>c. length (cl_ops c) + cl_waits c"
proof (unfold_locales, goal_cases)
  case (1 s e)
  then show ?case by (rule hu_step)
next
  case (2 s)
  then show ?case by (auto simp: hu_ok_def hu_closed_def split: if_splits)
next
  case (3 s)
  then show ?case by (auto simp: hu_ok_def split: if_splits)
next
  case (4 s e)
  then show ?case
    by (cases e) (auto simp: human_defs hu_ok_def hu_closed_def split: if_splits)
qed

lemma Star_ok: "st_ok (Star z p r)"
  by (simp add: st_ok_def Star_def)

lemma Human_ok: "hu_ok (Human z r)"
  by (simp add: hu_ok_def Human_def)

section \<open>One exchange\<close>

text \<open>The completions of an exchange in which nothing fails; \<open>answer\<close> is the line the server sends.\<close>

definition star_exchange_events :: "string \<Rightarrow> string \<Rightarrow> string \<Rightarrow> string \<Rightarrow> completion list" where
  "star_exchange_events z p r answer =
     [Connect_done No_error, Write_done No_error (length STAR_REQUEST_TYPE_cpp + length z + length r + 1),
      Write_done No_error (length p + 1), Read_done No_error (answer @ [DELIM])]"

lemma star_exchange_run:
  assumes "DELIM \<notin> set answer"
  shows "let c = async_run st_complete (star_exchange_events z p r answer) (Star z p r) in
    async_may st_may st_complete (Star z p r) (star_exchange_events z p r answer) \<and>
    cl_written c = STAR_REQUEST_TYPE_cpp @ z @ r @ [DELIM] @ p @ [DELIM] \<and>
    st_done c = (if answer = STAR_RESPONSE_SUCCESS then 1 else 0) \<and> st_closed c"
  using assms
  by (simp add: star_exchange_events_def Star_def star_defs st_closed_def read_ok_def write_ok_def Let_def)

definition human_exchange_events :: "string \<Rightarrow> string \<Rightarrow> string \<Rightarrow> completion list" where
  "human_exchange_events z r answer =
     [Connect_done No_error, Write_done No_error (length CLIENT_REQUEST_TYPE_cpp + length z + length r + 1),
      Read_done No_error (answer @ [DELIM])]"

lemma human_exchange_run:
  assumes "DELIM \<notin> set answer"
  shows "let c = async_run hu_complete (human_exchange_events z r answer) (Human z r) in
    async_may hu_may hu_complete (Human z r) (human_exchange_events z r answer) \<and>
    cl_written c = CLIENT_REQUEST_TYPE_cpp @ z @ r @ [DELIM] \<and>
    hu_results c = (if answer = UNKNOWN_PROGNOSIS then [] else [answer]) \<and> hu_closed c"
  using assms
  by (simp add: human_exchange_events_def Human_def human_defs hu_closed_def read_ok_def write_ok_def Let_def)

end
