(* ===== verification/Asio_Multi.thy ===== *)
theory Asio_Multi
  imports Asio_Client_Correct
begin

text \<open>
  The forms of the client program of \<open>boost_asio\<close>: one star, one human, and the test that publishes a
  prognosis for every zodiac and then asks for them with many humans at once.
\<close>

section \<open>The command lines\<close>

text \<open>
  \<open>resolves\<close>: whether the address can be resolved; the constructor throws otherwise. The exit code, and the
  object the program has run.
\<close>

definition StarMain :: "string list \<Rightarrow> bool \<Rightarrow> completion list \<Rightarrow> int \<times> star option" where
  "StarMain argv resolves evs =
     (if length argv \<noteq> 6 \<and> length argv \<noteq> 7 then (1, None)
      else
        let remainder = (if length argv = 7 then argv ! 6 else []);
            zodiac = argv ! 4; prognosis = argv ! 5 in
        if \<not> resolves then (1, None)
        else (0, Some (async_run st_complete evs (Star zodiac prognosis remainder))))"

definition HumanMain :: "string list \<Rightarrow> bool \<Rightarrow> completion list \<Rightarrow> int \<times> human option" where
  "HumanMain argv resolves evs =
     (if length argv \<noteq> 5 \<and> length argv \<noteq> 6 then (1, None)
      else
        let remainder = (if length argv = 6 then argv ! 5 else []); zodiac = argv ! 4 in
        if \<not> resolves then (1, None)
        else (0, Some (async_run hu_complete evs (Human zodiac remainder))))"

section \<open>Many objects in one context\<close>

text \<open>A completion of the object with the given number; the completions of different objects interleave freely.\<close>

definition at_index :: "('ev \<Rightarrow> 's \<Rightarrow> 's) \<Rightarrow> nat \<times> 'ev \<Rightarrow> 's list \<Rightarrow> 's list" where
  "at_index complete ie xs =
     (case ie of (i, e) \<Rightarrow> if i < length xs then xs[i := complete e (xs ! i)] else xs)"

definition may_at :: "('s \<Rightarrow> 'ev \<Rightarrow> bool) \<Rightarrow> 's list \<Rightarrow> nat \<times> 'ev \<Rightarrow> bool" where
  "may_at may xs ie = (case ie of (i, e) \<Rightarrow> i < length xs \<and> may (xs ! i) e)"

definition create_stars :: "string \<Rightarrow> star list" where
  "create_stars valueSuffix = map (\<lambda>z. Star z (z @ valueSuffix) []) ZodiacList"

text \<open>\<open>zodiacCounter\<close>: the callback of every star adds one.\<close>

definition zodiacCounter :: "star list \<Rightarrow> nat" where
  "zodiacCounter stars = sum_list (map st_done stars)"

definition SetAllZodiacs :: "string \<Rightarrow> (nat \<times> completion) list \<Rightarrow> bool \<times> star list" where
  "SetAllZodiacs valueSuffix evs =
     (let stars = async_run (at_index st_complete) evs (create_stars valueSuffix) in
      (zodiacCounter stars = length stars, stars))"

definition zodiac_of_index :: "nat \<Rightarrow> string" where
  "zodiac_of_index i = ZodiacList ! (i mod length ZodiacList)"

definition CreateHumans :: "nat \<Rightarrow> human list" where
  "CreateHumans amount = map (\<lambda>i. Human (zodiac_of_index i) []) [0..<amount]"

text \<open>\<open>humanCounter\<close>: the callback of a human adds one if the response is the prognosis of its zodiac.\<close>

definition humanCounter :: "string \<Rightarrow> human list \<Rightarrow> nat" where
  "humanCounter valueSuffix humans =
     (\<Sum>i<length humans. length (filter (\<lambda>r. r = zodiac_of_index i @ valueSuffix) (hu_results (humans ! i))))"

section \<open>The threads\<close>

text \<open>
  \<open>ParallelRun\<close>: the threads wait for the promise, which is set when all of them have been started. If one
  cannot be started (\<open>creates\<close> says which can), the exception leaves the function, and the destructor
  of \<open>joiner\<close> joins those that have been, before the promise is destroyed: a join of a waiting thread whose
  promise is not set does not return.
\<close>

datatype run_result = Ran | Thrown | Hangs

fun start_threads :: "(nat \<Rightarrow> bool) \<Rightarrow> nat \<Rightarrow> nat \<Rightarrow> nat \<times> bool" where
  "start_threads creates 0 started = (started, True)"
| "start_threads creates (Suc n) started =
     (if creates started then start_threads creates n (started + 1) else (started, False))"

definition join_returns :: "nat \<Rightarrow> bool \<Rightarrow> bool" where
  "join_returns started promise_set = (started = 0 \<or> promise_set)"

definition ParallelRun :: "(nat \<Rightarrow> bool) \<Rightarrow> nat \<Rightarrow> run_result" where
  "ParallelRun creates amount =
     (case start_threads creates amount 0 of (started, ok) \<Rightarrow>
        if \<not> join_returns started ok then Hangs else if ok then Ran else Thrown)"

text \<open>
  \<open>reserves\<close>: whether the vectors of that size can be allocated. \<open>Thrown\<close> is an exception that reaches
  \<open>MulticlientMain\<close>; the context has run all the given completions when the threads are joined.
\<close>

definition PollAllZodiacs ::
  "(nat \<Rightarrow> bool) \<Rightarrow> (nat \<Rightarrow> bool) \<Rightarrow> nat \<Rightarrow> string \<Rightarrow> (nat \<times> completion) list \<Rightarrow> run_result \<times> int" where
  "PollAllZodiacs reserves creates amount valueSuffix evs =
     (if \<not> reserves amount then (Thrown, 1)
      else
        let humans = CreateHumans amount in
        (case ParallelRun creates amount of
           Ran \<Rightarrow>
             let humans' = async_run (at_index hu_complete) evs humans in
             (Ran, if humanCounter valueSuffix humans' \<noteq> length humans' then 1 else 0)
         | r \<Rightarrow> (r, 1)))"

text \<open>\<open>None\<close>: the process hangs.\<close>

definition SIZE_T_MAX :: nat where "SIZE_T_MAX = 2 ^ 64 - 1"

definition MulticlientMain ::
  "string list \<Rightarrow> bool \<Rightarrow> (nat \<Rightarrow> bool) \<Rightarrow> (nat \<Rightarrow> bool) \<Rightarrow>
     (nat \<times> completion) list \<Rightarrow> (nat \<times> completion) list \<Rightarrow> int option" where
  "MulticlientMain argv resolves reserves creates star_evs human_evs =
     (if length argv \<noteq> 5 then Some 1
      else
        (case Convert (argv ! 4) 0 SIZE_T_MAX of
           None \<Rightarrow> Some 1
         | Some amount \<Rightarrow>
             if \<not> resolves then Some 1
             else if \<not> fst (SetAllZodiacs '' value'' star_evs) then Some 1
             else
               (case PollAllZodiacs reserves creates amount '' value'' human_evs of
                  (Hangs, _) \<Rightarrow> None
                | (Thrown, _) \<Rightarrow> Some 1
                | (Ran, r) \<Rightarrow> Some r)))"

datatype client_form = Form_star | Form_human | Form_multi

definition client_form_of :: "string list \<Rightarrow> client_form option" where
  "client_form_of argv =
     (if length argv < 2 then None
      else if argv ! 1 = ''star'' then Some Form_star
      else if argv ! 1 = ''human'' then Some Form_human
      else if argv ! 1 = ''multi'' then Some Form_multi
      else None)"

definition asio_client_main ::
  "string list \<Rightarrow> bool \<Rightarrow> (nat \<Rightarrow> bool) \<Rightarrow> (nat \<Rightarrow> bool) \<Rightarrow> completion list \<Rightarrow>
     (nat \<times> completion) list \<Rightarrow> (nat \<times> completion) list \<Rightarrow> int option" where
  "asio_client_main argv resolves reserves creates evs star_evs human_evs =
     (case client_form_of argv of
        None \<Rightarrow> Some 1
      | Some Form_star \<Rightarrow> Some (fst (StarMain argv resolves evs))
      | Some Form_human \<Rightarrow> Some (fst (HumanMain argv resolves evs))
      | Some Form_multi \<Rightarrow> MulticlientMain argv resolves reserves creates star_evs human_evs)"

section \<open>The counters\<close>

lemma at_index_run:
  assumes "\<And>s e. P s \<Longrightarrow> may s e \<Longrightarrow> P (f e s)"
  shows "\<forall>x\<in>set xs. P x \<Longrightarrow> async_may (may_at may) (at_index f) xs evs \<Longrightarrow>
    (\<forall>x\<in>set (async_run (at_index f) evs xs). P x) \<and> length (async_run (at_index f) evs xs) = length xs"
proof (induction evs arbitrary: xs)
  case (Cons ev evs)
  obtain i e where ev: "ev = (i, e)" by fastforce
  have i: "i < length xs" "may (xs ! i) e" using Cons.prems(2) by (simp_all add: ev may_at_def)
  then have "P (f e (xs ! i))" using Cons.prems(1) assms by simp
  then have "\<forall>x\<in>set (at_index f ev xs). P x"
    using Cons.prems(1) i by (auto simp: ev at_index_def dest!: set_update_subset_insert [THEN subsetD])
  moreover have "length (at_index f ev xs) = length xs" by (simp add: ev at_index_def)
  ultimately show ?case using Cons.IH [of "at_index f ev xs"] Cons.prems(2) by simp
qed simp

lemma sum_list_ones:
  assumes "\<forall>x\<in>set xs. f x \<le> (1::nat)"
  shows "sum_list (map f xs) = length xs \<longleftrightarrow> (\<forall>x\<in>set xs. f x = 1)"
proof -
  have le: "sum_list (map f xs) \<le> length xs" if "\<forall>x\<in>set xs. f x \<le> 1" for xs
    using that by (induction xs) force+
  show ?thesis
    using assms
  proof (induction xs)
    case (Cons x xs)
    then have "sum_list (map f xs) \<le> length xs" "f x \<le> 1" using le [of xs] by simp_all
    with Cons show ?case by auto
  qed simp
qed

lemma sum_ones:
  fixes f :: "nat \<Rightarrow> nat"
  assumes "\<forall>i<n. f i \<le> 1"
  shows "(\<Sum>i<n. f i) = n \<longleftrightarrow> (\<forall>i<n. f i = 1)"
  using sum_list_ones [of "[0..<n]" f] assms by (auto simp: interv_sum_list_conv_sum_set_nat atLeast0LessThan)

lemma start_threads_iff:
  "start_threads creates n k =
    (if \<forall>i. k \<le> i \<longrightarrow> i < k + n \<longrightarrow> creates i then (k + n, True)
     else (LEAST i. k \<le> i \<and> \<not> creates i, False))"
proof (induction n arbitrary: k)
  case (Suc n)
  show ?case
  proof (cases "creates k")
    case False
    then have "(LEAST i. k \<le> i \<and> \<not> creates i) = k" by (intro Least_equality) auto
    with False show ?thesis by auto
  next
    case True
    have "(k \<le> i \<and> \<not> creates i) = (Suc k \<le> i \<and> \<not> creates i)" for i
      using True by (metis Suc_leD Suc_leI le_neq_implies_less)
    moreover have "(\<forall>i. k \<le> i \<longrightarrow> i < k + Suc n \<longrightarrow> creates i) \<longleftrightarrow>
        (\<forall>i. Suc k \<le> i \<longrightarrow> i < Suc k + n \<longrightarrow> creates i)"
      using True by (metis Suc_leD Suc_leI add_Suc_right add_Suc le_neq_implies_less)
    ultimately show ?thesis using True Suc [of "Suc k"] by simp
  qed
qed simp

end
