(* ===== verification/Asio_Proxy.thy ===== *)
theory Asio_Proxy
  imports Asio_Common Async_Object
begin

text \<open>
  The proxy of \<open>boost_asio\<close> (\<open>src/proxy.cpp\<close>): a connection pairs a client with a connection of its own to the
  server; the class \<open>Proxy\<close> resolves the server, connects, accepts a client for that connection and starts
  over.
\<close>

section \<open>Connection\<close>

datatype proxy_op = Px_read_request | Px_write_request | Px_read_response | Px_write_response

text \<open>The fields as in the class; the last two are the bytes sent to the server and to the client.\<close>

record proxy_connection =
  mConnectionSocket :: bool
  mConnectionBuffer :: string
  mClientSocket :: bool
  mClientBuffer :: string
  px_deadline :: "int option"
  px_ops :: "proxy_op list"
  px_waits :: nat
  px_to_server :: string
  px_to_client :: string

definition px_stop :: "proxy_connection \<Rightarrow> proxy_connection" where
  "px_stop c = c\<lparr>mConnectionSocket := False, mClientSocket := False, px_deadline := None\<rparr>"

definition px_stopped :: "proxy_connection \<Rightarrow> bool" where
  "px_stopped c = (\<not> mConnectionSocket c \<or> \<not> mClientSocket c)"

text \<open>\<open>expires_after\<close> and the start of an operation.\<close>

definition px_begin :: "int \<Rightarrow> proxy_op \<Rightarrow> proxy_connection \<Rightarrow> proxy_connection" where
  "px_begin timeout opn c = c\<lparr>px_deadline := Some timeout, px_ops := px_ops c @ [opn]\<rparr>"

definition px_startReadRequest :: "proxy_connection \<Rightarrow> proxy_connection" where
  "px_startReadRequest c = px_begin ReadRequestTimeout Px_read_request c"

definition px_startWaitDeadline :: "proxy_connection \<Rightarrow> proxy_connection" where
  "px_startWaitDeadline c = c\<lparr>px_waits := px_waits c + 1\<rparr>"

definition px_start :: "proxy_connection \<Rightarrow> proxy_connection" where
  "px_start c = px_startWaitDeadline (px_startReadRequest c)"

definition px_handleReadRequest :: "error_code \<Rightarrow> proxy_connection \<Rightarrow> proxy_connection" where
  "px_handleReadRequest ec c =
     (if px_stopped c then c
      else if ec \<noteq> No_error then px_stop c
      else
        (case getline (mClientBuffer c) of (request, rest) \<Rightarrow>
           if StartsWith request STAR_REQUEST_TYPE_cpp then
             px_begin WriteResponseTimeout Px_write_response (c\<lparr>mClientBuffer := STAR_RESPONSE_FAILURE @ [DELIM]\<rparr>)
           else
             px_begin WriteRequestTimeout Px_write_request
               (c\<lparr>mClientBuffer := rest, mConnectionBuffer := mConnectionBuffer c @ request @ [DELIM]\<rparr>)))"

definition px_handleWriteRequest :: "error_code \<Rightarrow> proxy_connection \<Rightarrow> proxy_connection" where
  "px_handleWriteRequest ec c =
     (if px_stopped c then c
      else if ec \<noteq> No_error then px_stop c
      else px_begin ReadResponseTimeout Px_read_response c)"

definition px_handleReadResponse :: "error_code \<Rightarrow> proxy_connection \<Rightarrow> proxy_connection" where
  "px_handleReadResponse ec c =
     (if px_stopped c then c
      else if ec \<noteq> No_error then px_stop c
      else
        (case getline (mConnectionBuffer c) of (response, rest) \<Rightarrow>
           px_begin WriteResponseTimeout Px_write_response
             (c\<lparr>mConnectionBuffer := rest, mClientBuffer := mClientBuffer c @ response @ [DELIM]\<rparr>)))"

definition px_handleWriteResponse :: "error_code \<Rightarrow> proxy_connection \<Rightarrow> proxy_connection" where
  "px_handleWriteResponse ec c =
     (if px_stopped c then c
      else if ec \<noteq> No_error then px_stop c
      else px_startReadRequest c)"

definition px_handleDeadline :: "error_code \<Rightarrow> proxy_connection \<Rightarrow> proxy_connection" where
  "px_handleDeadline ec c =
     (if px_stopped c then c
      else if ec = Operation_aborted then px_startWaitDeadline c
      else px_stop c)"

text \<open>The bytes of a completion, before its handler runs.\<close>

definition px_bytes :: "proxy_op \<Rightarrow> completion \<Rightarrow> proxy_connection \<Rightarrow> proxy_connection" where
  "px_bytes opn ev c =
     (case (opn, ev) of
        (Px_read_request, Read_done ec d) \<Rightarrow> c\<lparr>mClientBuffer := mClientBuffer c @ d\<rparr>
      | (Px_read_response, Read_done ec d) \<Rightarrow> c\<lparr>mConnectionBuffer := mConnectionBuffer c @ d\<rparr>
      | (Px_write_request, Write_done ec n) \<Rightarrow>
          c\<lparr>px_to_server := px_to_server c @ take n (mConnectionBuffer c), mConnectionBuffer := drop n (mConnectionBuffer c)\<rparr>
      | (Px_write_response, Write_done ec n) \<Rightarrow>
          c\<lparr>px_to_client := px_to_client c @ take n (mClientBuffer c), mClientBuffer := drop n (mClientBuffer c)\<rparr>
      | _ \<Rightarrow> c)"

definition px_handle :: "proxy_op \<Rightarrow> error_code \<Rightarrow> proxy_connection \<Rightarrow> proxy_connection" where
  "px_handle opn ec c =
     (case opn of
        Px_read_request \<Rightarrow> px_handleReadRequest ec c
      | Px_write_request \<Rightarrow> px_handleWriteRequest ec c
      | Px_read_response \<Rightarrow> px_handleReadResponse ec c
      | Px_write_response \<Rightarrow> px_handleWriteResponse ec c)"

definition px_complete :: "completion \<Rightarrow> proxy_connection \<Rightarrow> proxy_connection" where
  "px_complete ev c =
     (case ev of
        Deadline_done ec \<Rightarrow>
          if px_waits c = 0 then c else px_handleDeadline ec (c\<lparr>px_waits := px_waits c - 1\<rparr>)
      | Connect_done ec \<Rightarrow> c
      | Read_done ec _ \<Rightarrow>
          (case px_ops c of [] \<Rightarrow> c | opn # ops \<Rightarrow> px_handle opn ec (px_bytes opn ev (c\<lparr>px_ops := ops\<rparr>)))
      | Write_done ec _ \<Rightarrow>
          (case px_ops c of [] \<Rightarrow> c | opn # ops \<Rightarrow> px_handle opn ec (px_bytes opn ev (c\<lparr>px_ops := ops\<rparr>))))"

definition px_may :: "proxy_connection \<Rightarrow> completion \<Rightarrow> bool" where
  "px_may c ev =
     (case ev of
        Deadline_done ec \<Rightarrow> 0 < px_waits c
      | Connect_done ec \<Rightarrow> False
      | Read_done ec d \<Rightarrow>
          (case px_ops c of
             Px_read_request # _ \<Rightarrow> read_ok (mClientBuffer c) ec d
           | Px_read_response # _ \<Rightarrow> read_ok (mConnectionBuffer c) ec d
           | _ \<Rightarrow> False)
      | Write_done ec n \<Rightarrow>
          (case px_ops c of
             Px_write_request # _ \<Rightarrow> write_ok (mConnectionBuffer c) ec n
           | Px_write_response # _ \<Rightarrow> write_ok (mClientBuffer c) ec n
           | _ \<Rightarrow> False))"

section \<open>Proxy\<close>

text \<open>What the class has in flight; the connection being made has no state before \<open>start\<close>.\<close>

datatype proxy_task = Resolving | Connecting | Accepting

record asio_proxy =
  px_tasks :: "proxy_task list"
  px_connections :: "proxy_connection list"

definition new_proxy_connection :: proxy_connection where
  "new_proxy_connection =
     \<lparr>mConnectionSocket = True, mConnectionBuffer = [], mClientSocket = True, mClientBuffer = [],
      px_deadline = None, px_ops = [], px_waits = 0, px_to_server = [], px_to_client = []\<rparr>"

definition Proxy :: asio_proxy where
  "Proxy = \<lparr>px_tasks = [Resolving], px_connections = []\<rparr>"

definition px_startConnect :: "asio_proxy \<Rightarrow> asio_proxy" where
  "px_startConnect w = w\<lparr>px_tasks := px_tasks w @ [Connecting]\<rparr>"

definition px_handleResolve :: "error_code \<Rightarrow> asio_proxy \<Rightarrow> asio_proxy" where
  "px_handleResolve ec w = (if ec \<noteq> No_error then w else px_startConnect w)"

definition px_handleConnect :: "error_code \<Rightarrow> asio_proxy \<Rightarrow> asio_proxy" where
  "px_handleConnect ec w = (if ec \<noteq> No_error then w else w\<lparr>px_tasks := px_tasks w @ [Accepting]\<rparr>)"

definition px_handleAccept :: "error_code \<Rightarrow> asio_proxy \<Rightarrow> asio_proxy" where
  "px_handleAccept ec w =
     px_startConnect
       (if ec \<noteq> No_error then w
        else w\<lparr>px_connections := px_connections w @ [px_start new_proxy_connection]\<rparr>)"

datatype proxy_event = Task_done error_code | On_proxy_connection nat completion

definition proxy_event :: "proxy_event \<Rightarrow> asio_proxy \<Rightarrow> asio_proxy" where
  "proxy_event ev w =
     (case ev of
        Task_done ec \<Rightarrow>
          (case px_tasks w of
             [] \<Rightarrow> w
           | Resolving # ts \<Rightarrow> px_handleResolve ec (w\<lparr>px_tasks := ts\<rparr>)
           | Connecting # ts \<Rightarrow> px_handleConnect ec (w\<lparr>px_tasks := ts\<rparr>)
           | Accepting # ts \<Rightarrow> px_handleAccept ec (w\<lparr>px_tasks := ts\<rparr>))
      | On_proxy_connection i e \<Rightarrow>
          if i < length (px_connections w) then
            w\<lparr>px_connections := (px_connections w)[i := px_complete e (px_connections w ! i)]\<rparr>
          else w)"

definition proxy_may :: "asio_proxy \<Rightarrow> proxy_event \<Rightarrow> bool" where
  "proxy_may w ev =
     (case ev of
        Task_done ec \<Rightarrow> px_tasks w \<noteq> []
      | On_proxy_connection i e \<Rightarrow> i < length (px_connections w) \<and> px_may (px_connections w ! i) e)"

text \<open>The arguments of \<open>main\<close>; \<open>opens\<close>: whether the constructor can listen on the port. \<open>None\<close>: it serves.\<close>

definition asio_proxy_main :: "string list \<Rightarrow> (nat \<Rightarrow> bool) \<Rightarrow> int option \<times> nat option" where
  "asio_proxy_main argv opens =
     (if length argv \<noteq> 4 then (Some 1, None)
      else
        (case Convert (argv ! 3) 0 65535 of
           None \<Rightarrow> (Some 1, None)
         | Some listenPort \<Rightarrow> if opens listenPort then (None, Some listenPort) else (Some 1, None)))"

end
