(* ===== verification/Asio_Proxy_Correct.thy ===== *)
theory Asio_Proxy_Correct
  imports Asio_Proxy Asio_Server_Correct "HOL-Library.Sublist"
begin

text \<open>
  Correctness of the proxy of \<open>boost_asio\<close>: the invariant of a connection, and what reaches the server.
\<close>

lemmas px_handler_defs =
  px_handleReadRequest_def px_handleWriteRequest_def px_handleReadResponse_def px_handleWriteResponse_def
  px_handleDeadline_def px_stopped_def px_stop_def px_begin_def px_startReadRequest_def px_startWaitDeadline_def
  px_bytes_def px_handle_def px_complete_def px_may_def

definition px_open :: "proxy_connection \<Rightarrow> bool" where
  "px_open c \<longleftrightarrow> mConnectionSocket c \<and> mClientSocket c"

definition px_ok :: "proxy_connection \<Rightarrow> bool" where
  "px_ok c \<longleftrightarrow> mConnectionSocket c = mClientSocket c \<and>
     (if px_open c then length (px_ops c) = 1 \<and> px_waits c = 1 \<and> px_deadline c \<noteq> None
      else length (px_ops c) \<le> 1 \<and> px_waits c \<le> 1 \<and> px_deadline c = None) \<and>
     (px_open c \<longrightarrow> px_ops c = [Px_read_request] \<longrightarrow> mClientBuffer c = []) \<and>
     (px_open c \<longrightarrow> px_ops c = [Px_read_response] \<longrightarrow> mConnectionBuffer c = [])"

lemma px_ops_one:
  assumes "px_ok c" and "px_ops c \<noteq> []"
  obtains p where "px_ops c = [p]"
  using assms by (cases "px_ops c") (auto simp: px_ok_def split: if_splits)

lemma px_closed_step:
  assumes "px_ok c" and "\<not> px_open c" and "px_may c ev"
  shows "\<not> px_open (px_complete ev c) \<and> px_ok (px_complete ev c) \<and>
    Suc (length (px_ops (px_complete ev c)) + px_waits (px_complete ev c)) = length (px_ops c) + px_waits c"
proof (cases "px_ops c = []")
  case True
  with assms show ?thesis by (cases ev) (auto simp: px_handler_defs px_ok_def px_open_def)
next
  case False
  from px_ops_one [OF assms(1) False] obtain p where p: "px_ops c = [p]" .
  with assms show ?thesis
    by (cases ev; cases p) (auto simp: px_handler_defs px_ok_def px_open_def)
qed

lemma px_open_step:
  assumes "px_ok c" and "px_open c" and "px_may c ev"
  shows "px_ok (px_complete ev c)"
proof -
  have "px_ops c \<noteq> []" using assms(1,2) by (auto simp: px_ok_def)
  from px_ops_one [OF assms(1) this] obtain p where p: "px_ops c = [p]" .
  with assms show ?thesis
    by (cases ev; cases p)
       (auto simp: px_handler_defs px_ok_def px_open_def write_ok_def Let_def split: if_splits prod.splits)
qed

interpretation proxy_pair:
  async_object px_may px_complete px_ok "\<lambda>c. \<not> px_open c" "\<lambda>c. length (px_ops c) + px_waits c"
proof (unfold_locales, goal_cases)
  case (1 s e)
  then show ?case using px_open_step px_closed_step by blast
next
  case (2 s)
  then show ?case by (simp add: px_ok_def)
next
  case (3 s)
  then show ?case by (auto simp: px_ok_def split: if_splits)
next
  case (4 s e)
  with px_closed_step [of s e] show ?case by simp
qed

section \<open>What reaches the server\<close>

definition whole_lines :: "string list \<Rightarrow> string" where
  "whole_lines ls = concat (map (\<lambda>l. l @ [DELIM]) ls)"

definition no_stars :: "string list \<Rightarrow> bool" where
  "no_stars ls \<longleftrightarrow> (\<forall>l\<in>set ls. \<not> StartsWith l STAR_REQUEST_TYPE_cpp \<and> DELIM \<notin> set l)"

text \<open>The bytes given to the server, and those of the request on its way.\<close>

definition px_given :: "proxy_connection \<Rightarrow> string" where
  "px_given c = px_to_server c @ (if px_ops c = [Px_write_request] then mConnectionBuffer c else [])"

definition px_filtered :: "proxy_connection \<Rightarrow> bool" where
  "px_filtered c \<longleftrightarrow>
     (\<exists>ls. no_stars ls \<and> prefix (px_given c) (whole_lines ls) \<and> (px_open c \<longrightarrow> px_given c = whole_lines ls)) \<and>
     (px_open c \<longrightarrow> px_ops c = [Px_read_request] \<or> px_ops c = [Px_write_response] \<longrightarrow> mConnectionBuffer c = [])"

text \<open>The server answers a request with one line and nothing more.\<close>

definition reply_alone :: "proxy_connection \<Rightarrow> completion \<Rightarrow> bool" where
  "reply_alone c ev \<longleftrightarrow>
     (\<forall>d. px_ops c = [Px_read_response] \<longrightarrow> ev = Read_done No_error d \<longrightarrow>
        (\<exists>l. DELIM \<notin> set l \<and> mConnectionBuffer c @ d = l @ [DELIM]))"

lemma whole_lines_snoc: "whole_lines (ls @ [l]) = whole_lines ls @ l @ [DELIM]"
  by (simp add: whole_lines_def)

lemma no_stars_snoc: "no_stars (ls @ [l]) \<longleftrightarrow> no_stars ls \<and> \<not> StartsWith l STAR_REQUEST_TYPE_cpp \<and> DELIM \<notin> set l"
  by (auto simp: no_stars_def)

lemma px_filtered_keep:
  assumes "px_filtered c" and "px_given c' = px_given c" and "px_open c' \<longrightarrow> px_open c"
    and "px_open c' \<longrightarrow> px_ops c' = [Px_read_request] \<or> px_ops c' = [Px_write_response] \<longrightarrow> mConnectionBuffer c' = []"
  shows "px_filtered c'"
  using assms by (auto simp: px_filtered_def)

lemma px_filtered_closed:
  assumes "px_filtered c" and "\<not> px_open c'" and "prefix (px_given c') (px_given c)"
  shows "px_filtered c'"
  using assms prefix_order.trans by (force simp: px_filtered_def)

text \<open>One completion; only the request a client sends adds to what the server is given.\<close>

lemma px_filtered_request:
  assumes ok: "px_ok c" "px_open c" and f: "px_filtered c" and op: "px_ops c = [Px_read_request]"
    and d: "d = l @ DELIM # r" "DELIM \<notin> set l"
  shows "px_filtered (px_complete (Read_done No_error d) c)"
proof -
  have e: "mClientBuffer c = []" using ok op by (simp add: px_ok_def)
  have b: "mConnectionBuffer c = []" using f ok(2) op by (simp add: px_filtered_def)
  show ?thesis
  proof (cases "StartsWith l STAR_REQUEST_TYPE_cpp")
    case True
    show ?thesis
      by (rule px_filtered_keep [OF f])
         (use True e b d op ok(2) in \<open>simp_all add: px_handler_defs px_open_def px_given_def Let_def\<close>)
  next
    case False
    from f ok(2) op obtain ls where ls: "no_stars ls" "px_to_server c = whole_lines ls"
      by (auto simp: px_filtered_def px_given_def)
    let ?c = "px_complete (Read_done No_error d) c"
    have c': "px_given ?c = whole_lines (ls @ [l])" "px_ops ?c = [Px_write_request]"
      using False e b d op ok(2) ls(2) by (simp_all add: px_handler_defs px_open_def px_given_def Let_def whole_lines_snoc)
    have "no_stars (ls @ [l])" using ls(1) False d(2) by (simp add: no_stars_snoc)
    with c' show ?thesis unfolding px_filtered_def by auto
  qed
qed

lemma px_filtered_step:
  assumes "px_ok c" and "px_filtered c" and "px_may c ev" and "reply_alone c ev"
  shows "px_filtered (px_complete ev c)"
proof (cases "px_ops c = []")
  case True
  then have "\<not> px_open c" using assms(1) by (auto simp: px_ok_def)
  with True assms show ?thesis
    by (cases ev) (auto simp: px_handler_defs px_open_def px_filtered_def px_given_def)
next
  case False
  from px_ops_one [OF assms(1) False] obtain p where p: "px_ops c = [p]" .
  show ?thesis
  proof (cases "px_open c")
    case False
    then have closed: "\<not> px_open (px_complete ev c)" using px_closed_step [OF assms(1) _ assms(3)] by simp
    have "prefix (px_given (px_complete ev c)) (px_given c)"
      using False p assms(3)
      by (cases ev; cases p)
         (auto simp: px_handler_defs px_open_def px_given_def take_is_prefix)
    from px_filtered_closed [OF assms(2) closed this] show ?thesis .
  next
    case True
    show ?thesis
    proof (cases "\<exists>d. p = Px_read_request \<and> ev = Read_done No_error d")
      case True
      then obtain d where d: "p = Px_read_request" "ev = Read_done No_error d" by blast
      have "mClientBuffer c = []" using assms(1) \<open>px_open c\<close> p d(1) by (simp add: px_ok_def)
      then have "DELIM \<in> set d" using assms(3) p d by (simp add: px_may_def read_ok_def)
      then obtain l r where "d = l @ DELIM # r" "DELIM \<notin> set l" by (rule getlineE)
      from px_filtered_request [OF assms(1) \<open>px_open c\<close> assms(2) _ this] p d show ?thesis by simp
    next
      case False
      have b: "p = Px_read_request \<or> p = Px_write_response \<Longrightarrow> mConnectionBuffer c = []"
        using assms(2) True p by (simp add: px_filtered_def)
      show ?thesis
      proof (cases "px_open (px_complete ev c)")
        case True
        have "px_given (px_complete ev c) = px_given c \<and>
          (px_ops (px_complete ev c) = [Px_read_request] \<or> px_ops (px_complete ev c) = [Px_write_response] \<longrightarrow>
           mConnectionBuffer (px_complete ev c) = [])"
          using False True \<open>px_open c\<close> p b assms(3,4)
          by (cases ev; cases p)
             (auto simp: px_handler_defs px_open_def px_given_def write_ok_def reply_alone_def Let_def split: if_splits)
        with px_filtered_keep [OF assms(2)] \<open>px_open c\<close> show ?thesis by blast
      next
        case closed: False
        have "prefix (px_given (px_complete ev c)) (px_given c)"
          using False closed \<open>px_open c\<close> p assms(3)
          by (cases ev; cases p)
             (auto simp: px_handler_defs px_open_def px_given_def write_ok_def take_is_prefix Let_def split: if_splits prod.splits)
        from px_filtered_closed [OF assms(2) closed this] show ?thesis .
      qed
    qed
  qed
qed

lemma px_filtered_run:
  "px_ok c \<Longrightarrow> px_filtered c \<Longrightarrow> async_may (\<lambda>c ev. px_may c ev \<and> reply_alone c ev) px_complete c evs \<Longrightarrow>
     px_ok (async_run px_complete evs c) \<and> px_filtered (async_run px_complete evs c)"
proof (induction evs arbitrary: c)
  case (Cons ev evs)
  then have "px_ok (px_complete ev c)" "px_filtered (px_complete ev c)"
    using proxy_pair.step px_filtered_step by simp_all
  with Cons show ?case by simp
qed simp

lemma px_start_ok: "px_ok (px_start new_proxy_connection)" "px_filtered (px_start new_proxy_connection)"
proof -
  have "no_stars []" "whole_lines [] = []" by (simp_all add: no_stars_def whole_lines_def)
  then show "px_ok (px_start new_proxy_connection)" "px_filtered (px_start new_proxy_connection)"
    by (auto simp: px_ok_def px_filtered_def px_given_def px_open_def px_start_def new_proxy_connection_def
        px_startReadRequest_def px_startWaitDeadline_def px_begin_def intro!: exI [of _ "[]"])
qed

text \<open>The server takes none of these lines for a request of a star.\<close>

lemma no_star_await: "\<not> StartsWith l STAR_REQUEST_TYPE_cpp \<Longrightarrow> snd (serve_line m Read_request l) \<noteq> Await z"
  by (simp split: option.split)

section \<open>One exchange\<close>

text \<open>The completions of a request the server answers, in the order they come.\<close>

definition forwarded_exchange :: "string \<Rightarrow> string \<Rightarrow> string \<Rightarrow> completion list" where
  "forwarded_exchange request rest response =
     [Read_done No_error (request @ DELIM # rest), Write_done No_error (length request + 1),
      Read_done No_error (response @ [DELIM]), Write_done No_error (length rest + length response + 1)]"

lemma forwarded_exchange_run:
  assumes "px_ok c" and "px_open c" and "px_ops c = [Px_read_request]" and "mConnectionBuffer c = []"
    and "DELIM \<notin> set l" and "DELIM \<notin> set r" and "\<not> StartsWith l STAR_REQUEST_TYPE_cpp"
  shows "async_may px_may px_complete c (forwarded_exchange l rest r) \<and>
    (let c' = async_run px_complete (forwarded_exchange l rest r) c in
     px_open c' \<and> px_ops c' = [Px_read_request] \<and> mClientBuffer c' = [] \<and> mConnectionBuffer c' = [] \<and>
     px_to_server c' = px_to_server c @ l @ [DELIM] \<and> px_to_client c' = px_to_client c @ rest @ r @ [DELIM])"
proof -
  have e: "mClientBuffer c = []" using assms(1-3) by (simp add: px_ok_def)
  show ?thesis
    using assms e
    by (simp add: forwarded_exchange_def px_handler_defs px_open_def read_ok_def write_ok_def Let_def)
qed

lemma denied_exchange_run:
  assumes "px_ok c" and "px_open c" and "px_ops c = [Px_read_request]"
    and "DELIM \<notin> set l" and "StartsWith l STAR_REQUEST_TYPE_cpp"
  shows "let evs = [Read_done No_error (l @ DELIM # rest), Write_done No_error 8];
             c' = async_run px_complete evs c in
     async_may px_may px_complete c evs \<and> px_open c' \<and> px_ops c' = [Px_read_request] \<and> mClientBuffer c' = [] \<and>
     mConnectionBuffer c' = mConnectionBuffer c \<and> px_to_server c' = px_to_server c \<and>
     px_to_client c' = px_to_client c @ STAR_RESPONSE_FAILURE @ [DELIM]"
proof -
  have e: "mClientBuffer c = []" using assms(1-3) by (simp add: px_ok_def)
  show ?thesis
    using assms e
    by (simp add: px_handler_defs px_open_def read_ok_def write_ok_def Let_def STAR_RESPONSE_FAILURE_def)
qed

section \<open>The acceptor\<close>

lemma proxy_dead:
  "px_tasks w = [] \<Longrightarrow> px_tasks (proxy_event ev w) = [] \<and>
     length (px_connections (proxy_event ev w)) = length (px_connections w)"
  by (cases ev) (simp_all add: proxy_event_def)

lemma proxy_dead_run:
  "px_tasks w = [] \<Longrightarrow> px_tasks (async_run proxy_event evs w) = [] \<and>
     length (px_connections (async_run proxy_event evs w)) = length (px_connections w)"
  by (induction evs arbitrary: w) (simp_all add: proxy_dead)

end
