(* ===== verification/Asio_Table.thy ===== *)
theory Asio_Table
  imports Asio_Multi Asio_Proxy_Correct
begin

text \<open>
  The table of prognoses along a run of the \<open>boost_asio\<close> server, the exchanges of a connection with a star
  and with a human, and the conversion of decimal arguments.
\<close>

section \<open>The table\<close>

text \<open>What a completion publishes: the line of a star that has named its zodiac.\<close>

definition published :: "asio_server \<Rightarrow> server_event \<Rightarrow> (string \<times> string) option" where
  "published w ev =
     (case ev of
        On_connection i (Read_done No_error d) \<Rightarrow>
          if i < length (connections w) \<and> mSocket (connections w ! i) then
            (case conn_ops (connections w ! i) of
               Read_prognosis z # _ \<Rightarrow> Some (z, fst (getline (mBuffer (connections w ! i) @ d)))
             | _ \<Rightarrow> None)
          else None
      | _ \<Rightarrow> None)"

fun quiet :: "string \<Rightarrow> asio_server \<Rightarrow> server_event list \<Rightarrow> bool" where
  "quiet z w [] = True"
| "quiet z w (ev # evs) = ((\<forall>p. published w ev \<noteq> Some (z, p)) \<and> quiet z (server_event ev w) evs)"

lemma table_connection:
  "fst (conn_complete e (m, c)) =
    (case e of
       Read_done No_error d \<Rightarrow>
         (case conn_ops c of
            Read_prognosis z # _ \<Rightarrow> if mSocket c then m(z \<mapsto> fst (getline (mBuffer c @ d))) else m
          | _ \<Rightarrow> m)
     | _ \<Rightarrow> m)"
  by (auto simp: conn_complete_def handleReadPrognosis_def conn_stopped_def setPrognosis_def Let_def
      split: completion.split error_code.split list.split conn_op.split prod.split)

lemma table_step:
  "mPrognosisManager (server_event ev w) =
    (case published w ev of None \<Rightarrow> mPrognosisManager w | Some (z, p) \<Rightarrow> (mPrognosisManager w)(z \<mapsto> p))"
proof (cases ev)
  case (Accept_done ec)
  then show ?thesis by (simp add: server_event_def published_def handleAccept_def startAccept_def)
next
  case (On_connection i e)
  show ?thesis
  proof (cases "i < length (connections w)")
    case True
    then have "mPrognosisManager (server_event ev w) =
        fst (conn_complete e (mPrognosisManager w, connections w ! i))"
      using On_connection by (simp add: server_event_def split: prod.split)
    with True On_connection show ?thesis
      unfolding table_connection
      by (simp add: published_def split: completion.split error_code.split list.split conn_op.split)
  qed (use On_connection in \<open>auto simp: server_event_def published_def split: completion.split error_code.split\<close>)
qed

lemma quiet_table: "quiet z w evs \<Longrightarrow> mPrognosisManager (server_run evs w) z = mPrognosisManager w z"
proof (induction evs arbitrary: w)
  case (Cons ev evs)
  then have "mPrognosisManager (server_event ev w) z = mPrognosisManager w z"
    by (auto simp: table_step split: option.split prod.split)
  with Cons show ?case by simp
qed simp

section \<open>Exchanges of a connection\<close>

definition idle :: "connection \<Rightarrow> bool" where
  "idle c \<longleftrightarrow> mSocket c \<and> mBuffer c = [] \<and> conn_ops c = [Read_request]"

lemma of_c_str_append: "NUL \<notin> set z \<Longrightarrow> of_c_str (z @ r) = z @ of_c_str r"
  unfolding of_c_str_def by (induction z) auto

lemma zodiac_no_nul: "z \<in> set ZodiacList \<Longrightarrow> NUL \<notin> set z"
proof -
  have "\<forall>z\<in>set ZodiacList. NUL \<notin> set z" by code_simp
  then show "z \<in> set ZodiacList \<Longrightarrow> NUL \<notin> set z" by blast
qed

lemma zodiac_no_delim: "z \<in> set ZodiacList \<Longrightarrow> DELIM \<notin> set z"
proof -
  have "\<forall>z\<in>set ZodiacList. DELIM \<notin> set z" by code_simp
  then show "z \<in> set ZodiacList \<Longrightarrow> DELIM \<notin> set z" by blast
qed

lemma find_named: "z \<in> set ZodiacList \<Longrightarrow> FindZodiac (of_c_str (z @ r)) = Some z"
  by (simp add: FindZodiac_Some of_c_str_append zodiac_no_nul)

lemma types_apart: "\<not> StartsWith (CLIENT_REQUEST_TYPE_cpp @ s) STAR_REQUEST_TYPE_cpp"
  by (simp add: StartsWith_def CLIENT_REQUEST_TYPE_cpp_def STAR_REQUEST_TYPE_cpp_def)

lemma star_line:
  "z \<in> set ZodiacList \<Longrightarrow> serve_line m Read_request (STAR_REQUEST_TYPE_cpp @ z @ r) = (m, Await z)"
  by (simp add: find_named)

lemma client_line:
  "z \<in> set ZodiacList \<Longrightarrow> serve_line m Read_request (CLIENT_REQUEST_TYPE_cpp @ z @ r) =
    (m, Answer (case m z of Some p \<Rightarrow> p | None \<Rightarrow> UNKNOWN_PROGNOSIS))"
  by (simp add: find_named types_apart)

lemma types_no_delim: "DELIM \<notin> set STAR_REQUEST_TYPE_cpp" "DELIM \<notin> set CLIENT_REQUEST_TYPE_cpp"
  by (simp_all add: STAR_REQUEST_TYPE_cpp_def CLIENT_REQUEST_TYPE_cpp_def DELIM_def)

text \<open>A reply that has been written completely.\<close>

lemma write_whole:
  assumes "mSocket c" and "conn_ops c = [Write_response]"
  shows "conn_complete (Write_done No_error (length (mBuffer c))) (m, c) =
    (m, c\<lparr>mBuffer := [], conn_written := conn_written c @ mBuffer c, mDeadline := Some ReadRequestTimeout,
          conn_ops := [Read_request]\<rparr>)"
  using assms by (simp add: conn_complete_def conn_handler_defs Let_def)

text \<open>The two segmentations of what a star sends.\<close>

definition star_served :: "prognosis_map \<Rightarrow> connection \<Rightarrow> string \<Rightarrow> string \<Rightarrow> prognosis_map \<times> connection \<Rightarrow> bool" where
  "star_served m c z p mc \<longleftrightarrow>
     fst mc = m(z \<mapsto> p) \<and> idle (snd mc) \<and>
     conn_written (snd mc) = conn_written c @ STAR_RESPONSE_SUCCESS @ [DELIM]"

lemma serve_star_apart:
  assumes "idle c" and "z \<in> set ZodiacList" and "DELIM \<notin> set r" and "DELIM \<notin> set p"
  shows "star_served m c z p
    (async_run conn_complete
       [Read_done No_error (STAR_REQUEST_TYPE_cpp @ z @ r @ [DELIM]), Read_done No_error (p @ [DELIM]),
        Write_done No_error (length STAR_RESPONSE_SUCCESS + 1)] (m, c))"
proof -
  let ?l = "STAR_REQUEST_TYPE_cpp @ z @ r"
  let ?c1 = "after_line (Await z) [] c"
  let ?c2 = "after_line (Answer STAR_RESPONSE_SUCCESS) [] ?c1"
  have l: "DELIM \<notin> set ?l" using assms(2,3) zodiac_no_delim types_no_delim by simp
  have "conn_complete (Read_done No_error (?l @ [DELIM])) (m, c) = (m, ?c1)"
    using read_line [of c Read_request "?l @ [DELIM]" ?l "[]" m] assms(1) l star_line [OF assms(2), of m r]
    by (simp add: idle_def)
  moreover have "conn_complete (Read_done No_error (p @ [DELIM])) (m, ?c1) = (m(z \<mapsto> p), ?c2)"
    using read_line [of ?c1 "Read_prognosis z" "p @ [DELIM]" p "[]" m] assms(1,4)
    by (simp add: idle_def after_line_def)
  moreover have b: "mBuffer ?c2 = STAR_RESPONSE_SUCCESS @ [DELIM]" "mSocket ?c2" "conn_ops ?c2 = [Write_response]"
    using assms(1) by (simp_all add: after_line_def idle_def)
  from write_whole [OF b(2,3), of "m(z \<mapsto> p)", unfolded b(1)]
  have "conn_complete (Write_done No_error (length STAR_RESPONSE_SUCCESS + 1)) (m(z \<mapsto> p), ?c2) =
    (m(z \<mapsto> p), ?c2\<lparr>mBuffer := [], conn_written := conn_written ?c2 @ STAR_RESPONSE_SUCCESS @ [DELIM],
                    mDeadline := Some ReadRequestTimeout, conn_ops := [Read_request]\<rparr>)" by simp
  ultimately show ?thesis
    using assms(1) by (simp add: star_served_def idle_def after_line_def)
qed

lemma serve_star_together:
  assumes "idle c" and "z \<in> set ZodiacList" and "DELIM \<notin> set r" and "DELIM \<notin> set p"
  shows "star_served m c z p
    (async_run conn_complete
       [Read_done No_error (STAR_REQUEST_TYPE_cpp @ z @ r @ [DELIM] @ p @ [DELIM]), Read_done No_error [],
        Write_done No_error (length STAR_RESPONSE_SUCCESS + 1)] (m, c))"
proof -
  let ?l = "STAR_REQUEST_TYPE_cpp @ z @ r"
  let ?c1 = "after_line (Await z) (p @ [DELIM]) c"
  let ?c2 = "after_line (Answer STAR_RESPONSE_SUCCESS) [] ?c1"
  have l: "DELIM \<notin> set ?l" using assms(2,3) zodiac_no_delim types_no_delim by simp
  have "conn_complete (Read_done No_error (?l @ [DELIM] @ p @ [DELIM])) (m, c) = (m, ?c1)"
    using read_line [of c Read_request "?l @ [DELIM] @ p @ [DELIM]" ?l "p @ [DELIM]" m] assms(1) l
      star_line [OF assms(2), of m r]
    by (simp add: idle_def)
  moreover have "conn_complete (Read_done No_error []) (m, ?c1) = (m(z \<mapsto> p), ?c2)"
    using read_line [of ?c1 "Read_prognosis z" "[]" p "[]" m] assms(1,4)
    by (simp add: idle_def after_line_def)
  moreover have b: "mBuffer ?c2 = STAR_RESPONSE_SUCCESS @ [DELIM]" "mSocket ?c2" "conn_ops ?c2 = [Write_response]"
    using assms(1) by (simp_all add: after_line_def idle_def)
  from write_whole [OF b(2,3), of "m(z \<mapsto> p)", unfolded b(1)]
  have "conn_complete (Write_done No_error (length STAR_RESPONSE_SUCCESS + 1)) (m(z \<mapsto> p), ?c2) =
    (m(z \<mapsto> p), ?c2\<lparr>mBuffer := [], conn_written := conn_written ?c2 @ STAR_RESPONSE_SUCCESS @ [DELIM],
                    mDeadline := Some ReadRequestTimeout, conn_ops := [Read_request]\<rparr>)" by simp
  ultimately show ?thesis
    using assms(1) by (simp add: star_served_def idle_def after_line_def)
qed

lemma serve_human:
  assumes "idle c" and "z \<in> set ZodiacList" and "DELIM \<notin> set r" and "m z = Some p"
  shows "let mc = async_run conn_complete
      [Read_done No_error (CLIENT_REQUEST_TYPE_cpp @ z @ r @ [DELIM]), Write_done No_error (length p + 1)] (m, c) in
    fst mc = m \<and> idle (snd mc) \<and> conn_written (snd mc) = conn_written c @ p @ [DELIM]"
proof -
  let ?l = "CLIENT_REQUEST_TYPE_cpp @ z @ r"
  let ?c1 = "after_line (Answer p) [] c"
  have l: "DELIM \<notin> set ?l" using assms(2,3) zodiac_no_delim types_no_delim by simp
  have "conn_complete (Read_done No_error (?l @ [DELIM])) (m, c) = (m, ?c1)"
    using read_line [of c Read_request "?l @ [DELIM]" ?l "[]" m] assms(1,4) l client_line [OF assms(2), of m r]
    by (simp add: idle_def)
  moreover have b: "mBuffer ?c1 = p @ [DELIM]" "mSocket ?c1" "conn_ops ?c1 = [Write_response]"
    using assms(1) by (simp_all add: after_line_def idle_def)
  from write_whole [OF b(2,3), of m, unfolded b(1)]
  have "conn_complete (Write_done No_error (length p + 1)) (m, ?c1) =
    (m, ?c1\<lparr>mBuffer := [], conn_written := conn_written ?c1 @ p @ [DELIM],
           mDeadline := Some ReadRequestTimeout, conn_ops := [Read_request]\<rparr>)" by simp
  ultimately show ?thesis
    using assms(1) by (simp add: idle_def after_line_def)
qed

text \<open>A run of one connection of the server.\<close>

lemma server_connection_run:
  "i < length (connections w) \<Longrightarrow>
   server_run (map (On_connection i) es) w =
    (case async_run conn_complete es (mPrognosisManager w, connections w ! i) of (m, c) \<Rightarrow>
       w\<lparr>mPrognosisManager := m, connections := (connections w)[i := c]\<rparr>)"
proof (induction es arbitrary: w)
  case (Cons e es)
  obtain m c where mc: "conn_complete e (mPrognosisManager w, connections w ! i) = (m, c)" by fastforce
  let ?w = "w\<lparr>mPrognosisManager := m, connections := (connections w)[i := c]\<rparr>"
  have "server_event (On_connection i e) w = ?w" using Cons.prems mc by (simp add: server_event_def)
  with Cons.IH [of ?w] Cons.prems mc show ?case by (simp split: prod.split)
qed simp

section \<open>Decimal arguments\<close>

lemma hex_digit: "n < 10 \<Longrightarrow> hex_val (digit n) = n"
  by (simp add: hex_val_def of_digit Let_def)

lemma decimal_head: "0 < n \<Longrightarrow> hd (decimal n) \<noteq> CHR ''0''"
proof (induction n rule: decimal.induct)
  case (1 n)
  show ?case
  proof (cases "n < 10")
    case True
    have "(of_char (digit n) :: nat) \<noteq> of_char CHR ''0''" using 1(2) True of_digit [OF True] by simp
    then have "digit n \<noteq> CHR ''0''" by metis
    with True show ?thesis by (simp add: decimal.simps)
  next
    case False
    with 1 decimal_nonempty [of "n div 10"] show ?thesis
      by (subst decimal.simps) (simp add: hd_append)
  qed
qed

lemma number_base_ten: "s \<noteq> [] \<Longrightarrow> hd s \<noteq> CHR ''0'' \<Longrightarrow> number_base s = (10, s)"
  by (cases s rule: number_base.cases) auto

lemma strtoull0_decimal:
  assumes "n \<le> ULONG_MAX"
  shows "strtoull0 (decimal n) = (n, [], False)"
proof (cases "n = 0")
  case True
  have "digit 0 = CHR ''0''" by code_simp
  then have "decimal 0 = ''0''" by (simp add: decimal.simps)
  moreover have "hex_val CHR ''0'' = 0" by code_simp
  then have "strtoull0 ''0'' = (0, [], False)" by (simp add: strtoull0_def is_space_def is_digit_in_def)
  ultimately show ?thesis using True by simp
next
  case False
  let ?d = "decimal n"
  obtain k ds where d: "?d = digit k # ds" "k < 10"
    using decimal_digits [of n] decimal_nonempty [of n] by (cases ?d) auto
  have head: "dropWhile is_space ?d = ?d" "sign ?d = (False, ?d)" using d digit_facts [OF d(2)] by simp_all
  have base: "number_base ?d = (10, ?d)"
    using False by (intro number_base_ten decimal_nonempty decimal_head) simp
  have hex: "hex_val c = digit_val c" "hex_val c < 10" if "c \<in> set ?d" for c
    using that decimal_digits [of n] by (auto simp: hex_digit digit_facts)
  then have all: "takeWhile (is_digit_in 10) ?d = ?d" "dropWhile (is_digit_in 10) ?d = []"
    by (simp_all add: takeWhile_eq_all_conv is_digit_in_def)
  have "foldl (\<lambda>n c. 10 * n + hex_val c) 0 ?d = digits_val ?d"
    unfolding digits_val_def by (rule foldl_cong) (simp_all add: hex)
  then have val: "foldl (\<lambda>n c. 10 * n + hex_val c) 0 ?d = n" by (simp add: digits_val_decimal)
  show ?thesis
    unfolding strtoull0_def head Let_def split_conv base all val
    using assms decimal_nonempty [of n] by (simp only: if_False not_less if_not_P simp_thms)
qed

end
