(* ===== verification/Asio_Props.thy ===== *)
theory Asio_Props
  imports Asio_Table
begin

text \<open>The properties of the three programs of \<open>boost_asio\<close>.\<close>

section \<open>The server\<close>

text \<open>
  C24. Whatever completions come in whatever order, the server goes on accepting, every connection is in order
  (an open one has exactly one operation and one wait in flight and a deadline set, a closed one starts
  nothing), and the table holds lines of zodiacs only.
\<close>
theorem asio_server_wellformed:
  assumes "run_may Server evs"
  shows "accepting (server_run evs Server) \<and>
    (\<forall>c\<in>set (connections (server_run evs Server)).
       conn_ok c \<and> (mSocket c \<longrightarrow> length (conn_ops c) = 1 \<and> conn_waits c = 1 \<and> mDeadline c \<noteq> None)) \<and>
    (\<forall>z p. mPrognosisManager (server_run evs Server) z = Some p \<longrightarrow> z \<in> set ZodiacList \<and> DELIM \<notin> set p)"
  using server_run_ok [OF Server_inv assms]
  by (auto simp: asio_server_inv_def manager_ok_def conn_ok_def ran_def)

theorem asio_server_wellformed_witness:
  "accepting (server_run [Accept_done No_error, On_connection 0 (Read_done Eof [])] Server)"
proof -
  have "run_may Server [Accept_done No_error, On_connection 0 (Read_done Eof [])]"
    by (simp add: Server_def server_may_def server_event_def startAccept_def handleAccept_def conn_may_def
        conn_start_def new_connection_def startReadRequest_def startWaitDeadline_def read_ok_def)
  from asio_server_wellformed [OF this] show ?thesis by simp
qed

definition ex_connection :: connection where
  "ex_connection = conn_start new_connection"

lemma ex_connection_idle: "idle ex_connection" "conn_ops ex_connection = [Read_request]" "mSocket ex_connection"
  by (simp_all add: idle_def ex_connection_def conn_start_def new_connection_def startReadRequest_def startWaitDeadline_def)

text \<open>
  C23. A connection does with a line what the protocol says: a request of a star makes it wait for the line of
  that star, which is stored; a request of a client is answered from the table; anything else closes it. The
  answer is written behind whatever has arrived after the line, and when it has been written the connection
  waits for a request with an empty buffer: bytes that follow a request in its segment are sent back to the
  client and are never served.
\<close>
theorem asio_request_served:
  assumes "mSocket c" and "conn_ops c = [p]" and "p \<noteq> Write_response"
    and "mBuffer c @ d = line @ DELIM # rest" and "DELIM \<notin> set line"
  shows "fst (conn_complete (Read_done No_error d) (m, c)) = fst (serve_line m p line) \<and>
    (let c' = snd (conn_complete (Read_done No_error d) (m, c)) in
     case snd (serve_line m p line) of
       Refuse \<Rightarrow> \<not> mSocket c' \<and> conn_ops c' = []
     | Await z \<Rightarrow> mSocket c' \<and> conn_ops c' = [Read_prognosis z] \<and> mBuffer c' = rest
     | Answer r \<Rightarrow>
         mSocket c' \<and> conn_ops c' = [Write_response] \<and> mBuffer c' = rest @ r @ [DELIM] \<and>
         (let c'' = snd (conn_complete (Write_done No_error (length (mBuffer c'))) (m, c')) in
          idle c'' \<and> conn_written c'' = conn_written c @ rest @ r @ [DELIM]))"
proof -
  note rl = read_line [OF assms, of m]
  let ?v = "snd (serve_line m p line)"
  show ?thesis
  proof (cases ?v)
    case (Answer r)
    let ?c = "after_line ?v rest c"
    have b: "mBuffer ?c = rest @ r @ [DELIM]" "mSocket ?c" "conn_ops ?c = [Write_response]"
      using Answer assms(1) by (simp_all add: after_line_def)
    from write_whole [OF b(2,3), of m] b Answer show ?thesis
      by (simp add: rl idle_def) (simp add: after_line_def)
  qed (use assms(1) in \<open>simp_all add: rl after_line_def\<close>)
qed

theorem asio_request_served_witness:
  "let c' = snd (conn_complete (Read_done No_error (''HOROSCOPE Leo'' @ DELIM # ''more'')) (Map.empty, ex_connection)) in
   mBuffer c' = ''more'' @ UNKNOWN_PROGNOSIS @ [DELIM]"
proof -
  have v: "serve_line Map.empty Read_request (CLIENT_REQUEST_TYPE_cpp @ ''Leo'' @ []) = (Map.empty, Answer UNKNOWN_PROGNOSIS)"
    by (subst client_line) (simp_all add: ZodiacList_def)
  have l: "''HOROSCOPE Leo'' = CLIENT_REQUEST_TYPE_cpp @ ''Leo'' @ []" by (simp add: CLIENT_REQUEST_TYPE_cpp_def)
  have "mBuffer ex_connection = []" using ex_connection_idle(1) by (simp add: idle_def)
  then have b: "mBuffer ex_connection @ ''HOROSCOPE Leo'' @ DELIM # ''more'' = ''HOROSCOPE Leo'' @ DELIM # ''more''"
    by simp
  have "DELIM \<notin> set ''HOROSCOPE Leo''" by (simp add: DELIM_def)
  from asio_request_served [OF ex_connection_idle(3,2) _ b this, of Map.empty] show ?thesis
    unfolding l v by (simp add: Let_def)
qed




section \<open>The proxy\<close>


lemma px_started:
  "px_ok (px_start new_proxy_connection)" "px_open (px_start new_proxy_connection)"
  "px_ops (px_start new_proxy_connection) = [Px_read_request]" "mConnectionBuffer (px_start new_proxy_connection) = []"
  by (simp_all add: px_ok_def px_open_def px_start_def new_proxy_connection_def px_startReadRequest_def
      px_startWaitDeadline_def px_begin_def)


text \<open>
  C26. An idle connection of the proxy passes a request that is no star's to the server, whole, and the answer
  back to the client, behind the bytes that had arrived after the request; it answers a request of a star
  itself and drops what came with it. Either way it is idle again.
\<close>
theorem asio_proxy_exchange:
  assumes "px_ok c" and "px_open c" and "px_ops c = [Px_read_request]" and "mConnectionBuffer c = []"
    and "DELIM \<notin> set l" and "DELIM \<notin> set r"
  shows "if StartsWith l STAR_REQUEST_TYPE_cpp
    then (let c' = async_run px_complete [Read_done No_error (l @ DELIM # rest), Write_done No_error 8] c in
      px_ops c' = [Px_read_request] \<and> mClientBuffer c' = [] \<and> px_to_server c' = px_to_server c \<and>
      px_to_client c' = px_to_client c @ STAR_RESPONSE_FAILURE @ [DELIM])
    else (let c' = async_run px_complete (forwarded_exchange l rest r) c in
      async_may px_may px_complete c (forwarded_exchange l rest r) \<and>
      px_ops c' = [Px_read_request] \<and> mClientBuffer c' = [] \<and> px_to_server c' = px_to_server c @ l @ [DELIM] \<and>
      px_to_client c' = px_to_client c @ rest @ r @ [DELIM])"
  using denied_exchange_run [OF assms(1-3,5), of rest] forwarded_exchange_run [OF assms, of rest]
  by (simp add: Let_def)

theorem asio_proxy_exchange_witness:
  "px_to_client (async_run px_complete (forwarded_exchange ''HOROSCOPE Leo'' [] ''luck'') (px_start new_proxy_connection)) =
     ''luck'' @ [DELIM]"
proof -
  have l: "\<not> StartsWith ''HOROSCOPE Leo'' STAR_REQUEST_TYPE_cpp" "DELIM \<notin> set ''HOROSCOPE Leo''" "DELIM \<notin> set ''luck''"
    by (simp_all add: StartsWith_def STAR_REQUEST_TYPE_cpp_def DELIM_def)
  have "px_to_client (px_start new_proxy_connection) = []"
    by (simp add: px_start_def new_proxy_connection_def px_startReadRequest_def px_startWaitDeadline_def px_begin_def)
  with asio_proxy_exchange [OF px_started l(2,3), of "[]"] l(1) show ?thesis by (simp add: Let_def)
qed

text \<open>
  C29. One failed connection to the server, or a failed resolution, ends the proxy: nothing is left in flight
  in the class \<open>Proxy\<close>, and no client is accepted any more, whatever happens later.
\<close>
theorem asio_proxy_gives_up:
  assumes "px_tasks w = [Connecting] \<or> px_tasks w = [Resolving]" and "ec \<noteq> No_error"
  shows "px_tasks (async_run proxy_event (Task_done ec # evs) w) = [] \<and>
    length (px_connections (async_run proxy_event (Task_done ec # evs) w)) = length (px_connections w)"
proof -
  have "px_tasks (proxy_event (Task_done ec) w) = [] \<and>
      px_connections (proxy_event (Task_done ec) w) = px_connections w"
    using assms by (auto simp: proxy_event_def px_handleConnect_def px_handleResolve_def)
  with proxy_dead_run [of "proxy_event (Task_done ec) w" evs] show ?thesis by simp
qed

theorem asio_proxy_gives_up_witness:
  "px_tasks (async_run proxy_event [Task_done No_error, Task_done Other_error, Task_done No_error] Proxy) = []"
proof -
  have "px_tasks (proxy_event (Task_done No_error) Proxy) = [Connecting]"
    by (simp add: proxy_event_def Proxy_def px_handleResolve_def px_startConnect_def)
  with asio_proxy_gives_up [of "proxy_event (Task_done No_error) Proxy" Other_error "[Task_done No_error]"]
  show ?thesis by simp
qed

section \<open>All four classes\<close>

text \<open>
  C27. Objects end. A connection of the server, a connection of the proxy, a star and a human have something in
  flight as long as they are open, and once one of them is closed at most two completions are left to come,
  after which nothing refers to it.
\<close>
theorem asio_objects_drain:
  shows "(async_may (\<lambda>mc ev. conn_may (snd mc) ev) conn_complete (Map.empty, conn_start new_connection) (es @ es') \<longrightarrow>
      (let c = snd (async_run conn_complete es (Map.empty, conn_start new_connection)) in
       if mSocket c then conn_ops c \<noteq> [] \<or> 0 < conn_waits c else length es' \<le> 2)) \<and>
    (async_may px_may px_complete (px_start new_proxy_connection) (es @ es') \<longrightarrow>
      (let c = async_run px_complete es (px_start new_proxy_connection) in
       if px_open c then px_ops c \<noteq> [] \<or> 0 < px_waits c else length es' \<le> 2)) \<and>
    (async_may st_may st_complete (Star z p r) (es @ es') \<longrightarrow>
      (let c = async_run st_complete es (Star z p r) in
       if st_closed c then length es' \<le> 2 else cl_ops c \<noteq> [] \<or> 0 < cl_waits c)) \<and>
    (async_may hu_may hu_complete (Human z r) (es @ es') \<longrightarrow>
      (let c = async_run hu_complete es (Human z r) in
       if hu_closed c then length es' \<le> 2 else cl_ops c \<noteq> [] \<or> 0 < cl_waits c))"
proof (intro conjI impI)
  have m: "manager_ok (fst (Map.empty, conn_start new_connection)) \<and> conn_ok (snd (Map.empty, conn_start new_connection))"
    using new_connection_ok by (simp add: manager_ok_def)
  assume "async_may (\<lambda>mc ev. conn_may (snd mc) ev) conn_complete (Map.empty, conn_start new_connection) (es @ es')"
  from server_connection.drains [OF m this]
  show "let c = snd (async_run conn_complete es (Map.empty, conn_start new_connection)) in
       if mSocket c then conn_ops c \<noteq> [] \<or> 0 < conn_waits c else length es' \<le> 2" by (auto simp: Let_def)
next
  assume "async_may px_may px_complete (px_start new_proxy_connection) (es @ es')"
  from proxy_pair.drains [OF px_started(1) this]
  show "let c = async_run px_complete es (px_start new_proxy_connection) in
       if px_open c then px_ops c \<noteq> [] \<or> 0 < px_waits c else length es' \<le> 2" by (auto simp: Let_def)
next
  assume "async_may st_may st_complete (Star z p r) (es @ es')"
  from star_object.drains [OF Star_ok this]
  show "let c = async_run st_complete es (Star z p r) in
       if st_closed c then length es' \<le> 2 else cl_ops c \<noteq> [] \<or> 0 < cl_waits c" by (auto simp: Let_def)
next
  assume "async_may hu_may hu_complete (Human z r) (es @ es')"
  from human_object.drains [OF Human_ok this]
  show "let c = async_run hu_complete es (Human z r) in
       if hu_closed c then length es' \<le> 2 else cl_ops c \<noteq> [] \<or> 0 < cl_waits c" by (auto simp: Let_def)
qed

theorem asio_objects_drain_witness:
  "let c = async_run st_complete (star_exchange_events ''Leo'' ''p'' [] ''x'') (Star ''Leo'' ''p'' []) in
   if st_closed c then length ([] :: completion list) \<le> 2 else cl_ops c \<noteq> [] \<or> 0 < cl_waits c"
proof -
  have "DELIM \<notin> set ''x''" by (simp add: DELIM_def)
  from star_exchange_run [OF this, of "''Leo''" "''p''" "[]"]
  have "async_may st_may st_complete (Star ''Leo'' ''p'' []) (star_exchange_events ''Leo'' ''p'' [] ''x'' @ [])"
    by (simp add: Let_def)
  with asio_objects_drain [where es = "star_exchange_events ''Leo'' ''p'' [] ''x''" and es' = "[]"] show ?thesis by blast
qed

section \<open>The client\<close>

lemma st_ok_done: "st_ok c \<Longrightarrow> st_done c \<le> 1"
  unfolding st_ok_def by (auto split: if_splits)

lemma hu_ok_results: "hu_ok c \<Longrightarrow> length (hu_results c) \<le> 1"
  unfolding hu_ok_def by (auto split: if_splits)

text \<open>
  C28. The counters of the multi-client test are right: whatever completions come in whatever interleaving,
  \<open>SetAllZodiacs\<close> succeeds exactly if every star has been thanked, and \<open>PollAllZodiacs\<close> returns 0 exactly
  if every human has been given the prognosis of its zodiac; no callback is counted twice.
\<close>
theorem asio_multi_counts:
  assumes "async_may (may_at st_may) (at_index st_complete) (create_stars s) evs"
    and "async_may (may_at hu_may) (at_index hu_complete) (CreateHumans n) evs'"
    and "reserves n" and "\<forall>k<n. creates k"
  shows "(fst (SetAllZodiacs s evs) \<longleftrightarrow> (\<forall>star\<in>set (snd (SetAllZodiacs s evs)). st_done star = 1)) \<and>
    PollAllZodiacs reserves creates n s evs' =
      (Ran, if \<forall>i<n. hu_results (async_run (at_index hu_complete) evs' (CreateHumans n) ! i) = [zodiac_of_index i @ s]
            then 0 else 1)"
proof
  let ?stars = "async_run (at_index st_complete) evs (create_stars s)"
  have "\<forall>x\<in>set (create_stars s). st_ok x" by (auto simp: create_stars_def Star_ok)
  from at_index_run [where P = st_ok, OF st_step this assms(1)]
  have "\<forall>x\<in>set ?stars. st_done x \<le> 1" using st_ok_done by blast
  from sum_list_ones [OF this]
  show "fst (SetAllZodiacs s evs) \<longleftrightarrow> (\<forall>star\<in>set (snd (SetAllZodiacs s evs)). st_done star = 1)"
    by (simp add: SetAllZodiacs_def zodiacCounter_def Let_def)
next
  let ?humans = "async_run (at_index hu_complete) evs' (CreateHumans n)"
  let ?f = "\<lambda>i. length (filter (\<lambda>r. r = zodiac_of_index i @ s) (hu_results (?humans ! i)))"
  have "\<forall>x\<in>set (CreateHumans n). hu_ok x" by (auto simp: CreateHumans_def Human_ok)
  from at_index_run [where P = hu_ok, OF hu_step this assms(2)]
  have ok: "\<forall>x\<in>set ?humans. hu_ok x" and len: "length ?humans = n" by (simp_all add: CreateHumans_def)
  have few: "length (hu_results (?humans ! i)) \<le> 1" if "i < n" for i
  proof -
    have "hu_ok (?humans ! i)" using ok len that by simp
    then show ?thesis by (rule hu_ok_results)
  qed
  have le: "\<forall>i<n. ?f i \<le> 1" using few length_filter_le order_trans by blast
  have one: "?f i = 1 \<longleftrightarrow> hu_results (?humans ! i) = [zodiac_of_index i @ s]" if "i < n" for i
    using few [OF that] by (cases "hu_results (?humans ! i)") auto
  have "humanCounter s ?humans = n \<longleftrightarrow> (\<forall>i<n. hu_results (?humans ! i) = [zodiac_of_index i @ s])"
    unfolding humanCounter_def len sum_ones [OF le] using one by simp
  moreover have "ParallelRun creates n = Ran"
    using assms(4) by (simp add: ParallelRun_def start_threads_iff join_returns_def)
  ultimately show "PollAllZodiacs reserves creates n s evs' =
      (Ran, if \<forall>i<n. hu_results (?humans ! i) = [zodiac_of_index i @ s] then 0 else 1)"
    using assms(3) len by (simp add: PollAllZodiacs_def Let_def)
qed

theorem asio_multi_counts_witness:
  "PollAllZodiacs (\<lambda>_. True) (\<lambda>_. True) 1 '' value'' [] = (Ran, 1)"
proof -
  have "hu_results (CreateHumans 1 ! 0) = []" by (simp add: CreateHumans_def Human_def)
  with asio_multi_counts [of "'' value''" "[]" 1 "[]" "\<lambda>_. True" "\<lambda>_. True"] show ?thesis by auto
qed





end
