(* ===== verification/Spec2Isabelle.thy ===== *)
theory Spec2Isabelle
  imports Server_Props Event_Props Conn_Props Accept_Props Heap_Props Heap_Test_Props Proxy_Children Client_Props Asio_Props
begin

text \<open>
  A verification of the astrologer: a toy protocol over TCP in which stars publish prognoses for the signs of the
  zodiac, clients ask for them, and a proxy keeps stars away from the server. The repository has it twice,
  on the Unix socket API in C (\<open>src/unix_socket_api\<close>) and on Boost.Asio in C++ (\<open>src/boost_asio\<close>); both are
  modelled.

  \<^bold>\<open>The parts in C.\<close> The server (\<open>src/astrolog.c\<close>) is one process around \<open>epoll\<close>: it keeps a state per
  connection on the heap, a table of one prognosis per sign, and a binary heap of pointers to the connection
  states ordered by deadline (\<open>binary_heap/binary_heap.c\<close>), whose callbacks keep in each state the slot it
  is in. The proxy (\<open>src/proxy.c\<close>) and the client (\<open>src/client.c\<close>) use blocking line I/O
  (\<open>generic/generic.c\<close>) and \<open>fork\<close>; the two children of the proxy share one connection to the server. A test
  program exercises the heap (\<open>binary_heap/binary_heap_test.c\<close>).

  \<^bold>\<open>The parts in C++.\<close> \<open>server.cpp\<close>, \<open>proxy.cpp\<close> and \<open>client.cpp\<close> are sets of completion handlers on
  objects with a socket, a buffer and a deadline, over the string functions of \<open>include/common.h\<close>.
\<close>

text \<open>
  \<^bold>\<open>Theories and sources.\<close>

  \<^item> \<open>Prelude\<close>: the result type \<open>c_result\<close> of C code (undefined behaviour and \<open>exit\<close> are values), the
    calculus \<open>safe\<close>, checked arrays, \<open>memcpy\<close>, \<open>memchr\<close>, integer conversions. \<open>C_Library\<close>: \<open>strtoul\<close> and
    \<open>sprintf\<close> of numbers.
  \<^item> \<open>Binary_Heap\<close>: \<open>binary_heap.c\<close>. \<open>Heap_Correct\<close>, \<open>Heap_Contract\<close>, \<open>Heap_Index\<close>: the sift loops, the
    operations and the positions, in the locales \<open>heap_order\<close> and \<open>heap_indexed\<close>, whose assumptions are the
    contract of the two callbacks. The locale is interpreted on the callbacks of the server (\<open>server_heap\<close> in
    \<open>Server_State\<close>) and on those of the test (\<open>test_heap\<close> in \<open>Heap_Test\<close>).
  \<^item> \<open>Heap_Test\<close>: \<open>binary_heap_test.c\<close>; \<open>Heap_Test_Correct\<close>, \<open>Heap_Test_Phases\<close>, \<open>Heap_Test_Props\<close>: its books,
    its phases, its \<open>main\<close>.
  \<^item> \<open>Sockets\<close>: a connected socket as a script of what \<open>recv\<close> and \<open>send\<close> will do. \<open>Generic\<close>: \<open>generic.c\<close>
    and \<open>generic.h\<close>; \<open>Generic_Correct\<close>, \<open>Buffered_Reader\<close>, \<open>Line_IO\<close>: what its functions promise.
  \<^item> \<open>Server_State\<close>, \<open>Server_Protocol\<close>, \<open>Server_Main\<close>: \<open>astrolog.c\<close>, from the callbacks of the heap to \<open>main\<close>.
    \<open>Protocol_Spec\<close>: the protocol as a small machine on bytes. \<open>Server_Heap\<close>, \<open>Server_Inv\<close>, \<open>Server_Parse\<close>,
    \<open>Server_Handlers\<close>, \<open>Server_Loop\<close>, \<open>Server_Update\<close>, \<open>Server_Event\<close>: the invariant of the process and the
    refinement of that machine, from the handlers to one event. \<open>Server_Accept\<close>, \<open>Server_Rounds\<close>,
    \<open>Server_Process\<close>, \<open>Server_Clock\<close>: new and expired connections, the loop, the process.
  \<^item> \<open>Processes\<close>: the loop over \<open>fork\<close>. \<open>Proxy\<close>: \<open>proxy.c\<close>; \<open>Proxy_Correct\<close>, \<open>Proxy_Session\<close>,
    \<open>Proxy_Children\<close>: its turns, the session it realises, the interleaving of its children. \<open>Client\<close>: \<open>client.c\<close>;
    \<open>Client_Correct\<close>: its exchanges, in the locale \<open>client_exchange\<close>, interpreted on each of the three.
  \<^item> \<open>Asio_Common\<close>: \<open>common.h\<close> and the completions. \<open>Async_Object\<close>: the contract of an object driven by
    completions, a locale interpreted on the four classes. \<open>Asio_Server\<close>, \<open>Asio_Proxy\<close>, \<open>Asio_Client\<close>,
    \<open>Asio_Multi\<close>: the three programs; \<open>Asio_Server_Correct\<close>, \<open>Asio_Proxy_Correct\<close>, \<open>Asio_Client_Correct\<close>,
    \<open>Asio_Table\<close>: their invariants and exchanges.
  \<^item> The properties are in \<open>Server_Props\<close>, \<open>Event_Props\<close>, \<open>Conn_Props\<close>, \<open>Accept_Props\<close>, \<open>Heap_Props\<close>,
    \<open>Heap_Test_Props\<close>, \<open>Proxy_Props\<close>, \<open>Proxy_Children\<close>, \<open>Client_Props\<close>, \<open>Asio_Props\<close>, \<open>Generic_Correct\<close>.
    \<open>Server_Example\<close> has the process the witnesses run on.
\<close>

text \<open>
  \<^bold>\<open>How the C code is modelled.\<close> Every function is a function of the state it reads and writes; a struct is a
  record, an enumeration a datatype. Pointers to connection states and to test elements are addresses in a map,
  so that a use after \<open>free\<close> is undefined; arrays are lists of the size of the block, and every access is checked.
  \<open>size_t\<close> conversions wrap. Loops that end by their form or by a measure are total functions; the loops of
  \<open>update_state\<close>, of the proxy and of the cleanup are partial functions in the option type, where \<open>None\<close> is a run
  that never returns, and that they return is proved, or refuted: one input hangs the server. Nothing
  uses fuel. The system calls are arguments: a socket carries the segments and the partial writes that will
  happen, \<open>malloc\<close>, \<open>clock_gettime\<close>, \<open>epoll_ctl\<close>, \<open>fork\<close> and \<open>rand\<close> are functions of a call counter, and
  \<open>epoll_wait\<close> and \<open>accept4\<close> give a list of results. What is assumed of them (\<open>malloc_ok\<close>, \<open>wait_ok\<close>,
  \<open>startup_ok\<close>, \<open>env_ok\<close>) is documented behaviour: fresh blocks of the size asked for, ready events of
  registered descriptors only.

  \<^bold>\<open>How the C++ code is modelled.\<close> Boost.Asio is not. An object is a record with the operations it has in
  flight; a handler maps it to the object after it; a run is a sequence of completions, each with an error code
  and the bytes that were read or written, in any order and interleaving that the documentation of the
  operations allows (\<open>conn_may\<close>, \<open>px_may\<close>, \<open>st_may\<close>, \<open>hu_may\<close>). So the theorems hold for every behaviour of the
  library within its documentation. Handlers of one object never overlap, by the strand of the client and
  the single thread of the servers.

  \<^bold>\<open>What the properties show.\<close> For the C server: its invariant in every reachable state, no undefined
  behaviour and no leak to the exit of \<open>main\<close>; each event refines the protocol machine; prognoses reach later
  clients; connections do not disturb each other; deadlines; when the processing loop does not end. For the
  heap: its operations on the queue of connections and the test program that drains it in order. For the proxies:
  what they let through, the session they realise, how failures and sharing break it. For the clients: what
  they send, when they succeed, that the servers understand it. For the C++ objects: their life cycle, the
  meaning of a line, the path of a prognosis from a star to a human.

  \<^bold>\<open>Bounds.\<close> Times of the C server are unbounded integers; those of the test program are checked in \<open>long\<close>,
  and the bound of 400 million elements keeps them in range (20 updates of 10 seconds on top of a start below
  the size stay below 9 * 10 ^ 9 seconds). Lists of completions, segments and rounds are arbitrary.

  \<^bold>\<open>Not modelled.\<close> Output (\<open>LOG\<close>, \<open>printf\<close>, \<open>perror\<close>, the streams; that the strings \<open>LOG\<close> reads are terminated
  is checked), so neither \<open>include/logging.h\<close> nor the unused functions \<open>to_string\<close> and \<open>print\<close>; signals other than
  those the parents send (\<open>SIGPIPE\<close> of a failed \<open>send\<close> ends a process); name resolution; \<open>usleep\<close>;
  memory exhaustion in the C++ programs except where a vector of humans is allocated; the mutex of the table,
  which one thread cannot contend; and the parallel execution of handlers of different humans beyond their
  interleaving.
\<close>

end
